(* ===== verification/Prelude.thy ===== *)
theory Prelude
  imports Main "HOL-Library.Word" "HOL-Library.Monad_Syntax"
begin

text \<open>
  Shared vocabulary of the development: the machine integers of \<^verbatim>\<open>types.h\<close>, the byte
  memory every C pointer of the kernel refers to, address regions that may wrap around the
  32-bit address space, bulk stores, little-endian words and zero-terminated strings, and the
  lemma collections the component theories use.
\<close>

unbundle bit_operations_syntax

section \<open>Machine integers and memory\<close>

type_synonym byte = "8 word"
type_synonym u16 = "16 word"
type_synonym u32 = "32 word"
type_synonym addr = "32 word"
type_synonym memory = "addr \<Rightarrow> byte"

named_theorems region_simps \<open>membership in and separation of address regions\<close>
named_theorems store_simps \<open>loads after stores\<close>
named_theorems frame_simps \<open>fields an operation leaves alone\<close>

abbreviation (input) NULL :: addr where
  "NULL \<equiv> 0"

section \<open>Address regions\<close>

text \<open>
  The region of \<open>n\<close> bytes at \<open>a\<close> is the set of addresses whose distance from \<open>a\<close>,
  modulo \<open>2 ^ 32\<close>, is below \<open>n\<close>. Separation of two regions is stated by two such
  distances, so that it can be evaluated on concrete addresses.
\<close>

definition in_region :: "addr \<Rightarrow> nat \<Rightarrow> addr \<Rightarrow> bool" where
  "in_region a n x \<longleftrightarrow> unat (x - a) < n"

definition separate :: "addr \<Rightarrow> nat \<Rightarrow> addr \<Rightarrow> nat \<Rightarrow> bool" where
  "separate a n b m \<longleftrightarrow> n = 0 \<or> m = 0 \<or> (n \<le> unat (b - a) \<and> m \<le> unat (a - b))"

lemma unat_addr_lt: "unat (x :: addr) < 4294967296"
  using unsigned_less [of x, where ?'a = nat] by simp

lemma unat_of_nat_addr: "i < 4294967296 \<Longrightarrow> unat (of_nat i :: addr) = i"
  by (simp add: unat_of_nat)

lemma of_nat_eq_wordI: "unat (n :: u32) = k \<Longrightarrow> of_nat k = n"
  by auto

lemma of_nat_index_less: "i < unat (n :: u32) \<Longrightarrow> (of_nat i :: u32) < n"
  using unat_addr_lt [of n] by (simp add: word_less_nat_alt unat_of_nat)

lemma unat_index_Suc: "(i :: u32) < n \<Longrightarrow> unat (i + 1) = Suc (unat i)"
proof -
  assume "i < n"
  then have "Suc (unat i) < 4294967296"
    using unat_addr_lt [of n] by (simp add: word_less_nat_alt)
  then show ?thesis by (simp add: unat_word_ariths)
qed

lemma index_measure: "(i :: u32) < n \<Longrightarrow> unat n - unat (i + 1) < unat n - unat i"
  by (simp add: unat_index_Suc) (simp add: word_less_nat_alt)

lemma unat_pred: "(n :: u32) \<noteq> 0 \<Longrightarrow> unat n = Suc (unat (n - 1))"
  using unat_gt_0 [of n] by (simp add: unat_minus_one)

lemma dec_measure: "(n :: u32) \<noteq> 0 \<Longrightarrow> unat (n - 1) < unat n"
  by (simp add: unat_pred [of n])

lemma sint_of_nat_u32: "k < 2147483648 \<Longrightarrow> sint (of_nat k :: u32) = int k"
  by (simp add: signed_of_nat signed_take_bit_int_eq_self_iff)

lemma of_int_offset:
  assumes "0 \<le> k" "k < 4294967296"
  shows "x = s + of_int k \<longleftrightarrow> uint ((x :: addr) - s) = k"
proof
  assume "x = s + of_int k"
  then show "uint (x - s) = k" using assms by (simp add: uint_word_of_int)
next
  assume "uint (x - s) = k"
  then have "of_int k = x - s" by auto
  then show "x = s + of_int k" by simp
qed

lemma unat_diff_swap:
  assumes "(x :: addr) \<noteq> y"
  shows "unat (x - y) + unat (y - x) = 4294967296"
proof -
  have pos: "0 < unat (x - y)" using assms by (simp add: unat_gt_0)
  have "(unat (x - y) + unat (y - x)) mod 4294967296 = unat ((x - y) + (y - x))"
    by (subst unat_word_ariths(1)) simp
  then have "4294967296 dvd unat (x - y) + unat (y - x)" by auto
  then obtain k where k: "unat (x - y) + unat (y - x) = 4294967296 * k" ..
  then have "k = 1"
    using pos unat_addr_lt [of "x - y"] unat_addr_lt [of "y - x"] by linarith
  with k show ?thesis by simp
qed

lemma separate_sym: "separate a n b m \<longleftrightarrow> separate b m a n"
  by (auto simp: separate_def)

lemma unat_diff_trans:
  "unat ((x :: addr) - a) = (unat (x - b) + unat (b - a)) mod 4294967296"
proof -
  have "unat ((x - b) + (b - a)) = (unat (x - b) + unat (b - a)) mod 2 ^ LENGTH(32)"
    by (rule unat_word_ariths(1))
  then show ?thesis by simp
qed

lemma separateD:
  assumes "separate a n b m" "in_region a n x"
  shows "\<not> in_region b m x"
proof
  assume b: "in_region b m x"
  with assms have le: "n \<le> unat (b - a)" "m \<le> unat (a - b)" and "0 < n"
    by (auto simp: separate_def in_region_def)
  then have "b \<noteq> a" by auto
  then have "unat (b - a) + unat (a - b) = 4294967296" by (rule unat_diff_swap)
  then have "unat (x - b) + unat (b - a) < 4294967296"
    using b le by (simp add: in_region_def)
  then have "unat (x - a) = unat (x - b) + unat (b - a)"
    by (simp add: unat_diff_trans [of x a b])
  with assms(2) le show False by (simp add: in_region_def)
qed

lemma separateD2: "separate a n b m \<Longrightarrow> in_region b m x \<Longrightarrow> \<not> in_region a n x"
  using separateD by blast

lemma in_region_offset [region_simps]:
  "i < 4294967296 \<Longrightarrow> in_region a n (a + of_nat i) \<longleftrightarrow> i < n"
  by (simp add: in_region_def unat_of_nat_addr)

lemma in_region_mono: "in_region a n x \<Longrightarrow> n \<le> m \<Longrightarrow> in_region a m x"
  by (simp add: in_region_def)

lemma in_region_0 [simp]: "\<not> in_region a 0 x"
  by (simp add: in_region_def)

lemma in_region_self [simp]: "in_region a n a \<longleftrightarrow> 0 < n"
  by (simp add: in_region_def)

lemma in_region_shift:
  assumes "i + m \<le> n" "in_region (a + of_nat i) m x"
  shows "in_region a n x"
proof -
  let ?b = "a + of_nat i :: addr"
  have "unat (x - ?b) < m" using assms(2) by (simp add: in_region_def)
  moreover have "unat (?b - a) \<le> i"
    by (simp add: unat_of_nat)
  moreover have "unat (x - a) \<le> unat (x - ?b) + unat (?b - a)"
    by (subst unat_diff_trans [of x a ?b]) (rule mod_less_eq_dividend)
  ultimately show ?thesis using assms(1) by (simp add: in_region_def)
qed

lemma separate_sub:
  assumes "separate a n b m" "i + k \<le> n" "j + l \<le> m"
  shows "separate (a + of_nat i) k (b + of_nat j) l"
proof (cases "k = 0 \<or> l = 0")
  case True
  then show ?thesis by (auto simp: separate_def)
next
  case False
  let ?p = "a + of_nat i :: addr" and ?q = "b + of_nat j :: addr"
  have out1: "\<not> in_region a n x" if "in_region ?q l x" for x
    using that assms by (metis in_region_shift separateD2)
  have out2: "\<not> in_region b m x" if "in_region ?p k x" for x
    using that assms by (metis in_region_shift separateD)
  have "k \<le> unat (?q - ?p)"
  proof (rule ccontr)
    assume "\<not> k \<le> unat (?q - ?p)"
    then have "in_region ?p k ?q" by (simp add: in_region_def)
    then have "in_region a n ?q" using assms by (metis in_region_shift)
    with out1 [of ?q] False show False by simp
  qed
  moreover have "l \<le> unat (?p - ?q)"
  proof (rule ccontr)
    assume "\<not> l \<le> unat (?p - ?q)"
    then have "in_region ?q l ?p" by (simp add: in_region_def)
    then have "in_region b m ?p" using assms by (metis in_region_shift)
    with out2 [of ?p] False show False by simp
  qed
  ultimately show ?thesis by (simp add: separate_def)
qed

section \<open>Reading and writing runs of bytes\<close>

definition bytes_at :: "memory \<Rightarrow> addr \<Rightarrow> nat \<Rightarrow> byte list" where
  "bytes_at m a n = map (\<lambda>i. m (a + of_nat i)) [0..<n]"

definition store_bytes :: "memory \<Rightarrow> addr \<Rightarrow> byte list \<Rightarrow> memory" where
  "store_bytes m a bs = (\<lambda>x. if in_region a (length bs) x then bs ! unat (x - a) else m x)"

lemma length_bytes_at [simp]: "length (bytes_at m a n) = n"
  by (simp add: bytes_at_def)

lemma nth_bytes_at [simp]: "i < n \<Longrightarrow> bytes_at m a n ! i = m (a + of_nat i)"
  by (simp add: bytes_at_def)

lemma bytes_at_0 [simp]: "bytes_at m a 0 = []"
  by (simp add: bytes_at_def)

lemma bytes_at_Suc: "bytes_at m a (Suc n) = bytes_at m a n @ [m (a + of_nat n)]"
  by (simp add: bytes_at_def)

lemma bytes_at_Suc': "bytes_at m a (Suc n) = m a # bytes_at m (a + 1) n"
  by (simp add: bytes_at_def upt_conv_Cons map_Suc_upt [symmetric] add.assoc del: upt_Suc)

lemma take_bytes_at [simp]: "k \<le> n \<Longrightarrow> take k (bytes_at m a n) = bytes_at m a k"
  by (rule nth_equalityI) auto

lemma drop_bytes_at: "drop k (bytes_at m a n) = bytes_at m (a + of_nat k) (n - k)"
  by (rule nth_equalityI) (auto simp: add.assoc)

lemma bytes_at_cong:
  "(\<And>x. in_region a n x \<Longrightarrow> m x = m' x) \<Longrightarrow> n \<le> 4294967296 \<Longrightarrow> bytes_at m a n = bytes_at m' a n"
  by (auto simp: bytes_at_def in_region_offset)

lemma store_bytes_Nil [simp]: "store_bytes m a [] = m"
  by (simp add: store_bytes_def)

lemma store_bytes_out [store_simps]:
  "\<not> in_region a (length bs) x \<Longrightarrow> store_bytes m a bs x = m x"
  by (simp add: store_bytes_def)

lemma store_bytes_in [store_simps]:
  "i < length bs \<Longrightarrow> i < 4294967296 \<Longrightarrow> store_bytes m a bs (a + of_nat i) = bs ! i"
  by (simp add: store_bytes_def in_region_offset unat_of_nat_addr)

lemma store_bytes_snoc:
  assumes "length bs < 4294967296"
  shows "(store_bytes m a bs)(a + of_nat (length bs) := v) = store_bytes m a (bs @ [v])"
proof
  fix x
  show "((store_bytes m a bs)(a + of_nat (length bs) := v)) x = store_bytes m a (bs @ [v]) x"
  proof (cases "x = a + of_nat (length bs)")
    case True
    with assms show ?thesis
      by (simp add: store_bytes_def in_region_def unat_of_nat_addr)
  next
    case False
    then have "x - a \<noteq> of_nat (length bs)" by (auto simp: algebra_simps)
    then have "unat (x - a) \<noteq> length bs"
      using assms by (simp add: word_unat_eq_iff unat_of_nat_addr)
    with False show ?thesis
      by (auto simp: store_bytes_def in_region_def nth_append)
  qed
qed

lemma in_region_append:
  assumes "p + q \<le> 4294967296"
  shows "in_region (a + of_nat p) q x \<longleftrightarrow> p \<le> unat (x - a) \<and> unat (x - a) < p + q"
proof (cases "q = 0")
  case False
  then have p: "unat (of_nat p :: addr) = p" using assms by (simp add: unat_of_nat_addr)
  show ?thesis
  proof (cases "p \<le> unat (x - a)")
    case True
    have "unat (x - (a + of_nat p)) = unat ((x - a) - of_nat p)"
      by (simp add: diff_diff_eq)
    also have "\<dots> = unat (x - a) - p"
      using True p by (subst unat_sub) (auto simp: word_le_nat_alt)
    finally show ?thesis using True by (auto simp: in_region_def)
  next
    case less: False
    have "unat (x - (a + of_nat p)) = unat ((x - a) - of_nat p)"
      by (simp add: diff_diff_eq)
    also have "\<dots> = 4294967296 + unat (x - a) - p"
      using less p by (subst unat_sub_if') (auto simp: word_le_nat_alt)
    finally show ?thesis using less assms by (auto simp: in_region_def)
  qed
qed simp

lemma unat_diff_offset:
  assumes "p \<le> unat ((x :: addr) - a)"
  shows "unat (x - (a + of_nat p)) = unat (x - a) - p"
proof -
  have "unat (of_nat p :: addr) = p" using assms unat_addr_lt [of "x - a"] by (simp add: unat_of_nat)
  then have "unat ((x - a) - of_nat p) = unat (x - a) - p"
    using assms by (subst unat_sub) (auto simp: word_le_nat_alt)
  then show ?thesis by (simp add: diff_diff_eq)
qed

lemma store_bytes_append:
  assumes "length xs + length ys \<le> 4294967296"
  shows "store_bytes (store_bytes m a xs) (a + of_nat (length xs)) ys = store_bytes m a (xs @ ys)"
proof
  fix x
  show "store_bytes (store_bytes m a xs) (a + of_nat (length xs)) ys x = store_bytes m a (xs @ ys) x"
    unfolding store_bytes_def in_region_append [OF assms]
    by (auto simp: in_region_def nth_append unat_diff_offset)
qed

lemma store_bytes_Cons:
  assumes "length ys < 4294967296"
  shows "(store_bytes m (a + 1) ys)(a := y) = store_bytes m a (y # ys)"
proof
  fix x
  have "in_region (a + 1) (length ys) x \<longleftrightarrow> 1 \<le> unat (x - a) \<and> unat (x - a) < 1 + length ys"
    using in_region_append [of 1 "length ys" a x] assms by simp
  moreover have "unat (x - (a + 1)) = unat (x - a) - 1" if "1 \<le> unat (x - a)"
    using unat_diff_offset [of 1 x a] that by simp
  moreover have "x = a \<longleftrightarrow> unat (x - a) = 0" by (simp add: unat_0_iff)
  ultimately show "((store_bytes m (a + 1) ys)(a := y)) x = store_bytes m a (y # ys) x"
    by (auto simp: store_bytes_def in_region_def nth_Cons split: nat.splits)
qed

lemma bytes_at_store_bytes [store_simps]:
  "length bs \<le> 4294967296 \<Longrightarrow> bytes_at (store_bytes m a bs) a (length bs) = bs"
  by (rule nth_equalityI) (auto simp: store_bytes_in)

lemma bytes_at_store_prefix:
  assumes "length (t @ u) \<le> 4294967296"
  shows "bytes_at (store_bytes m a (t @ u)) a (length t) = t"
proof -
  have "take (length t) (bytes_at (store_bytes m a (t @ u)) a (length (t @ u))) = t"
    unfolding bytes_at_store_bytes [OF assms] by simp
  then show ?thesis by simp
qed

lemma bytes_at_store_bytes_other [store_simps]:
  assumes "separate a (length bs) b n" "n \<le> 4294967296"
  shows "bytes_at (store_bytes m a bs) b n = bytes_at m b n"
  using assms by (intro bytes_at_cong) (auto dest: separateD2 simp: store_bytes_out)

lemma store_bytes_other:
  "separate a (length bs) b n \<Longrightarrow> in_region b n x \<Longrightarrow> store_bytes m a bs x = m x"
  by (auto dest: separateD2 simp: store_bytes_out)

lemma ucast_ucast_byte [simp]: "ucast (ucast (b :: byte) :: u32) = b"
  by (rule bit_word_eqI) (auto simp: bit_simps)

section \<open>Little-endian 32-bit words\<close>

definition load32 :: "memory \<Rightarrow> addr \<Rightarrow> u32" where
  "load32 m a = ucast (m a) OR push_bit 8 (ucast (m (a + 1)))
     OR push_bit 16 (ucast (m (a + 2))) OR push_bit 24 (ucast (m (a + 3)))"

definition bytes32 :: "u32 \<Rightarrow> byte list" where
  "bytes32 v = [ucast v, ucast (drop_bit 8 v), ucast (drop_bit 16 v), ucast (drop_bit 24 v)]"

definition store32 :: "memory \<Rightarrow> addr \<Rightarrow> u32 \<Rightarrow> memory" where
  "store32 m a v = store_bytes m a (bytes32 v)"

lemma length_bytes32 [simp]: "length (bytes32 v) = 4"
  by (simp add: bytes32_def)

lemma load32_cong:
  assumes "\<And>x. in_region a 4 x \<Longrightarrow> m x = m' x"
  shows "load32 m a = load32 m' a"
proof -
  have "in_region a 4 (a + of_nat i) \<longleftrightarrow> i < 4" if "i < 4294967296" for i
    using that by (rule in_region_offset)
  from this [of 1] this [of 2] this [of 3] show ?thesis
    using assms [of a] assms [of "a + 1"] assms [of "a + 2"] assms [of "a + 3"]
    by (simp add: load32_def)
qed

lemma load32_store32 [store_simps]: "load32 (store32 m a v) a = v"
proof -
  have *: "store32 m a v (a + of_nat i) = bytes32 v ! i" if "i < 4" for i
    using that by (simp add: store32_def store_bytes_in)
  have "store32 m a v a = bytes32 v ! 0" "store32 m a v (a + 1) = bytes32 v ! 1"
    "store32 m a v (a + 2) = bytes32 v ! 2" "store32 m a v (a + 3) = bytes32 v ! 3"
    using * [of 0] * [of 1] * [of 2] * [of 3] by simp_all
  then have "load32 (store32 m a v) a = ucast (ucast v :: byte) OR push_bit 8 (ucast (ucast (drop_bit 8 v) :: byte))
     OR push_bit 16 (ucast (ucast (drop_bit 16 v) :: byte)) OR push_bit 24 (ucast (ucast (drop_bit 24 v) :: byte))"
    by (simp add: load32_def bytes32_def)
  also have "\<dots> = v"
  proof (rule bit_word_eqI)
    fix n assume "n < LENGTH(32)"
    then show "bit (ucast (ucast v :: byte) OR push_bit 8 (ucast (ucast (drop_bit 8 v) :: byte))
     OR push_bit 16 (ucast (ucast (drop_bit 16 v) :: byte))
     OR push_bit 24 (ucast (ucast (drop_bit 24 v) :: byte)) :: u32) n = bit v n"
      by (cases "n < 8"; cases "n < 16"; cases "n < 24") (auto simp: bit_simps)
  qed
  finally show ?thesis .
qed

lemma bit_byte_beyond: "8 \<le> n \<Longrightarrow> \<not> bit (b :: byte) n"
  by (auto dest: bit_imp_le_length)

lemma bytes32_load32: "bytes32 (load32 m a) = bytes_at m a 4"
proof -
  have "ucast (load32 m a) = m a"
    by (rule bit_word_eqI) (auto simp: load32_def bit_simps bit_byte_beyond)
  moreover have "ucast (drop_bit 8 (load32 m a)) = m (a + 1)"
    by (rule bit_word_eqI) (auto simp: load32_def bit_simps bit_byte_beyond)
  moreover have "ucast (drop_bit 16 (load32 m a)) = m (a + 2)"
    by (rule bit_word_eqI) (auto simp: load32_def bit_simps bit_byte_beyond)
  moreover have "ucast (drop_bit 24 (load32 m a)) = m (a + 3)"
    by (rule bit_word_eqI) (auto simp: load32_def bit_simps bit_byte_beyond)
  ultimately show ?thesis by (simp add: bytes32_def bytes_at_def upt_rec)
qed

lemma load32_store32_other [store_simps]:
  "separate a 4 b 4 \<Longrightarrow> load32 (store32 m a v) b = load32 m b"
  by (rule load32_cong) (auto simp: store32_def intro: store_bytes_other)

section \<open>Zero-terminated strings\<close>

definition cstr_at :: "memory \<Rightarrow> addr \<Rightarrow> byte list \<Rightarrow> bool" where
  "cstr_at m a s \<longleftrightarrow> bytes_at m a (length s) = s \<and> 0 \<notin> set s \<and> m (a + of_nat (length s)) = 0"

lemma cstr_at_nth: "cstr_at m a s \<Longrightarrow> i < length s \<Longrightarrow> m (a + of_nat i) = s ! i"
  by (metis cstr_at_def nth_bytes_at)

lemma cstr_at_nth_nonzero: "cstr_at m a s \<Longrightarrow> i < length s \<Longrightarrow> m (a + of_nat i) \<noteq> 0"
  by (metis cstr_at_def cstr_at_nth nth_mem)

lemma cstr_at_end: "cstr_at m a s \<Longrightarrow> m (a + of_nat (length s)) = 0"
  by (simp add: cstr_at_def)

lemma cstr_at_length:
  assumes "cstr_at m a s"
  shows "length s < 4294967296"
proof (rule ccontr)
  assume "\<not> length s < 4294967296"
  moreover have "length s mod 4294967296 < 4294967296" by simp
  ultimately have lt: "length s mod 4294967296 < length s" by linarith
  have "of_nat (length s mod 4294967296) = (of_nat (length s) :: addr)"
    by (simp add: word_unat_eq_iff unat_of_nat)
  with cstr_at_nth_nonzero [OF assms lt] cstr_at_end [OF assms] show False by simp
qed

lemma cstr_at_unique:
  assumes "cstr_at m a s" "cstr_at m a t"
  shows "s = t"
proof -
  have "length s = length t"
    using assms cstr_at_end cstr_at_nth_nonzero by (meson linorder_neqE_nat)
  with assms show ?thesis by (metis cstr_at_def)
qed

lemma cstr_at_cong:
  assumes "\<And>x. in_region a (Suc (length s)) x \<Longrightarrow> m x = m' x" "cstr_at m a s"
  shows "cstr_at m' a s"
proof -
  have "m (a + of_nat i) = m' (a + of_nat i)" if "i \<le> length s" for i
    using assms(1) that cstr_at_length [OF assms(2)] by (simp add: in_region_offset)
  then have "bytes_at m a (length s) = bytes_at m' a (length s)"
    and "m (a + of_nat (length s)) = m' (a + of_nat (length s))"
    by (auto simp: bytes_at_def)
  with assms(2) show ?thesis by (simp add: cstr_at_def)
qed

lemma cstr_at_store_bytes:
  assumes "length s < 4294967296" "0 \<notin> set s"
  shows "cstr_at (store_bytes m a (s @ [0])) a s"
proof -
  have "store_bytes m a (s @ [0]) (a + of_nat i) = (s @ [0]) ! i" if "i \<le> length s" for i
    using that assms by (intro store_bytes_in) auto
  then have "bytes_at (store_bytes m a (s @ [0])) a (length s) = s"
    "store_bytes m a (s @ [0]) (a + of_nat (length s)) = 0"
    by (auto intro!: nth_equalityI simp: nth_append)
  with assms(2) show ?thesis by (simp add: cstr_at_def)
qed

section \<open>Writes confined to regions\<close>

text \<open>\<open>frame_out rs m m'\<close>: \<open>m'\<close> differs from \<open>m\<close> only inside the regions \<open>rs\<close>.\<close>

definition frame_out :: "(addr \<times> nat) list \<Rightarrow> memory \<Rightarrow> memory \<Rightarrow> bool" where
  "frame_out rs m m' \<longleftrightarrow> (\<forall>x. (\<forall>(a, n) \<in> set rs. \<not> in_region a n x) \<longrightarrow> m' x = m x)"

lemma frame_out_refl [simp]: "frame_out rs m m"
  by (simp add: frame_out_def)

lemma frame_out_trans: "frame_out rs m m1 \<Longrightarrow> frame_out qs m1 m2 \<Longrightarrow> frame_out (rs @ qs) m m2"
  by (simp add: frame_out_def)

lemma frame_out_weaken: "frame_out rs m m' \<Longrightarrow> set rs \<subseteq> set qs \<Longrightarrow> frame_out qs m m'"
  unfolding frame_out_def by blast

lemma frame_out_step: "frame_out rs m m1 \<Longrightarrow> frame_out qs m1 m2 \<Longrightarrow> set qs \<subseteq> set rs \<Longrightarrow> frame_out rs m m2"
  using frame_out_weaken [OF frame_out_trans [of rs m m1 qs m2], of rs] by simp

lemma frame_out_store_bytes: "length bs \<le> n \<Longrightarrow> frame_out [(a, n)] m (store_bytes m a bs)"
  by (auto simp: frame_out_def in_region_def store_bytes_def)

lemma frame_out_store_at:
  "i + length bs \<le> n \<Longrightarrow> frame_out [(a, n)] m (store_bytes m (a + of_nat i) bs)"
  unfolding frame_out_def using in_region_shift [of i "length bs" n a] by (auto simp: store_bytes_def)

lemma frame_outD:
  assumes "frame_out rs m m'" "\<And>a n. (a, n) \<in> set rs \<Longrightarrow> separate a n b k" "in_region b k x"
  shows "m' x = m x"
  using assms separateD2 unfolding frame_out_def by blast

lemma bytes_at_frame:
  "frame_out rs m m' \<Longrightarrow> (\<And>a n. (a, n) \<in> set rs \<Longrightarrow> separate a n b k) \<Longrightarrow> k \<le> 4294967296 \<Longrightarrow>
     bytes_at m' b k = bytes_at m b k"
  by (rule bytes_at_cong) (auto dest: frame_outD)

lemma load32_frame:
  "frame_out rs m m' \<Longrightarrow> (\<And>a n. (a, n) \<in> set rs \<Longrightarrow> separate a n b 4) \<Longrightarrow> load32 m' b = load32 m b"
  by (rule load32_cong) (auto dest: frame_outD)

lemma cstr_at_frame:
  "frame_out rs m m' \<Longrightarrow> (\<And>a n. (a, n) \<in> set rs \<Longrightarrow> separate a n b (Suc (length t))) \<Longrightarrow>
     cstr_at m b t \<Longrightarrow> cstr_at m' b t"
  by (rule cstr_at_cong [of b t m]) (metis frame_outD)

section \<open>Sequential readers\<close>

lemma chunk_and_rest: "take k (drop p xs) @ drop (p + min k (length (drop p xs))) xs = drop p xs"
proof -
  have "drop (p + min k (length (drop p xs))) xs = drop k (drop p xs)"
    by (simp add: min_def add.commute)
  then show ?thesis by (simp only: append_take_drop_id)
qed

text \<open>
  What a caller of \<open>read\<close> relies on, for regular files and for directories: a chunk is the next
  piece of a fixed list of items, the position moves behind it, and before the end of the list a
  chunk is not empty. \<open>read_seq\<close> is the caller's loop.
\<close>

primrec read_seq :: "('s \<Rightarrow> 'a list \<times> 's) \<Rightarrow> nat \<Rightarrow> 's \<Rightarrow> 'a list" where
  "read_seq rd 0 s = []"
| "read_seq rd (Suc n) s = fst (rd s) @ read_seq rd n (snd (rd s))"

locale cursor_reader =
  fixes rd :: "'s \<Rightarrow> 'a list \<times> 's"
    and inv :: "'s \<Rightarrow> bool"
    and items :: "'s \<Rightarrow> 'a list"
    and pos :: "'s \<Rightarrow> nat"
  assumes inv_read: "inv s \<Longrightarrow> inv (snd (rd s))"
    and items_read: "inv s \<Longrightarrow> items (snd (rd s)) = items s"
    and chunk_read: "inv s \<Longrightarrow> fst (rd s) @ drop (pos (snd (rd s))) (items s) = drop (pos s) (items s)"
    and progress: "inv s \<Longrightarrow> pos s < length (items s) \<Longrightarrow> fst (rd s) \<noteq> []"
begin

lemma read_all:
  "inv s \<Longrightarrow> length (items s) - pos s \<le> n \<Longrightarrow> read_seq rd n s = drop (pos s) (items s)"
proof (induction n arbitrary: s)
  case 0
  then show ?case by simp
next
  case (Suc n)
  let ?c = "fst (rd s)" and ?t = "snd (rd s)"
  have "length ?c + (length (items s) - pos ?t) = length (items s) - pos s"
    using chunk_read [OF Suc.prems(1)] by (metis length_append length_drop)
  moreover have "0 < length ?c \<or> length (items s) \<le> pos s" using progress [OF Suc.prems(1)] by fastforce
  ultimately have "length (items ?t) - pos ?t \<le> n"
    unfolding items_read [OF Suc.prems(1)] using Suc.prems(2) by linarith
  then have "read_seq rd n ?t = drop (pos ?t) (items s)"
    using Suc.IH inv_read items_read Suc.prems(1) by metis
  then show ?case using chunk_read [OF Suc.prems(1)] by simp
qed

lemma end_of_items: "inv s \<Longrightarrow> fst (rd s) = [] \<longleftrightarrow> length (items s) \<le> pos s"
  using progress [of s] chunk_read [of s]
  by (metis append_is_Nil_conv drop_eq_Nil linorder_not_le)

end

text \<open>
  A loop that reads a chunk and passes it on until a chunk is empty, and its contract: passing a chunk on does
  not move the cursor, and shows every item of the chunk in the view.
\<close>

fun copy_seq :: "('s \<Rightarrow> 'a list \<times> 's) \<Rightarrow> ('a list \<Rightarrow> 's \<Rightarrow> 's) \<Rightarrow> nat \<Rightarrow> 's \<Rightarrow> 's option" where
  "copy_seq rd echo 0 s = None"
| "copy_seq rd echo (Suc n) s = (case rd s of (c, t) \<Rightarrow> if c = [] then Some t else copy_seq rd echo n (echo c t))"

locale stream_copier = cursor_reader rd inv items pos
  for rd :: "'s \<Rightarrow> 'a list \<times> 's" and inv :: "'s \<Rightarrow> bool" and items :: "'s \<Rightarrow> 'a list" and pos :: "'s \<Rightarrow> nat" +
  fixes echo :: "'a list \<Rightarrow> 's \<Rightarrow> 's"
    and view :: "'s \<Rightarrow> 'v"
    and emit :: "'a \<Rightarrow> 'v \<Rightarrow> 'v"
  assumes view_read: "inv s \<Longrightarrow> view (snd (rd s)) = view s"
    and inv_echo: "inv s \<Longrightarrow> rd s = (c, t) \<Longrightarrow> c \<noteq> [] \<Longrightarrow> inv (echo c t)"
    and items_echo: "inv s \<Longrightarrow> rd s = (c, t) \<Longrightarrow> c \<noteq> [] \<Longrightarrow> items (echo c t) = items t"
    and pos_echo: "inv s \<Longrightarrow> rd s = (c, t) \<Longrightarrow> c \<noteq> [] \<Longrightarrow> pos (echo c t) = pos t"
    and view_echo: "inv s \<Longrightarrow> rd s = (c, t) \<Longrightarrow> c \<noteq> [] \<Longrightarrow> view (echo c t) = fold emit c (view t)"
begin

lemma copy_all:
  "inv s \<Longrightarrow> length (items s) - pos s < n \<Longrightarrow>
     \<exists>t. copy_seq rd echo n s = Some t \<and> view t = fold emit (drop (pos s) (items s)) (view s) \<and> inv t"
proof (induction n arbitrary: s)
  case (Suc n)
  obtain c t where r: "rd s = (c, t)" by (cases "rd s")
  note ax = inv_read [OF Suc.prems(1), unfolded r snd_conv] items_read [OF Suc.prems(1), unfolded r snd_conv]
    chunk_read [OF Suc.prems(1), unfolded r fst_conv snd_conv] view_read [OF Suc.prems(1), unfolded r snd_conv]
  show ?case
  proof (cases "c = []")
    case True
    then have "drop (pos s) (items s) = []" using end_of_items [OF Suc.prems(1)] r by simp
    then show ?thesis using True r ax by simp
  next
    case False
    note e = inv_echo [OF Suc.prems(1) r False] items_echo [OF Suc.prems(1) r False] pos_echo [OF Suc.prems(1) r False]
      view_echo [OF Suc.prems(1) r False]
    have "length c + (length (items s) - pos t) = length (items s) - pos s"
      using ax(3) by (metis length_append length_drop)
    then have "length (items (echo c t)) - pos (echo c t) < n" using False Suc.prems(2) e ax(2) by (cases c) auto
    from Suc.IH [OF e(1) this] obtain u where u: "copy_seq rd echo n (echo c t) = Some u" "inv u"
      "view u = fold emit (drop (pos t) (items s)) (fold emit c (view s))" using e ax by auto
    have "fold emit (drop (pos t) (items s)) (fold emit c (view s)) = fold emit (drop (pos s) (items s)) (view s)"
      unfolding ax(3) [symmetric] by simp
    then show ?thesis using u r False by simp
  qed
qed simp

end

end
