(* ===== verification/Lib_String.thy ===== *)
theory Lib_String
  imports Prelude
begin

text \<open>
  The string routines of \<^verbatim>\<open>student-distrib/lib.c\<close> over the byte memory: \<open>strlen\<close>, \<open>strncmp\<close>,
  \<open>strcpy\<close>, \<open>strncpy\<close>, \<open>strrev\<close> and \<open>itoa\<close>. A loop that need not end is a
  \<open>partial_function\<close>, and \<open>None\<close> means that the call does not return.
\<close>

section \<open>Definitions\<close>

partial_function (option) strlen_from :: "memory \<Rightarrow> addr \<Rightarrow> u32 \<Rightarrow> u32 option" where
  "strlen_from m s len = (if m (s + len) \<noteq> 0 then strlen_from m s (len + 1) else Some len)"

definition strlen :: "memory \<Rightarrow> addr \<Rightarrow> u32 option" where
  "strlen m s = strlen_from m s 0"

text \<open>\<open>strncmp\<close> returns the difference of the first bytes that differ, as signed chars.\<close>

function strncmp_from :: "memory \<Rightarrow> addr \<Rightarrow> addr \<Rightarrow> u32 \<Rightarrow> u32 \<Rightarrow> int" where
  "strncmp_from m s1 s2 n i =
     (if i < n then
        if m (s1 + i) \<noteq> m (s2 + i) \<or> m (s1 + i) = 0
        then sint (m (s1 + i)) - sint (m (s2 + i))
        else strncmp_from m s1 s2 n (i + 1)
      else 0)"
  by pat_completeness auto
termination
  by (relation "measure (\<lambda>(m, s1, s2, n, i). unat n - unat i)") (auto simp: index_measure)

definition strncmp :: "memory \<Rightarrow> addr \<Rightarrow> addr \<Rightarrow> u32 \<Rightarrow> int" where
  "strncmp m s1 s2 n = strncmp_from m s1 s2 n 0"

partial_function (option) strcpy_from :: "memory \<Rightarrow> addr \<Rightarrow> addr \<Rightarrow> u32 \<Rightarrow> memory option" where
  "strcpy_from m dest src i =
     (if m (src + i) \<noteq> 0 then strcpy_from (m(dest + i := m (src + i))) dest src (i + 1)
      else Some (m(dest + i := 0)))"

definition strcpy :: "memory \<Rightarrow> addr \<Rightarrow> addr \<Rightarrow> memory option" where
  "strcpy m dest src = strcpy_from m dest src 0"

function strncpy_copy :: "memory \<Rightarrow> addr \<Rightarrow> addr \<Rightarrow> u32 \<Rightarrow> u32 \<Rightarrow> memory \<times> u32" where
  "strncpy_copy m dest src n i =
     (if m (src + i) \<noteq> 0 \<and> i < n
      then strncpy_copy (m(dest + i := m (src + i))) dest src n (i + 1)
      else (m, i))"
  by pat_completeness auto
termination
  by (relation "measure (\<lambda>(m, dest, src, n, i). unat n - unat i)") (auto simp: index_measure)

function strncpy_pad :: "memory \<Rightarrow> addr \<Rightarrow> u32 \<Rightarrow> u32 \<Rightarrow> memory" where
  "strncpy_pad m dest n i =
     (if i < n then strncpy_pad (m(dest + i := 0)) dest n (i + 1) else m)"
  by pat_completeness auto
termination
  by (relation "measure (\<lambda>(m, dest, n, i). unat n - unat i)") (auto simp: index_measure)

definition strncpy :: "memory \<Rightarrow> addr \<Rightarrow> addr \<Rightarrow> u32 \<Rightarrow> memory" where
  "strncpy m dest src n = (case strncpy_copy m dest src n 0 of (m', i) \<Rightarrow> strncpy_pad m' dest n i)"

function strrev_swap :: "memory \<Rightarrow> addr \<Rightarrow> int \<Rightarrow> int \<Rightarrow> memory" where
  "strrev_swap m s beg end1 =
     (if beg < end1 then
        let tmp = m (s + of_int end1);
            m1 = m(s + of_int end1 := m (s + of_int beg));
            m2 = m1(s + of_int beg := tmp)
        in strrev_swap m2 s (beg + 1) (end1 - 1)
      else m)"
  by pat_completeness auto
termination
  by (relation "measure (\<lambda>(m, s, beg, end1). nat (end1 - beg))") auto

definition strrev :: "memory \<Rightarrow> addr \<Rightarrow> memory option" where
  "strrev m s = do { len \<leftarrow> strlen m s; Some (strrev_swap m s 0 (sint (len - 1))) }"

text \<open>
  The static table \<open>lookup\<close> of \<open>itoa\<close>, its terminating zero included. A zero radix is the
  divide error of the processor and a digit beyond the table a read outside of it; both are
  \<open>None\<close>, and so is the endless loop of radix one.
\<close>

definition itoa_lookup :: "byte list" where
  "itoa_lookup = map (\<lambda>c. of_char c) ''0123456789ABCDEFGHIJKLMNOPQRSTUVWXYZ'' @ [0]"

partial_function (option) itoa_digits :: "memory \<Rightarrow> addr \<Rightarrow> u32 \<Rightarrow> u32 \<Rightarrow> (memory \<times> addr) option" where
  "itoa_digits m newbuf newval radix =
     (if 0 < newval then
        if radix = 0 \<or> 36 < newval mod radix then None
        else itoa_digits (m(newbuf := itoa_lookup ! unat (newval mod radix))) (newbuf + 1)
               (newval div radix) radix
      else Some (m, newbuf))"

definition itoa :: "memory \<Rightarrow> u32 \<Rightarrow> addr \<Rightarrow> u32 \<Rightarrow> memory option" where
  "itoa m value buf radix =
     (if value = 0 then Some ((m(buf := 48))(buf + 1 := 0))
      else do { (m', newbuf) \<leftarrow> itoa_digits m buf value radix;
                strrev (m'(newbuf := 0)) buf })"

declare strncmp_from.simps [simp del] strncpy_copy.simps [simp del] strncpy_pad.simps [simp del]
  strrev_swap.simps [simp del]

section \<open>strlen\<close>

lemma strlen_from_cstr:
  assumes "cstr_at m a s"
  shows "i \<le> length s \<Longrightarrow> strlen_from m a (of_nat i) = Some (of_nat (length s))"
proof (induction "length s - i" arbitrary: i)
  case 0
  then show ?case
    using cstr_at_end [OF assms] by (subst strlen_from.simps) simp
next
  case (Suc k)
  then have i: "i < length s" by simp
  have "strlen_from m a (of_nat i) = strlen_from m a (of_nat (Suc i))"
    using cstr_at_nth_nonzero [OF assms i] by (subst strlen_from.simps) (simp add: add.commute)
  also have "\<dots> = Some (of_nat (length s))"
    using Suc.hyps i by (intro Suc.hyps(1)) auto
  finally show ?case .
qed

lemma strlen_cstr: "cstr_at m a s \<Longrightarrow> strlen m a = Some (of_nat (length s))"
  using strlen_from_cstr [of m a s 0] by (simp add: strlen_def)

lemma strlen_from_Some:
  assumes "strlen_from m a i = Some n"
  shows "m (a + n) = 0"
proof (rule strlen_from.raw_induct [where P = "\<lambda>m a i n. m (a + n) = 0", OF _ assms])
  fix f m s and len r :: u32
  assume IH: "\<And>m s i n. f m s i = Some n \<Longrightarrow> m (s + n) = 0"
    and eq: "(if m (s + len) \<noteq> 0 then f m s (len + 1) else Some len) = Some r"
  show "m (s + r) = 0"
    using eq IH by (cases "m (s + len) = 0") auto
qed

lemma ex_cstr_at:
  assumes "m (a + of_nat n) = 0"
  shows "\<exists>s. cstr_at m a s"
proof -
  define k where "k = (LEAST k. m (a + of_nat k) = 0)"
  have "m (a + of_nat k) = 0" unfolding k_def using assms by (rule LeastI)
  moreover have "m (a + of_nat i) \<noteq> 0" if "i < k" for i
    using that not_less_Least unfolding k_def by blast
  ultimately have "cstr_at m a (bytes_at m a k)"
    by (auto simp: cstr_at_def in_set_conv_nth)
  then show ?thesis ..
qed

lemma strlen_Some_iff:
  "strlen m a = Some n \<longleftrightarrow> (\<exists>s. cstr_at m a s \<and> n = of_nat (length s))"
proof
  assume *: "strlen m a = Some n"
  then have "m (a + of_nat (unat n)) = 0"
    unfolding strlen_def by (simp add: strlen_from_Some)
  then obtain s where s: "cstr_at m a s" using ex_cstr_at by blast
  with * strlen_cstr [OF s] show "\<exists>s. cstr_at m a s \<and> n = of_nat (length s)" by auto
qed (auto simp: strlen_cstr)

lemma unat_strlen: "strlen m a = Some n \<Longrightarrow> cstr_at m a s \<Longrightarrow> unat n = length s"
  using cstr_at_length [of m a s] by (auto simp: strlen_cstr unat_of_nat_addr)

section \<open>strncmp\<close>

text \<open>
  What \<open>strncmp\<close> compares are the strings cut off at the first zero byte or after \<open>n\<close> bytes,
  whichever comes first.
\<close>

definition cprefix :: "memory \<Rightarrow> addr \<Rightarrow> nat \<Rightarrow> byte list" where
  "cprefix m a n = takeWhile (\<lambda>b. b \<noteq> 0) (bytes_at m a n)"

fun bytes_diff :: "byte list \<Rightarrow> byte list \<Rightarrow> int" where
  "bytes_diff (x # xs) (y # ys) = (if x \<noteq> y \<or> x = 0 then sint x - sint y else bytes_diff xs ys)"
| "bytes_diff _ _ = 0"

lemma strncmp_from_list:
  "i \<le> unat n \<Longrightarrow> strncmp_from m s1 s2 n (of_nat i) =
     bytes_diff (bytes_at m (s1 + of_nat i) (unat n - i)) (bytes_at m (s2 + of_nat i) (unat n - i))"
proof (induction "unat n - i" arbitrary: i)
  case 0
  then have "of_nat i = n" by auto
  with 0 show ?case by (subst strncmp_from.simps) simp
next
  case (Suc d)
  then have i: "i < unat n" by simp
  then have "(of_nat i :: u32) < n"
    by (simp add: of_nat_index_less)
  moreover have d: "d = unat n - Suc i" using Suc.hyps(2) by simp
  moreover from d have "strncmp_from m s1 s2 n (of_nat i + 1) =
     bytes_diff (bytes_at m (s1 + of_nat i + 1) d) (bytes_at m (s2 + of_nat i + 1) d)"
    using Suc.hyps(1) [of "Suc i"] i by (simp add: add.assoc add.commute [of 1])
  moreover have "unat n - i = Suc d" using Suc.hyps(2) by simp
  ultimately show ?case
    by (subst strncmp_from.simps) (simp add: bytes_at_Suc')
qed

lemma sint_inject_byte: "sint (x :: byte) = sint y \<longleftrightarrow> x = y"
  by (metis word_eq_iff_signed)

lemma bytes_diff_0_iff:
  "length xs = length ys \<Longrightarrow>
     bytes_diff xs ys = 0 \<longleftrightarrow> takeWhile (\<lambda>b. b \<noteq> 0) xs = takeWhile (\<lambda>b. b \<noteq> 0) ys"
  by (induction xs ys rule: bytes_diff.induct) (auto simp: sint_inject_byte sint_inject_byte [of _ 0, simplified] sint_inject_byte [of 0, simplified])

lemma strncmp_0_iff: "strncmp m s1 s2 n = 0 \<longleftrightarrow> cprefix m s1 (unat n) = cprefix m s2 (unat n)"
  using strncmp_from_list [of 0 n m s1 s2] by (simp add: strncmp_def cprefix_def bytes_diff_0_iff)

lemma cprefix_cstr: "cstr_at m a s \<Longrightarrow> cprefix m a n = take n s"
proof -
  assume *: "cstr_at m a s"
  show ?thesis
  proof (cases "n \<le> length s")
    case True
    then have "bytes_at m a n = take n s"
      using * by (metis cstr_at_def take_bytes_at)
    moreover have "0 \<notin> set (take n s)" using * by (meson cstr_at_def in_set_takeD)
    ultimately show ?thesis
      by (simp add: cprefix_def takeWhile_eq_all_conv) (metis)
  next
    case False
    have "drop (length s) (bytes_at m a n) = 0 # drop (Suc (length s)) (bytes_at m a n)"
      using False cstr_at_end [OF *] by (subst Cons_nth_drop_Suc [symmetric]) auto
    then obtain ys where "bytes_at m a n = take (length s) (bytes_at m a n) @ 0 # ys"
      by (metis append_take_drop_id)
    then have "bytes_at m a n = s @ 0 # ys"
      using * False by (simp add: cstr_at_def)
    moreover have "takeWhile (\<lambda>b. b \<noteq> 0) (s @ 0 # ys) = s"
      using * by (subst takeWhile_append2) (auto simp: cstr_at_def)
    ultimately show ?thesis using False by (simp add: cprefix_def)
  qed
qed

section \<open>strcpy and strncpy\<close>

lemma strcpy_from_cstr:
  assumes s: "cstr_at m src s" and sep: "separate dest (Suc (length s)) src (Suc (length s))"
  shows "i \<le> length s \<Longrightarrow>
    strcpy_from (store_bytes m dest (take i s)) dest src (of_nat i) = Some (store_bytes m dest (s @ [0]))"
proof (induction "length s - i" arbitrary: i)
  case 0
  note len = cstr_at_length [OF s]
  from 0 have i: "i = length s" by simp
  have "store_bytes m dest s (src + of_nat (length s)) = 0"
    using cstr_at_end [OF s] store_bytes_other [of dest s src "Suc (length s)" "src + of_nat (length s)" m]
      sep len by (auto simp: in_region_offset separate_def)
  with i len show ?case
    by (subst strcpy_from.simps) (simp add: store_bytes_snoc)
next
  case (Suc d)
  note len = cstr_at_length [OF s]
  from Suc have i: "i < length s" by simp
  have "store_bytes m dest (take i s) (src + of_nat i) = m (src + of_nat i)"
    using store_bytes_other [of dest "take i s" src "Suc (length s)" "src + of_nat i" m] sep len i
    by (auto simp: in_region_offset separate_def)
  then have src: "store_bytes m dest (take i s) (src + of_nat i) = s ! i"
    using cstr_at_nth [OF s i] by simp
  have upd: "(store_bytes m dest (take i s))(dest + of_nat i := s ! i) = store_bytes m dest (take (Suc i) s)"
    using store_bytes_snoc [of "take i s" m dest "s ! i"] i len by (simp add: take_Suc_conv_app_nth)
  have "s ! i \<noteq> 0" using cstr_at_nth_nonzero [OF s i] cstr_at_nth [OF s i] by simp
  then have "strcpy_from (store_bytes m dest (take i s)) dest src (of_nat i) =
      strcpy_from (store_bytes m dest (take (Suc i) s)) dest src (of_nat (Suc i))"
    by (subst strcpy_from.simps) (simp add: src upd add.commute)
  also have "\<dots> = Some (store_bytes m dest (s @ [0]))"
    using Suc.hyps i by (intro Suc.hyps(1)) auto
  finally show ?case .
qed

lemma strcpy_cstr:
  assumes "cstr_at m src s" "separate dest (Suc (length s)) src (Suc (length s))"
  shows "strcpy m dest src = Some (store_bytes m dest (s @ [0]))"
  using strcpy_from_cstr [OF assms, of 0] by (simp add: strcpy_def)

lemma length_cprefix_le: "length (cprefix m a n) \<le> n"
  unfolding cprefix_def using length_takeWhile_le [of _ "bytes_at m a n"] by simp

lemma cprefix_nth:
  assumes "i < length (cprefix m a n)"
  shows "cprefix m a n ! i = m (a + of_nat i)" "m (a + of_nat i) \<noteq> 0"
proof -
  have i: "i < n" using assms length_cprefix_le [of m a n] by simp
  then show eq: "cprefix m a n ! i = m (a + of_nat i)"
    using assms by (simp add: cprefix_def takeWhile_nth)
  have "cprefix m a n ! i \<in> set (cprefix m a n)" using assms by simp
  then show "m (a + of_nat i) \<noteq> 0"
    unfolding eq by (auto simp: cprefix_def dest: set_takeWhileD)
qed

lemma cprefix_stop: "length (cprefix m a n) < n \<Longrightarrow> m (a + of_nat (length (cprefix m a n))) = 0"
  using nth_length_takeWhile [of "\<lambda>b. b \<noteq> 0" "bytes_at m a n"] by (simp add: cprefix_def)

lemma strncpy_copy_list:
  fixes n :: u32
  assumes sep: "separate dest (unat n) src (unat n)"
    and s: "s = cprefix m src (unat n)"
  shows "i \<le> length s \<Longrightarrow> strncpy_copy (store_bytes m dest (take i s)) dest src n (of_nat i) =
     (store_bytes m dest s, of_nat (length s))"
proof (induction "length s - i" arbitrary: i)
  case 0
  then have i: "i = length s" by simp
  have le: "length s \<le> unat n" unfolding s by (rule length_cprefix_le)
  have "store_bytes m dest s (src + of_nat (length s)) = 0" if "(of_nat (length s) :: u32) < n"
  proof -
    have lt: "length s < unat n"
      using that le unat_addr_lt [of n] by (auto simp: word_less_nat_alt unat_of_nat_addr)
    have "store_bytes m dest s (src + of_nat (length s)) = m (src + of_nat (length s))"
      using lt unat_addr_lt [of n] sep
      by (intro store_bytes_other [of _ _ src "unat n"]) (auto simp: in_region_offset separate_def)
    with cprefix_stop lt show ?thesis unfolding s by metis
  qed
  with i show ?case by (subst strncpy_copy.simps) auto
next
  case (Suc d)
  then have i: "i < length s" by simp
  then have lt: "i < unat n" using length_cprefix_le [of m src "unat n"] unfolding s by simp
  have "store_bytes m dest (take i s) (src + of_nat i) = m (src + of_nat i)"
    using lt unat_addr_lt [of n] sep i
    by (intro store_bytes_other [of _ _ src "unat n"]) (auto simp: in_region_offset separate_def)
  then have src: "store_bytes m dest (take i s) (src + of_nat i) = s ! i" "s ! i \<noteq> 0"
    using cprefix_nth [of i m src "unat n"] i unfolding s by simp_all
  have upd: "(store_bytes m dest (take i s))(dest + of_nat i := s ! i) = store_bytes m dest (take (Suc i) s)"
    using store_bytes_snoc [of "take i s" m dest "s ! i"] i lt unat_addr_lt [of n]
    by (simp add: take_Suc_conv_app_nth)
  have "strncpy_copy (store_bytes m dest (take i s)) dest src n (of_nat i) =
      strncpy_copy (store_bytes m dest (take (Suc i) s)) dest src n (of_nat (Suc i))"
    using src lt by (subst strncpy_copy.simps) (simp add: upd of_nat_index_less add.commute)
  also have "\<dots> = (store_bytes m dest s, of_nat (length s))"
    using Suc.hyps i by (intro Suc.hyps(1)) auto
  finally show ?case .
qed

lemma strncpy_pad_list:
  "length s \<le> unat n \<Longrightarrow> strncpy_pad (store_bytes m dest s) dest n (of_nat (length s)) =
     store_bytes m dest (s @ replicate (unat n - length s) 0)"
proof (induction "unat n - length s" arbitrary: s)
  case 0
  then have "of_nat (length s) = n" by (intro of_nat_eq_wordI) simp
  with 0 show ?case by (subst strncpy_pad.simps) simp
next
  case (Suc d)
  then have lt: "length s < unat n" by simp
  have "strncpy_pad (store_bytes m dest s) dest n (of_nat (length s)) =
      strncpy_pad (store_bytes m dest (s @ [0])) dest n (of_nat (length (s @ [0])))"
    using lt unat_addr_lt [of n]
    by (subst strncpy_pad.simps) (simp add: of_nat_index_less store_bytes_snoc add.commute)
  also have "\<dots> = store_bytes m dest ((s @ [0]) @ replicate (unat n - length (s @ [0])) 0)"
    using Suc.hyps lt by (intro Suc.hyps(1)) auto
  also have "(s @ [0]) @ replicate (unat n - length (s @ [0])) 0 = s @ replicate (unat n - length s) 0"
    using lt by (simp add: replicate_append_same Suc_diff_Suc flip: replicate_Suc)
  finally show ?case .
qed

lemma strncpy_list:
  assumes "separate dest (unat n) src (unat n)" "s = cprefix m src (unat n)"
  shows "strncpy m dest src n = store_bytes m dest (s @ replicate (unat n - length s) 0)"
  using strncpy_copy_list [OF assms, of 0] strncpy_pad_list [of s n m dest]
    length_cprefix_le [of m src "unat n"] assms(2)
  by (simp add: strncpy_def)

section \<open>strrev\<close>

lemma strrev_swap_at:
  "0 \<le> beg \<Longrightarrow> end1 < 2147483648 \<Longrightarrow> strrev_swap m s beg end1 x =
     (let k = uint (x - s) in
      if beg \<le> k \<and> k \<le> end1 then m (s + of_int (beg + end1 - k)) else m x)"
proof (induction m s beg end1 rule: strrev_swap.induct)
  case (1 m s beg end1)
  define k where "k = uint (x - s)"
  show ?case
  proof (cases "beg < end1")
    case False
    then have "strrev_swap m s beg end1 = m" by (subst strrev_swap.simps) simp
    moreover have "m (s + of_int (beg + end1 - k)) = m x" if "beg \<le> k" "k \<le> end1"
    proof -
      have "beg + end1 - k = k" using that False by simp
      moreover have "x = s + of_int k" using 1(2,3) that of_int_offset [of k x s] k_def by simp
      ultimately show ?thesis by simp
    qed
    ultimately show ?thesis by (auto simp: k_def [symmetric] Let_def)
  next
    case True
    define m2 where "m2 = (m(s + of_int end1 := m (s + of_int beg)))(s + of_int beg := m (s + of_int end1))"
    have at: "m2 (s + of_int j) =
        (if j = beg then m (s + of_int end1) else if j = end1 then m (s + of_int beg) else m (s + of_int j))"
      if "0 \<le> j" "j < 4294967296" for j
    proof -
      have "(s + of_int j = s + of_int i) = (j = i)" if "i \<in> {beg, end1}" for i :: int
        using of_int_offset [of i "s + of_int j" s] of_int_offset [of j "s + of_int j" s]
          1(2,3) True that \<open>0 \<le> j\<close> \<open>j < 4294967296\<close> by auto
      then show ?thesis by (simp add: m2_def)
    qed
    have k: "0 \<le> k" "k < 4294967296"
      using unsigned_less [of "x - s", where ?'a = int] by (simp_all add: k_def)
    then have x: "x = s + of_int k" using of_int_offset [of k x s] by (simp add: k_def)
    have "strrev_swap m s beg end1 x = strrev_swap m2 s (beg + 1) (end1 - 1) x"
      using True by (subst strrev_swap.simps) (simp add: m2_def Let_def)
    also have "\<dots> = (if beg + 1 \<le> k \<and> k \<le> end1 - 1 then m2 (s + of_int (beg + 1 + (end1 - 1) - k)) else m2 x)"
    proof -
      have "0 \<le> beg + 1" "end1 - 1 < 2147483648" using 1(2,3) by simp_all
      from 1(1) [OF True refl refl refl this] show ?thesis unfolding m2_def k_def Let_def .
    qed
    also have "beg + 1 + (end1 - 1) - k = beg + end1 - k" by simp
    also have "(if beg + 1 \<le> k \<and> k \<le> end1 - 1 then m2 (s + of_int (beg + end1 - k)) else m2 x)
        = (if beg \<le> k \<and> k \<le> end1 then m (s + of_int (beg + end1 - k)) else m x)"
    proof -
      consider "beg + 1 \<le> k \<and> k \<le> end1 - 1" | "k = beg" | "k = end1" | "k < beg \<or> end1 < k"
        by linarith
      then show ?thesis
      proof cases
        case 1
        then show ?thesis
          using at [of "beg + end1 - k"] \<open>0 \<le> beg\<close> \<open>end1 < 2147483648\<close> by (simp del: of_int_add of_int_diff)
      next
        case 2
        then show ?thesis using at [of k] k True unfolding x by (simp del: of_int_add of_int_diff)
      next
        case 3
        then show ?thesis using at [of k] k True unfolding x by (simp del: of_int_add of_int_diff)
      next
        case 4
        then show ?thesis using at [of k] k True unfolding x by (auto simp del: of_int_add of_int_diff)
      qed
    qed
    finally show ?thesis by (simp only: k_def Let_def)
  qed
qed

lemma strrev_cstr:
  assumes s: "cstr_at m a s" and len: "length s < 2147483648"
  shows "strrev m a = Some (store_bytes m a (rev s))"
proof -
  define e where "e = sint (of_nat (length s) - 1 :: u32)"
  have e: "e = int (length s) - 1"
  proof (cases "length s = 0")
    case True
    then show ?thesis by (simp add: e_def)
  next
    case False
    then have "of_nat (length s) - 1 = (of_nat (length s - 1) :: u32)"
      by (simp add: of_nat_diff Suc_leI)
    then show ?thesis using len False
      by (simp only: e_def sint_of_nat_u32)
  qed
  have "strrev_swap m a 0 e x = store_bytes m a (rev s) x" for x
  proof -
    define k where "k = unat (x - a)"
    have "uint (x - a) = int k" by (simp add: k_def)
    then have "strrev_swap m a 0 e x = (if int k \<le> e then m (a + of_int (e - int k)) else m x)"
      using strrev_swap_at [of 0 e m a x] e len by (simp only: Let_def) simp
    also have "\<dots> = (if k < length s then m (a + of_nat (length s - Suc k)) else m x)"
      by (auto simp: e of_nat_diff algebra_simps)
    also have "\<dots> = store_bytes m a (rev s) x"
      using cstr_at_nth [OF s, of "length s - Suc k"]
      by (auto simp: store_bytes_def in_region_def k_def rev_nth)
    finally show ?thesis .
  qed
  then show ?thesis by (simp add: strrev_def strlen_cstr [OF s] e_def [symmetric] fun_eq_iff)
qed

section \<open>itoa\<close>

text \<open>Reference: the digits of a number, least significant first, and the text \<open>itoa\<close> prints.\<close>

fun digits :: "nat \<Rightarrow> nat \<Rightarrow> nat list" where
  "digits r n = (if n = 0 \<or> r < 2 then [] else (n mod r) # digits r (n div r))"

declare digits.simps [simp del]

definition digit_char :: "nat \<Rightarrow> byte" where
  "digit_char d = (if d < 10 then of_nat (48 + d) else of_nat (55 + d))"

definition itoa_text :: "nat \<Rightarrow> nat \<Rightarrow> byte list" where
  "itoa_text r n = (if n = 0 then [48] else rev (map digit_char (digits r n)))"

text \<open>Reading the text back: \<open>0\<close> to \<open>9\<close> and \<open>A\<close> to \<open>Z\<close> in base \<open>r\<close>, leftmost digit first.\<close>

definition char_digit :: "byte \<Rightarrow> nat" where
  "char_digit b = (if b < 58 then unat b - 48 else unat b - 55)"

definition parse_radix :: "nat \<Rightarrow> byte list \<Rightarrow> nat" where
  "parse_radix r bs = foldl (\<lambda>acc b. acc * r + char_digit b) 0 bs"

lemma itoa_lookup_nth: "d < 36 \<Longrightarrow> itoa_lookup ! d = digit_char d"
proof -
  have "\<forall>d \<in> set [0..<36]. itoa_lookup ! d = digit_char d"
    by code_simp
  then show "d < 36 \<Longrightarrow> itoa_lookup ! d = digit_char d" by simp
qed

lemma char_digit_char: "d < 36 \<Longrightarrow> char_digit (digit_char d) = d"
proof -
  have "\<forall>d \<in> set [0..<36]. char_digit (digit_char d) = d"
    by code_simp
  then show "d < 36 \<Longrightarrow> char_digit (digit_char d) = d" by simp
qed

lemma digit_char_nonzero: "d < 36 \<Longrightarrow> digit_char d \<noteq> 0"
proof -
  have "\<forall>d \<in> set [0..<36]. digit_char d \<noteq> 0"
    by code_simp
  then show "d < 36 \<Longrightarrow> digit_char d \<noteq> 0" by simp
qed

lemma digits_less: "d \<in> set (digits r n) \<Longrightarrow> d < r"
  by (induction r n rule: digits.induct) (subst (asm) digits.simps, auto split: if_splits)

lemma digits_value: "2 \<le> r \<Longrightarrow> foldr (\<lambda>d acc. acc * r + d) (digits r n) 0 = n"
proof (induction r n rule: digits.induct)
  case (1 r n)
  then show ?case by (cases "n = 0") (simp_all add: digits.simps [of r n] digits.simps [of r 0])
qed

lemma length_digits_power: "2 \<le> r \<Longrightarrow> n < r ^ k \<Longrightarrow> length (digits r n) \<le> k"
proof (induction k arbitrary: n)
  case 0
  then show ?case by (simp add: digits.simps)
next
  case (Suc k)
  then have "n div r < r ^ k" by (simp add: less_mult_imp_div_less mult.commute)
  with Suc show ?case by (subst digits.simps) simp
qed

lemma parse_itoa_text: "2 \<le> r \<Longrightarrow> r \<le> 36 \<Longrightarrow> parse_radix r (itoa_text r n) = n"
proof -
  assume r: "2 \<le> r" "r \<le> 36"
  have "foldr (\<lambda>b acc. acc * r + char_digit b) (map digit_char ds) a = foldr (\<lambda>d acc. acc * r + d) ds a"
    if "\<forall>d \<in> set ds. d < r" for ds a
    using that r by (induction ds) (auto simp: char_digit_char)
  moreover have "\<forall>d \<in> set (digits r n). d < r" using digits_less by blast
  ultimately show ?thesis
    using digits_value [OF r(1), of n]
    by (auto simp: parse_radix_def itoa_text_def foldl_conv_foldr char_digit_def)
qed

lemma itoa_digits_list:
  assumes "2 \<le> unat r" "unat r \<le> 36"
  shows "length bs + length (digits (unat r) (unat v)) < 4294967296 \<Longrightarrow>
    itoa_digits (store_bytes m buf bs) (buf + of_nat (length bs)) v r =
      Some (store_bytes m buf (bs @ map digit_char (digits (unat r) (unat v))),
            buf + of_nat (length bs + length (digits (unat r) (unat v))))"
proof (induction "unat r" "unat v" arbitrary: v bs rule: digits.induct)
  case (1 v bs)
  show ?case
  proof (cases "v = 0")
    case True
    then show ?thesis by (subst itoa_digits.simps) (simp add: digits.simps)
  next
    case False
    define d where "d = unat v mod unat r"
    have ds: "digits (unat r) (unat v) = d # digits (unat r) (unat (v div r))"
      using False assms by (subst digits.simps) (auto simp: d_def unat_div unat_0_iff)
    have d: "d < 36" using assms by (simp add: d_def less_le_trans [OF mod_less_divisor])
    have mod: "unat (v mod r) = d" by (simp add: d_def unat_mod)
    then have "\<not> 36 < v mod r" using d by (simp add: word_less_nat_alt)
    moreover have "r \<noteq> 0" using assms by auto
    ultimately have "itoa_digits (store_bytes m buf bs) (buf + of_nat (length bs)) v r =
        itoa_digits (store_bytes m buf (bs @ [digit_char d])) (buf + of_nat (length (bs @ [digit_char d]))) (v div r) r"
      using False 1(2) d ds
      by (subst itoa_digits.simps)
        (simp add: word_greater_zero_iff mod itoa_lookup_nth store_bytes_snoc add.assoc add.commute [of 1])
    also have "\<dots> = Some (store_bytes m buf ((bs @ [digit_char d]) @ map digit_char (digits (unat r) (unat (v div r)))),
        buf + of_nat (length (bs @ [digit_char d]) + length (digits (unat r) (unat (v div r)))))"
      using 1(2) ds assms False by (intro 1(1)) (auto simp: unat_div unat_0_iff)
    finally show ?thesis by (simp add: ds)
  qed
qed

lemma map_digit_char_nonzero:
  assumes "r \<le> 36"
  shows "0 \<notin> set (map digit_char (digits r n))"
proof
  assume "0 \<in> set (map digit_char (digits r n))"
  then obtain d where d: "d \<in> set (digits r n)" "digit_char d = 0" by auto
  then have "d < 36" using digits_less [of d r n] assms by simp
  with d(2) digit_char_nonzero show False by blast
qed

lemma set_itoa_text: "r \<le> 36 \<Longrightarrow> 0 \<notin> set (itoa_text r n)"
  using map_digit_char_nonzero [of r n] by (auto simp: itoa_text_def)

lemma length_itoa_text: "2 \<le> r \<Longrightarrow> n < r ^ k \<Longrightarrow> 0 < k \<Longrightarrow> length (itoa_text r n) \<le> k"
  using length_digits_power [of r n k] by (simp add: itoa_text_def)

lemma itoa_text_eq:
  assumes "2 \<le> unat r" "unat r \<le> 36"
  shows "itoa m v buf r = Some (store_bytes m buf (itoa_text (unat r) (unat v) @ [0]))"
proof (cases "v = 0")
  case True
  have "(m(buf := 48))(buf + 1 := 0) = store_bytes m buf ([48] @ [0])"
    using store_bytes_snoc [of "[]" m buf 48] store_bytes_snoc [of "[48]" m buf 0] by simp
  with True show ?thesis by (simp add: itoa_def itoa_text_def)
next
  case False
  define ds where "ds = map digit_char (digits (unat r) (unat v))"
  have "unat v < 2 ^ 32" using unat_addr_lt [of v] by simp
  also have "\<dots> \<le> unat r ^ 32" using assms(1) by (intro power_mono) auto
  finally have len: "length ds \<le> 32"
    unfolding ds_def using length_digits_power [OF assms(1)] by simp
  have digs: "itoa_digits m buf v r = Some (store_bytes m buf ds, buf + of_nat (length ds))"
    using itoa_digits_list [OF assms, of "[]" v m buf] len by (simp add: ds_def)
  have nz: "0 \<notin> set ds"
    unfolding ds_def using assms(2) by (rule map_digit_char_nonzero)
  have store: "(store_bytes m buf ds)(buf + of_nat (length ds) := 0) = store_bytes m buf (ds @ [0])"
    using len by (intro store_bytes_snoc) simp
  have "strrev (store_bytes m buf (ds @ [0])) buf = Some (store_bytes (store_bytes m buf (ds @ [0])) buf (rev ds))"
    using cstr_at_store_bytes [of ds m buf] len nz by (intro strrev_cstr) auto
  also have "store_bytes (store_bytes m buf (ds @ [0])) buf (rev ds) = store_bytes m buf (rev ds @ [0])"
    by (auto simp: store_bytes_def in_region_def fun_eq_iff nth_append)
  finally show ?thesis
    using False by (simp add: itoa_def digs store itoa_text_def unat_0_iff) (simp add: ds_def)
qed

section \<open>Properties\<close>

text \<open>
  C29. \<open>strlen\<close> returns exactly when a zero byte follows the start of the string, and then returns
  the number of bytes before the first one.
\<close>

theorem strlen_returns_iff:
  "strlen m a = Some n \<longleftrightarrow> (\<exists>s. cstr_at m a s \<and> n = of_nat (length s))"
  by (rule strlen_Some_iff)

text \<open>
  \<open>strncmp\<close> returns zero exactly when the two strings agree up to their first zero byte or
  up to the \<open>n\<close>th byte, whichever comes first.
\<close>

theorem strncmp_zero_iff_equal:
  "strncmp m s1 s2 n = 0 \<longleftrightarrow>
     takeWhile (\<lambda>b. b \<noteq> 0) (bytes_at m s1 (unat n)) = takeWhile (\<lambda>b. b \<noteq> 0) (bytes_at m s2 (unat n))"
  using strncmp_0_iff [of m s1 s2 n] by (simp add: cprefix_def)

text \<open>
  C27. For every radix from 2 to 36 \<open>itoa\<close> returns, writes nothing beyond the text and its terminating
  zero, and the text it leaves in the buffer denotes the number it was given.
\<close>

theorem itoa_round_trip:
  assumes "2 \<le> radix" "radix \<le> 36"
  shows "\<exists>text. itoa m v buf radix = Some (store_bytes m buf (text @ [0])) \<and>
     cstr_at (store_bytes m buf (text @ [0])) buf text \<and> length text \<le> 32 \<and>
     parse_radix (unat radix) text = unat v"
proof -
  have r: "2 \<le> unat radix" "unat radix \<le> 36" using assms by (simp_all add: word_le_nat_alt)
  let ?t = "itoa_text (unat radix) (unat v)"
  have "unat v < 2 ^ 32" using unat_addr_lt [of v] by simp
  also have "\<dots> \<le> unat radix ^ 32" using r(1) by (intro power_mono) auto
  finally have "length ?t \<le> 32" using r(1) by (intro length_itoa_text) auto
  moreover from this have "cstr_at (store_bytes m buf (?t @ [0])) buf ?t"
    using set_itoa_text [OF r(2)] by (intro cstr_at_store_bytes) auto
  ultimately show ?thesis using itoa_text_eq [OF r] parse_itoa_text [OF r] by blast
qed

theorem itoa_round_trip_witness:
  "\<exists>text. itoa (\<lambda>_. 0) 255 0x1000 16 = Some (store_bytes (\<lambda>_. 0) 0x1000 (text @ [0])) \<and>
     cstr_at (store_bytes (\<lambda>_. 0) 0x1000 (text @ [0])) 0x1000 text \<and> length text \<le> 32 \<and>
     parse_radix (unat (16 :: u32)) text = unat (255 :: u32)"
  by (rule itoa_round_trip) simp_all

text \<open>
  \<open>strrev\<close> reverses a string of less than \<open>2 ^ 31\<close> bytes in place: the bytes of the string come
  out in reverse order, the terminating zero stays and no other byte changes.
\<close>

theorem strrev_reverses:
  assumes "cstr_at m a s" "length s < 2 ^ 31"
  shows "\<exists>m'. strrev m a = Some m' \<and> cstr_at m' a (rev s) \<and> (\<forall>x. \<not> in_region a (length s) x \<longrightarrow> m' x = m x)"
proof (intro exI conjI)
  have len: "length s < 2147483648" using assms(2) by simp
  show "strrev m a = Some (store_bytes m a (rev s))" using assms(1) len by (rule strrev_cstr)
  show "\<forall>x. \<not> in_region a (length s) x \<longrightarrow> store_bytes m a (rev s) x = m x" by (simp add: store_bytes_out)
  have "bytes_at (store_bytes m a (rev s)) a (length s) = rev s"
    using bytes_at_store_bytes [of "rev s" m a] len by simp
  moreover have "store_bytes m a (rev s) (a + of_nat (length s)) = 0"
    using assms(1) len by (simp add: store_bytes_out in_region_offset cstr_at_end)
  moreover have "0 \<notin> set s" using assms(1) by (simp add: cstr_at_def)
  ultimately show "cstr_at (store_bytes m a (rev s)) a (rev s)" by (simp add: cstr_at_def)
qed

theorem strrev_reverses_witness:
  "\<exists>m'. strrev (store_bytes (\<lambda>_. 0) 0x1000 [97, 98, 99]) 0x1000 = Some m' \<and> cstr_at m' 0x1000 [99, 98, 97]"
proof -
  have "cstr_at (store_bytes (\<lambda>_. 0) 0x1000 [97, 98, 99]) 0x1000 [97, 98, 99]" by code_simp
  from strrev_reverses [OF this] show ?thesis by auto
qed

end
