(* ===== verification/Lib_Mem.thy ===== *)
theory Lib_Mem
  imports Prelude
begin

text \<open>
  The block memory routines of \<^verbatim>\<open>student-distrib/lib.c\<close>, written there in inline assembly:
  \<open>memset\<close>, \<open>memset_word\<close>, \<open>memset_dword\<close>, \<open>memcpy\<close> and \<open>memmove\<close>. Each label of
  the assembly is one function over the registers it uses, and the string instructions with a
  repeat prefix are loops over \<open>ecx\<close>.
\<close>

section \<open>Definitions\<close>

text \<open>\<open>rep stosl\<close>, \<open>rep stosw\<close>, \<open>rep movsl\<close> and \<open>rep movsb\<close> with the direction flag clear or set.\<close>

function rep_stosl :: "memory \<Rightarrow> u32 \<Rightarrow> addr \<Rightarrow> u32 \<Rightarrow> memory \<times> addr" where
  "rep_stosl m eax edi ecx =
     (if ecx = 0 then (m, edi) else rep_stosl (store32 m edi eax) eax (edi + 4) (ecx - 1))"
  by pat_completeness auto
termination
  by (relation "measure (\<lambda>(m, eax, edi, ecx). unat ecx)") (auto simp: dec_measure)

function rep_stosw :: "memory \<Rightarrow> u32 \<Rightarrow> addr \<Rightarrow> u32 \<Rightarrow> memory" where
  "rep_stosw m eax edi ecx =
     (if ecx = 0 then m
      else rep_stosw ((m(edi := ucast eax))(edi + 1 := ucast (drop_bit 8 eax))) eax (edi + 2) (ecx - 1))"
  by pat_completeness auto
termination
  by (relation "measure (\<lambda>(m, eax, edi, ecx). unat ecx)") (auto simp: dec_measure)

function rep_movsl :: "memory \<Rightarrow> addr \<Rightarrow> addr \<Rightarrow> u32 \<Rightarrow> memory \<times> addr \<times> addr" where
  "rep_movsl m edi esi ecx =
     (if ecx = 0 then (m, edi, esi)
      else rep_movsl (store32 m edi (load32 m esi)) (edi + 4) (esi + 4) (ecx - 1))"
  by pat_completeness auto
termination
  by (relation "measure (\<lambda>(m, edi, esi, ecx). unat ecx)") (auto simp: dec_measure)

function rep_movsb :: "memory \<Rightarrow> bool \<Rightarrow> addr \<Rightarrow> addr \<Rightarrow> u32 \<Rightarrow> memory" where
  "rep_movsb m df edi esi ecx =
     (if ecx = 0 then m
      else if df then rep_movsb (m(edi := m esi)) df (edi - 1) (esi - 1) (ecx - 1)
      else rep_movsb (m(edi := m esi)) df (edi + 1) (esi + 1) (ecx - 1))"
  by pat_completeness auto
termination
  by (relation "measure (\<lambda>(m, df, edi, esi, ecx). unat ecx)") (auto simp: dec_measure)

text \<open>The labels of \<open>memset\<close>: \<open>.memset_bottom\<close>, \<open>.memset_aligned\<close> and \<open>.memset_top\<close>.\<close>

function memset_bottom :: "memory \<Rightarrow> u32 \<Rightarrow> addr \<Rightarrow> u32 \<Rightarrow> memory" where
  "memset_bottom m eax edi edx =
     (if edx = 0 then m else memset_bottom (m(edi := ucast eax)) eax (edi + 1) (edx - 1))"
  by pat_completeness auto
termination
  by (relation "measure (\<lambda>(m, eax, edi, edx). unat edx)") (auto simp: dec_measure)

definition memset_aligned :: "memory \<Rightarrow> u32 \<Rightarrow> addr \<Rightarrow> u32 \<Rightarrow> memory" where
  "memset_aligned m eax edi ecx =
     (case rep_stosl m eax edi (drop_bit 2 ecx) of
        (m', edi') \<Rightarrow> memset_bottom m' eax edi' (ecx AND 3))"

function memset_top :: "memory \<Rightarrow> u32 \<Rightarrow> addr \<Rightarrow> u32 \<Rightarrow> memory" where
  "memset_top m eax edi ecx =
     (if ecx = 0 then m
      else if edi AND 3 = 0 then memset_aligned m eax edi ecx
      else memset_top (m(edi := ucast eax)) eax (edi + 1) (ecx - 1))"
  by pat_completeness auto
termination
  by (relation "measure (\<lambda>(m, eax, edi, ecx). unat ecx)") (auto simp: dec_measure)

definition memset :: "memory \<Rightarrow> addr \<Rightarrow> u32 \<Rightarrow> u32 \<Rightarrow> memory" where
  "memset m s c n =
     (let c' = c AND 0xFF
      in memset_top m (push_bit 24 c' OR push_bit 16 c' OR push_bit 8 c' OR c') s n)"

definition memset_word :: "memory \<Rightarrow> addr \<Rightarrow> u32 \<Rightarrow> u32 \<Rightarrow> memory" where
  "memset_word m s c n = rep_stosw m c s n"

definition memset_dword :: "memory \<Rightarrow> addr \<Rightarrow> u32 \<Rightarrow> u32 \<Rightarrow> memory" where
  "memset_dword m s c n = fst (rep_stosl m c s n)"

function memcpy_bottom :: "memory \<Rightarrow> addr \<Rightarrow> addr \<Rightarrow> u32 \<Rightarrow> memory" where
  "memcpy_bottom m edi esi edx =
     (if edx = 0 then m else memcpy_bottom (m(edi := m esi)) (edi + 1) (esi + 1) (edx - 1))"
  by pat_completeness auto
termination
  by (relation "measure (\<lambda>(m, edi, esi, edx). unat edx)") (auto simp: dec_measure)

definition memcpy_aligned :: "memory \<Rightarrow> addr \<Rightarrow> addr \<Rightarrow> u32 \<Rightarrow> memory" where
  "memcpy_aligned m edi esi ecx =
     (case rep_movsl m edi esi (drop_bit 2 ecx) of
        (m', edi', esi') \<Rightarrow> memcpy_bottom m' edi' esi' (ecx AND 3))"

function memcpy_top :: "memory \<Rightarrow> addr \<Rightarrow> addr \<Rightarrow> u32 \<Rightarrow> memory" where
  "memcpy_top m edi esi ecx =
     (if ecx = 0 then m
      else if edi AND 3 = 0 then memcpy_aligned m edi esi ecx
      else memcpy_top (m(edi := m esi)) (edi + 1) (esi + 1) (ecx - 1))"
  by pat_completeness auto
termination
  by (relation "measure (\<lambda>(m, edi, esi, ecx). unat ecx)") (auto simp: dec_measure)

definition memcpy :: "memory \<Rightarrow> addr \<Rightarrow> addr \<Rightarrow> u32 \<Rightarrow> memory" where
  "memcpy m dest src n = memcpy_top m dest src n"

text \<open>
  \<open>memmove\<close> also returns the direction flag it leaves behind: \<open>cld\<close> at the start, \<open>std\<close>
  on the backward path, and nothing that clears it again.
\<close>

definition memmove :: "memory \<Rightarrow> addr \<Rightarrow> addr \<Rightarrow> u32 \<Rightarrow> memory \<times> bool" where
  "memmove m dest src n =
     (if dest \<le> src then (rep_movsb m False dest src n, False)
      else (rep_movsb m True (dest + n - 1) (src + n - 1) n, True))"

declare rep_stosl.simps [simp del] rep_stosw.simps [simp del] rep_movsl.simps [simp del]
  rep_movsb.simps [simp del] memset_bottom.simps [simp del] memset_top.simps [simp del]
  memcpy_bottom.simps [simp del] memcpy_top.simps [simp del]

section \<open>memset is a fill\<close>

lemma unat_and_3: "unat ((n :: u32) AND 3) = unat n mod 4"
proof -
  have "n AND 3 = take_bit 2 n" by (simp add: take_bit_eq_mask mask_eq_exp_minus_1)
  then show ?thesis by (simp add: take_bit_eq_mod unat_mod)
qed

lemma unat_drop_2: "unat (drop_bit 2 (n :: u32)) = unat n div 4"
  by (simp add: drop_bit_eq_div unat_div)

lemma store_byte_run:
  assumes "k < 4294967296"
  shows "store_bytes (m(a := b)) (a + 1) (replicate k b) = store_bytes m a (replicate (Suc k) b)"
  using store_bytes_append [of "[b]" "replicate k b" m a] store_bytes_snoc [of "[]" m a b] assms by simp

lemma memset_bottom_fill: "memset_bottom m eax edi edx = store_bytes m edi (replicate (unat edx) (ucast eax))"
proof (induction m eax edi edx rule: memset_bottom.induct)
  case (1 m eax edi edx)
  show ?case
  proof (cases "edx = 0")
    case False
    then have "memset_bottom m eax edi edx = memset_bottom (m(edi := ucast eax)) eax (edi + 1) (edx - 1)"
      by (subst memset_bottom.simps) simp
    also have "\<dots> = store_bytes (m(edi := ucast eax)) (edi + 1) (replicate (unat (edx - 1)) (ucast eax))"
      using 1 False by (simp add: fun_upd_def)
    also have "\<dots> = store_bytes m edi (replicate (Suc (unat (edx - 1))) (ucast eax))"
      using unat_addr_lt by (rule store_byte_run)
    finally show ?thesis using unat_pred [OF False] by simp
  qed (simp add: memset_bottom.simps)
qed

lemma rep_stosl_fill:
  "4 * unat ecx < 4294967296 \<Longrightarrow> rep_stosl m eax edi ecx =
     (store_bytes m edi (concat (replicate (unat ecx) (bytes32 eax))), edi + of_nat (4 * unat ecx))"
proof (induction m eax edi ecx rule: rep_stosl.induct)
  case (1 m eax edi ecx)
  show ?case
  proof (cases "ecx = 0")
    case False
    note n = unat_pred [OF False]
    have len: "length (concat (replicate k (bytes32 eax))) = 4 * k" for k
      by (induction k) auto
    have "rep_stosl m eax edi ecx = rep_stosl (store32 m edi eax) eax (edi + 4) (ecx - 1)"
      using False by (subst rep_stosl.simps) simp
    also have "\<dots> = (store_bytes (store32 m edi eax) (edi + 4) (concat (replicate (unat (ecx - 1)) (bytes32 eax))),
        edi + 4 + of_nat (4 * unat (ecx - 1)))"
      using 1 False n by simp
    also have "\<dots> = (store_bytes m edi (concat (replicate (unat ecx) (bytes32 eax))), edi + of_nat (4 * unat ecx))"
      using store_bytes_append [of "bytes32 eax" "concat (replicate (unat (ecx - 1)) (bytes32 eax))" m edi]
        1(2) n len by (simp add: store32_def)
    finally show ?thesis .
  qed (simp add: rep_stosl.simps)
qed

lemma concat_replicate_4:
  "concat (replicate k (replicate 4 b)) = replicate (4 * k) b"
  by (induction k) (auto simp: replicate_add [symmetric])

lemma memset_top_fill:
  assumes "bytes32 eax = replicate 4 b"
  shows "memset_top m eax edi ecx = store_bytes m edi (replicate (unat ecx) b)"
proof (induction "unat ecx" arbitrary: m edi ecx)
  case 0
  then show ?case by (subst memset_top.simps) (simp add: unat_0_iff)
next
  case (Suc k)
  have b: "ucast eax = b" using assms by (simp add: bytes32_def numeral_eq_Suc)
  from Suc.hyps have nz: "ecx \<noteq> 0" by auto
  show ?case
  proof (cases "edi AND 3 = 0")
    case True
    define q where "q = unat ecx div 4"
    have n: "unat ecx = 4 * q + unat (ecx AND 3)" by (simp add: q_def unat_and_3)
    have "rep_stosl m eax edi (drop_bit 2 ecx) = (store_bytes m edi (replicate (4 * q) b), edi + of_nat (4 * q))"
      using rep_stosl_fill [of "drop_bit 2 ecx" m eax edi] unat_addr_lt [of ecx] assms
      by (simp add: unat_drop_2 q_def concat_replicate_4)
    then have "memset_aligned m eax edi ecx =
        store_bytes (store_bytes m edi (replicate (4 * q) b)) (edi + of_nat (4 * q)) (replicate (unat (ecx AND 3)) b)"
      by (simp add: memset_aligned_def memset_bottom_fill b)
    also have "\<dots> = store_bytes m edi (replicate (4 * q) b @ replicate (unat (ecx AND 3)) b)"
      using store_bytes_append [of "replicate (4 * q) b" "replicate (unat (ecx AND 3)) b" m edi]
        n unat_addr_lt [of ecx] by simp
    also have "\<dots> = store_bytes m edi (replicate (unat ecx) b)"
      using n by (simp add: replicate_add [symmetric])
    finally show ?thesis using True nz by (subst memset_top.simps) simp
  next
    case False
    have "memset_top m eax edi ecx = memset_top (m(edi := b)) eax (edi + 1) (ecx - 1)"
      using False nz b by (subst memset_top.simps) simp
    also have "\<dots> = store_bytes (m(edi := b)) (edi + 1) (replicate (unat (ecx - 1)) b)"
      using Suc.hyps unat_pred [OF nz] by (intro Suc.hyps(1)) simp
    also have "\<dots> = store_bytes m edi (replicate (Suc (unat (ecx - 1))) b)"
      using unat_addr_lt by (rule store_byte_run)
    finally show ?thesis using unat_pred [OF nz] by simp
  qed
qed

lemma memset_fill: "memset m s c n = store_bytes m s (replicate (unat n) (ucast c))"
proof -
  let ?c = "c AND 0xFF"
  have "bytes32 (push_bit 24 ?c OR push_bit 16 ?c OR push_bit 8 ?c OR ?c) = replicate 4 (ucast c)"
  proof -
    let ?w = "push_bit 24 ?c OR push_bit 16 ?c OR push_bit 8 ?c OR ?c"
    have mask: "?c = take_bit 8 c" by (simp add: take_bit_eq_mask mask_eq_exp_minus_1)
    have "(ucast ?w :: byte) = ucast c" "(ucast (drop_bit 8 ?w) :: byte) = ucast c"
      "(ucast (drop_bit 16 ?w) :: byte) = ucast c" "(ucast (drop_bit 24 ?w) :: byte) = ucast c"
      unfolding mask by (rule bit_word_eqI, auto simp: bit_simps)+
    then show ?thesis by (simp add: bytes32_def numeral_eq_Suc)
  qed
  then show ?thesis by (simp add: memset_def memset_top_fill Let_def)
qed

section \<open>memset_word and memset_dword\<close>

lemma memset_dword_fill:
  "4 * unat n < 4294967296 \<Longrightarrow> memset_dword m s c n = store_bytes m s (concat (replicate (unat n) (bytes32 c)))"
  by (simp add: memset_dword_def rep_stosl_fill)

lemma rep_stosw_fill:
  "2 * unat ecx < 4294967296 \<Longrightarrow> rep_stosw m eax edi ecx =
     store_bytes m edi (concat (replicate (unat ecx) [ucast eax, ucast (drop_bit 8 eax)]))"
proof (induction m eax edi ecx rule: rep_stosw.induct)
  case (1 m eax edi ecx)
  show ?case
  proof (cases "ecx = 0")
    case False
    let ?w = "[ucast eax, ucast (drop_bit 8 eax)] :: byte list"
    note n = unat_pred [OF False]
    have len: "length (concat (replicate k ?w)) = 2 * k" for k
      by (induction k) auto
    have w: "(m(edi := ucast eax))(edi + 1 := ucast (drop_bit 8 eax)) = store_bytes m edi ?w"
      using store_bytes_snoc [of "[]" m edi "ucast eax"]
        store_bytes_snoc [of "[ucast eax]" m edi "ucast (drop_bit 8 eax)"] by simp
    have "rep_stosw m eax edi ecx = rep_stosw (store_bytes m edi ?w) eax (edi + 2) (ecx - 1)"
      using False w by (subst rep_stosw.simps) simp
    also have "\<dots> = store_bytes (store_bytes m edi ?w) (edi + 2) (concat (replicate (unat (ecx - 1)) ?w))"
      using 1 False n w by (simp add: fun_upd_def)
    also have "\<dots> = store_bytes m edi (concat (replicate (unat ecx) ?w))"
      using store_bytes_append [of ?w "concat (replicate (unat (ecx - 1)) ?w)" m edi] 1(2) n len by simp
    finally show ?thesis .
  qed (simp add: rep_stosw.simps)
qed

lemma memset_word_fill:
  "2 * unat n < 4294967296 \<Longrightarrow> memset_word m s c n =
     store_bytes m s (concat (replicate (unat n) [ucast c, ucast (drop_bit 8 c)]))"
  by (simp add: memset_word_def rep_stosw_fill)

section \<open>memcpy is a block copy\<close>

text \<open>
  The state of a copy of \<open>n\<close> bytes from \<open>src\<close> to \<open>dest\<close> after \<open>k\<close> bytes. Every loop of
  \<open>memcpy\<close> moves along these states.
\<close>

definition copied :: "memory \<Rightarrow> addr \<Rightarrow> addr \<Rightarrow> nat \<Rightarrow> memory" where
  "copied m dest src k = store_bytes m dest (bytes_at m src k)"

lemma copied_0 [simp]: "copied m dest src 0 = m"
  by (simp add: copied_def)

lemma copied_read:
  assumes "separate dest n src n" "k + j \<le> n" "n \<le> 4294967296"
  shows "bytes_at (copied m dest src k) (src + of_nat k) j = bytes_at m (src + of_nat k) j"
proof -
  have "separate (dest + of_nat 0) k (src + of_nat k) j"
    using assms by (intro separate_sub [of _ n _ n]) auto
  then show ?thesis
    using assms by (simp add: copied_def bytes_at_store_bytes_other)
qed

lemma copied_add:
  assumes "k + j \<le> 4294967296"
  shows "store_bytes (copied m dest src k) (dest + of_nat k) (bytes_at m (src + of_nat k) j) = copied m dest src (k + j)"
proof -
  have "bytes_at m src (k + j) = bytes_at m src k @ bytes_at m (src + of_nat k) j"
    using drop_bytes_at [of k m src "k + j"] by (metis append_take_drop_id diff_add_inverse le_add1 take_bytes_at)
  then show ?thesis
    using store_bytes_append [of "bytes_at m src k" "bytes_at m (src + of_nat k) j" m dest] assms
    by (simp add: copied_def)
qed

lemma copied_byte:
  assumes "separate dest n src n" "k < n" "n \<le> 4294967296"
  shows "(copied m dest src k)(dest + of_nat k := copied m dest src k (src + of_nat k)) = copied m dest src (Suc k)"
proof -
  have "copied m dest src k (src + of_nat k) = m (src + of_nat k)"
    using copied_read [of dest n src k 1 m] assms by (simp add: bytes_at_Suc')
  moreover have "(copied m dest src k)(dest + of_nat k := b) = store_bytes (copied m dest src k) (dest + of_nat k) [b]" for b
    using store_bytes_snoc [of "[]" "copied m dest src k" "dest + of_nat k" b] by simp
  ultimately show ?thesis
    using copied_add [of k 1 m dest src] assms by (simp add: bytes_at_Suc')
qed

lemma copied_dword:
  assumes "separate dest n src n" "k + 4 \<le> n" "n \<le> 4294967296"
  shows "store32 (copied m dest src k) (dest + of_nat k) (load32 (copied m dest src k) (src + of_nat k)) =
     copied m dest src (k + 4)"
  using copied_read [of dest n src k 4 m] copied_add [of k 4 m dest src] assms
  by (simp add: store32_def bytes32_load32)

lemma memcpy_bottom_copied:
  assumes "separate dest n src n" "n \<le> 4294967296"
  shows "k + unat edx \<le> n \<Longrightarrow> memcpy_bottom (copied m dest src k) (dest + of_nat k) (src + of_nat k) edx =
     copied m dest src (k + unat edx)"
proof (induction "unat edx" arbitrary: k edx)
  case 0
  then have "edx = 0" by (simp add: unat_0_iff)
  then show ?case by (simp add: memcpy_bottom.simps)
next
  case (Suc d)
  then have nz: "edx \<noteq> 0" by auto
  have "memcpy_bottom (copied m dest src k) (dest + of_nat k) (src + of_nat k) edx =
      memcpy_bottom (copied m dest src (Suc k)) (dest + of_nat (Suc k)) (src + of_nat (Suc k)) (edx - 1)"
    using nz copied_byte [of dest n src k m] assms Suc.hyps(2) Suc.prems
    by (subst memcpy_bottom.simps) (simp add: add.assoc add.commute [of 1])
  also have "\<dots> = copied m dest src (Suc k + unat (edx - 1))"
    using Suc.hyps Suc.prems unat_pred [OF nz] by (intro Suc.hyps(1)) auto
  finally show ?case using unat_pred [OF nz] by simp
qed

lemma rep_movsl_copied:
  assumes "separate dest n src n" "n \<le> 4294967296"
  shows "k + 4 * unat ecx \<le> n \<Longrightarrow> rep_movsl (copied m dest src k) (dest + of_nat k) (src + of_nat k) ecx =
     (copied m dest src (k + 4 * unat ecx), dest + of_nat (k + 4 * unat ecx), src + of_nat (k + 4 * unat ecx))"
proof (induction "unat ecx" arbitrary: k ecx)
  case 0
  then have "ecx = 0" by (simp add: unat_0_iff)
  then show ?case by (simp add: rep_movsl.simps)
next
  case (Suc d)
  then have nz: "ecx \<noteq> 0" by auto
  have "rep_movsl (copied m dest src k) (dest + of_nat k) (src + of_nat k) ecx =
      rep_movsl (copied m dest src (k + 4)) (dest + of_nat (k + 4)) (src + of_nat (k + 4)) (ecx - 1)"
    using nz copied_dword [of dest n src k m] assms Suc.hyps(2) Suc.prems
    by (subst rep_movsl.simps) (simp add: add.assoc)
  also have "\<dots> = (copied m dest src (k + 4 + 4 * unat (ecx - 1)),
      dest + of_nat (k + 4 + 4 * unat (ecx - 1)), src + of_nat (k + 4 + 4 * unat (ecx - 1)))"
    using Suc.hyps Suc.prems unat_pred [OF nz] by (intro Suc.hyps(1)) auto
  also have "k + 4 + 4 * unat (ecx - 1) = k + 4 * unat ecx" using unat_pred [OF nz] by simp
  finally show ?case .
qed

lemma memcpy_top_copied:
  assumes "separate dest n src n" "n \<le> 4294967296"
  shows "k + unat ecx \<le> n \<Longrightarrow> memcpy_top (copied m dest src k) (dest + of_nat k) (src + of_nat k) ecx =
     copied m dest src (k + unat ecx)"
proof (induction "unat ecx" arbitrary: k ecx)
  case 0
  then have "ecx = 0" by (simp add: unat_0_iff)
  then show ?case by (simp add: memcpy_top.simps)
next
  case (Suc d)
  then have nz: "ecx \<noteq> 0" by auto
  show ?case
  proof (cases "dest + of_nat k AND 3 = 0")
    case True
    have split: "unat ecx = 4 * unat (drop_bit 2 ecx) + unat (ecx AND 3)"
      by (simp only: unat_drop_2 unat_and_3) simp
    have "memcpy_top (copied m dest src k) (dest + of_nat k) (src + of_nat k) ecx =
        memcpy_aligned (copied m dest src k) (dest + of_nat k) (src + of_nat k) ecx"
      using True nz by (subst memcpy_top.simps) simp
    also have "\<dots> = copied m dest src (k + 4 * unat (drop_bit 2 ecx) + unat (ecx AND 3))"
      using rep_movsl_copied [OF assms, of k "drop_bit 2 ecx" m] Suc.prems split
        memcpy_bottom_copied [OF assms, of "k + 4 * unat (drop_bit 2 ecx)" "ecx AND 3" m]
      by (simp add: memcpy_aligned_def del: of_nat_add of_nat_mult)
    also have "k + 4 * unat (drop_bit 2 ecx) + unat (ecx AND 3) = k + unat ecx" using split by simp
    finally show ?thesis .
  next
    case False
    have "memcpy_top (copied m dest src k) (dest + of_nat k) (src + of_nat k) ecx =
        memcpy_top (copied m dest src (Suc k)) (dest + of_nat (Suc k)) (src + of_nat (Suc k)) (ecx - 1)"
      using nz False copied_byte [of dest n src k m] assms Suc.hyps(2) Suc.prems
      by (subst memcpy_top.simps) (simp add: add.assoc add.commute [of 1])
    also have "\<dots> = copied m dest src (Suc k + unat (ecx - 1))"
      using Suc.hyps Suc.prems unat_pred [OF nz] by (intro Suc.hyps(1)) auto
    finally show ?thesis using unat_pred [OF nz] by simp
  qed
qed

lemma memcpy_copy:
  assumes "separate dest (unat n) src (unat n)"
  shows "memcpy m dest src n = store_bytes m dest (bytes_at m src (unat n))"
  using memcpy_top_copied [of dest "unat n" src 0 n m] assms unat_addr_lt [of n]
  by (simp add: memcpy_def copied_def)

section \<open>memmove copies overlapping blocks\<close>

lemma movsb_forward:
  assumes "unat dest \<le> unat src" "unat src + n \<le> 4294967296"
  shows "k + unat ecx = n \<Longrightarrow>
     rep_movsb (copied m dest src k) False (dest + of_nat k) (src + of_nat k) ecx = copied m dest src n"
proof (induction "unat ecx" arbitrary: k ecx)
  case 0
  then have "ecx = 0" by (simp add: unat_0_iff)
  with 0 show ?case by (simp add: rep_movsb.simps)
next
  case (Suc d)
  then have nz: "ecx \<noteq> 0" by auto
  from Suc have k: "k < n" by simp
  have "unat (src + of_nat k) = unat src + k"
    using k assms(2) by (simp add: unat_word_ariths unat_of_nat)
  then have "unat (src + of_nat k - dest) = unat src + k - unat dest"
    using assms(1) by (subst unat_sub) (auto simp: word_le_nat_alt)
  then have "\<not> in_region dest k (src + of_nat k)"
    using assms(1) by (simp add: in_region_def)
  then have "copied m dest src k (src + of_nat k) = m (src + of_nat k)"
    by (simp add: copied_def store_bytes_out)
  then have "(copied m dest src k)(dest + of_nat k := copied m dest src k (src + of_nat k)) = copied m dest src (Suc k)"
    using store_bytes_snoc [of "bytes_at m src k" m dest "m (src + of_nat k)"] k assms
    by (simp add: copied_def bytes_at_Suc)
  then have "rep_movsb (copied m dest src k) False (dest + of_nat k) (src + of_nat k) ecx =
      rep_movsb (copied m dest src (Suc k)) False (dest + of_nat (Suc k)) (src + of_nat (Suc k)) (ecx - 1)"
    using nz by (subst rep_movsb.simps) (simp add: add.assoc add.commute [of 1])
  also have "\<dots> = copied m dest src n"
    using Suc.hyps Suc.prems unat_pred [OF nz] by (intro Suc.hyps(1)) auto
  finally show ?case .
qed

lemma movsb_backward:
  assumes "unat src < unat dest" "unat dest + n \<le> 4294967296"
  shows "unat ecx \<le> n \<Longrightarrow>
     rep_movsb (store_bytes m (dest + ecx) (bytes_at m (src + ecx) (n - unat ecx))) True
       (dest + ecx - 1) (src + ecx - 1) ecx = store_bytes m dest (bytes_at m src n)"
proof (induction "unat ecx" arbitrary: ecx)
  case 0
  then have "ecx = 0" by (simp add: unat_0_iff)
  then show ?case by (simp add: rep_movsb.simps)
next
  case (Suc d)
  then have nz: "ecx \<noteq> 0" by auto
  note pred = unat_pred [OF nz]
  define m1 where "m1 = store_bytes m (dest + ecx) (bytes_at m (src + ecx) (n - unat ecx))"
  have "unat (src + ecx - 1 - (dest + ecx)) = unat (src - dest - 1)" by (simp add: algebra_simps)
  also have "\<dots> = 4294967296 + unat src - unat dest - 1"
    using assms unat_addr_lt [of dest] by (simp add: unat_sub_if' word_le_nat_alt)
  finally have "\<not> in_region (dest + ecx) (n - unat ecx) (src + ecx - 1)"
    using assms pred by (simp add: in_region_def)
  then have rd: "m1 (src + ecx - 1) = m (src + ecx - 1)"
    by (simp add: m1_def store_bytes_out)
  have "m1(dest + ecx - 1 := m (src + ecx - 1)) =
      store_bytes m (dest + ecx - 1) (m (src + ecx - 1) # bytes_at m (src + ecx) (n - unat ecx))"
    using store_bytes_Cons [of "bytes_at m (src + ecx) (n - unat ecx)" m "dest + ecx - 1" "m (src + ecx - 1)"]
      assms pred by (simp add: m1_def)
  also have "m (src + ecx - 1) # bytes_at m (src + ecx) (n - unat ecx) =
      bytes_at m (src + ecx - 1) (n - unat (ecx - 1))"
  proof -
    have "n - unat (ecx - 1) = Suc (n - unat ecx)" using Suc.prems pred by simp
    then show ?thesis by (simp only: bytes_at_Suc') simp
  qed
  finally have st: "m1(dest + ecx - 1 := m (src + ecx - 1)) =
      store_bytes m (dest + (ecx - 1)) (bytes_at m (src + (ecx - 1)) (n - unat (ecx - 1)))"
    by (simp only: add_diff_eq)
  have "rep_movsb m1 True (dest + ecx - 1) (src + ecx - 1) ecx =
      rep_movsb (m1(dest + ecx - 1 := m (src + ecx - 1))) True (dest + (ecx - 1) - 1) (src + (ecx - 1) - 1) (ecx - 1)"
    using nz rd by (subst rep_movsb.simps) (simp add: add_diff_eq)
  also have "\<dots> = store_bytes m dest (bytes_at m src n)"
    unfolding st using Suc.hyps Suc.prems pred by (intro Suc.hyps(1)) auto
  finally show ?case by (simp add: m1_def)
qed

lemma memmove_copy:
  assumes "unat src + unat n \<le> 4294967296" "unat dest + unat n \<le> 4294967296"
  shows "fst (memmove m dest src n) = store_bytes m dest (bytes_at m src (unat n))"
proof (cases "dest \<le> src")
  case True
  then show ?thesis
    using movsb_forward [of dest src "unat n" 0 n m] assms
    by (simp add: memmove_def copied_def word_le_nat_alt)
next
  case False
  then show ?thesis
    using movsb_backward [of src dest "unat n" n m] assms
    by (simp add: memmove_def word_le_nat_alt)
qed

section \<open>Properties\<close>

text \<open>
  C24. \<open>memset\<close>, with its unaligned head, its aligned words and its tail, fills exactly \<open>n\<close> bytes at
  \<open>s\<close> with the low byte of \<open>c\<close>, for every address, count and value.
\<close>

theorem memset_fills_exactly:
  "memset m s c n x = (if in_region s (unat n) x then ucast c else m x)"
  by (simp add: memset_fill store_bytes_def in_region_def)

text \<open>
  C25. \<open>memcpy\<close> copies \<open>n\<close> bytes between blocks that do not overlap and changes no other byte.
\<close>

theorem memcpy_copies:
  assumes "separate dest (unat n) src (unat n)"
  shows "memcpy m dest src n x = (if in_region dest (unat n) x then m (src + (x - dest)) else m x)"
  using memcpy_copy [OF assms, of m]
  by (auto simp: store_bytes_def in_region_def word_unat_eq_iff unat_of_nat)

theorem memcpy_copies_witness:
  "memcpy (store_bytes (\<lambda>_. 0) 0x1001 [1, 2, 3, 4, 5, 6, 7]) 0x2003 0x1001 7 0x2005 = 3"
  by (subst memcpy_copies) (simp_all add: separate_def in_region_def store_bytes_def)

text \<open>
  C26. \<open>memmove\<close> copies blocks that may overlap, as long as neither wraps around the address space:
  the destination holds the bytes the source held before the call.
\<close>

theorem memmove_copies_overlapping:
  assumes "unat src + unat n \<le> 2 ^ 32" "unat dest + unat n \<le> 2 ^ 32"
  shows "fst (memmove m dest src n) x = (if in_region dest (unat n) x then m (src + (x - dest)) else m x)"
  using memmove_copy [of src n dest m] assms
  by (auto simp: store_bytes_def in_region_def word_unat_eq_iff unat_of_nat)

theorem memmove_copies_overlapping_witness:
  "fst (memmove (store_bytes (\<lambda>_. 0) 0x1000 [1, 2, 3, 4]) 0x1001 0x1000 4) 0x1004 = 4"
  by (subst memmove_copies_overlapping) (simp_all add: in_region_def store_bytes_def)

end
