(* ===== verification/Machine.thy ===== *)
theory Machine
  imports Prelude
begin

text \<open>
  The part of the processor every driver touches, as \<^verbatim>\<open>student-distrib/lib.h\<close> wraps it: memory, port
  input and output, and the interrupt flag. The state of each component extends this record, so
  that an operation of one component applies unchanged to the state of the components above it.
\<close>

section \<open>Definitions\<close>

datatype port_event = Outb u16 byte | Outw u16 u16 | Inb u16 byte

text \<open>
  \<open>port_log\<close> holds the port accesses in the order they happen. What a device answers to a read
  is not code of the kernel: it is the field \<open>device\<close>, a function of the accesses so far.
\<close>

record machine =
  mem :: memory
  port_log :: "port_event list"
  device :: "port_event list \<Rightarrow> u16 \<Rightarrow> byte"
  if_flag :: bool

definition outb :: "u32 \<Rightarrow> u16 \<Rightarrow> 'a machine_scheme \<Rightarrow> 'a machine_scheme" where
  "outb data port s = s\<lparr>port_log := port_log s @ [Outb port (ucast data)]\<rparr>"

definition outw :: "u32 \<Rightarrow> u16 \<Rightarrow> 'a machine_scheme \<Rightarrow> 'a machine_scheme" where
  "outw data port s = s\<lparr>port_log := port_log s @ [Outw port (ucast data)]\<rparr>"

definition inb :: "u16 \<Rightarrow> 'a machine_scheme \<Rightarrow> u32 \<times> 'a machine_scheme" where
  "inb port s =
     (let b = device s (port_log s) port
      in (ucast b, s\<lparr>port_log := port_log s @ [Inb port b]\<rparr>))"

definition cli :: "'a machine_scheme \<Rightarrow> 'a machine_scheme" where
  "cli s = s\<lparr>if_flag := False\<rparr>"

definition sti :: "'a machine_scheme \<Rightarrow> 'a machine_scheme" where
  "sti s = s\<lparr>if_flag := True\<rparr>"

section \<open>Frame facts\<close>

lemma outb_frame [simp]:
  "mem (outb d p s) = mem s" "if_flag (outb d p s) = if_flag s" "device (outb d p s) = device s"
  "port_log (outb d p s) = port_log s @ [Outb p (ucast d)]" "machine.more (outb d p s) = machine.more s"
  by (simp_all add: outb_def)

lemma outw_frame [simp]:
  "mem (outw d p s) = mem s" "if_flag (outw d p s) = if_flag s" "device (outw d p s) = device s"
  "port_log (outw d p s) = port_log s @ [Outw p (ucast d)]" "machine.more (outw d p s) = machine.more s"
  by (simp_all add: outw_def)

lemma cli_frame [simp]:
  "mem (cli s) = mem s" "\<not> if_flag (cli s)" "device (cli s) = device s"
  "port_log (cli s) = port_log s" "machine.more (cli s) = machine.more s"
  by (simp_all add: cli_def)

lemma sti_frame [simp]:
  "mem (sti s) = mem s" "if_flag (sti s)" "device (sti s) = device s"
  "port_log (sti s) = port_log s" "machine.more (sti s) = machine.more s"
  by (simp_all add: sti_def)

lemma inb_frame [simp]:
  "mem (snd (inb p s)) = mem s" "if_flag (snd (inb p s)) = if_flag s"
  "device (snd (inb p s)) = device s" "machine.more (snd (inb p s)) = machine.more s"
  "fst (inb p s) = ucast (device s (port_log s) p)"
  "port_log (snd (inb p s)) = port_log s @ [Inb p (device s (port_log s) p)]"
  by (simp_all add: inb_def Let_def)

end
