(* ===== verification/I8259.thy ===== *)
theory I8259
  imports Machine
begin

text \<open>
  The 8259 interrupt controller driver, \<^verbatim>\<open>student-distrib/i8259.c\<close>: the cached masks of the two
  chips, the initialisation words, masking and unmasking of the sixteen request lines and the end
  of interrupt. The locale \<open>irq_lines\<close> is what the rest of the kernel relies on.
\<close>

section \<open>Definitions\<close>

record pic = machine +
  master_mask :: byte
  slave_mask :: byte

definition MASTER_8259_PORT :: u16 where "MASTER_8259_PORT = 0x20"
definition SLAVE_8259_PORT :: u16 where "SLAVE_8259_PORT = 0xA0"
definition ICW1 :: u32 where "ICW1 = 0x11"
definition ICW2_MASTER :: u32 where "ICW2_MASTER = 0x20"
definition ICW2_SLAVE :: u32 where "ICW2_SLAVE = 0x28"
definition ICW3_MASTER :: u32 where "ICW3_MASTER = 0x04"
definition ICW3_SLAVE :: u32 where "ICW3_SLAVE = 0x02"
definition ICW4 :: u32 where "ICW4 = 0x01"
definition EOI :: u32 where "EOI = 0x20"

definition i8259_init :: "'a pic_scheme \<Rightarrow> 'a pic_scheme" where
  "i8259_init s =
     (outb ICW4 (SLAVE_8259_PORT + 1)
       (outb ICW3_SLAVE (SLAVE_8259_PORT + 1)
        (outb ICW2_SLAVE (SLAVE_8259_PORT + 1)
         (outb ICW1 SLAVE_8259_PORT
          (outb ICW4 (MASTER_8259_PORT + 1)
           (outb ICW3_MASTER (MASTER_8259_PORT + 1)
            (outb ICW2_MASTER (MASTER_8259_PORT + 1)
             (outb ICW1 MASTER_8259_PORT s))))))))"

text \<open>\<open>1 << irq_num\<close> is a shift of a 32-bit integer, cut to the eight bits of the mask.\<close>

definition enable_irq :: "u32 \<Rightarrow> 'a pic_scheme \<Rightarrow> 'a pic_scheme" where
  "enable_irq irq_num s =
     (if irq_num < 8 then
        let value = ucast (ucast (master_mask s) AND NOT (push_bit (unat irq_num) (1 :: u32)))
        in outb (ucast value) (MASTER_8259_PORT + 1) (s\<lparr>master_mask := value\<rparr>)
      else
        let value = ucast (ucast (slave_mask s) AND NOT (push_bit (unat (irq_num - 8)) (1 :: u32)))
        in outb (ucast value) (SLAVE_8259_PORT + 1) (s\<lparr>slave_mask := value\<rparr>))"

definition disable_irq :: "u32 \<Rightarrow> 'a pic_scheme \<Rightarrow> 'a pic_scheme" where
  "disable_irq irq_num s =
     (if irq_num < 8 then
        let value = ucast (ucast (master_mask s) OR push_bit (unat irq_num) (1 :: u32))
        in outb (ucast value) (MASTER_8259_PORT + 1) (s\<lparr>master_mask := value\<rparr>)
      else
        let value = ucast (ucast (slave_mask s) OR push_bit (unat (irq_num - 8)) (1 :: u32))
        in outb (ucast value) (SLAVE_8259_PORT + 1) (s\<lparr>slave_mask := value\<rparr>))"

definition send_eoi :: "u32 \<Rightarrow> 'a pic_scheme \<Rightarrow> 'a pic_scheme" where
  "send_eoi irq_num s =
     outb EOI MASTER_8259_PORT (if 8 \<le> irq_num then outb EOI SLAVE_8259_PORT s else s)"

text \<open>The loop of \<open>entry\<close> in \<^verbatim>\<open>kernel.c\<close> that masks every line before the drivers start.\<close>

definition mask_all_irqs :: "'a pic_scheme \<Rightarrow> 'a pic_scheme" where
  "mask_all_irqs s = fold (\<lambda>i. disable_irq (of_nat i)) [0..<16] s"

text \<open>
  The specification: line \<open>i\<close> is masked when its bit is set in the cached mask, and the chips
  see the cached masks when the last byte written to each data port is that mask.
\<close>

definition masked :: "'a pic_scheme \<Rightarrow> nat \<Rightarrow> bool" where
  "masked s i \<longleftrightarrow> (if i < 8 then bit (master_mask s) i else bit (slave_mask s) (i - 8))"

definition last_outb :: "u16 \<Rightarrow> port_event list \<Rightarrow> byte option" where
  "last_outb p l = fold (\<lambda>e r. case e of Outb q b \<Rightarrow> if q = p then Some b else r | _ \<Rightarrow> r) l None"

definition chips_synced :: "'a pic_scheme \<Rightarrow> bool" where
  "chips_synced s \<longleftrightarrow> last_outb 0x21 (port_log s) = Some (master_mask s) \<and>
     last_outb 0xA1 (port_log s) = Some (slave_mask s)"

section \<open>The contract of a set of request lines\<close>

locale irq_lines =
  fixes n :: nat
    and enable disable :: "nat \<Rightarrow> 's \<Rightarrow> 's"
    and is_masked :: "'s \<Rightarrow> nat \<Rightarrow> bool"
  assumes masked_enable: "i < n \<Longrightarrow> j < n \<Longrightarrow> is_masked (enable i s) j \<longleftrightarrow> j \<noteq> i \<and> is_masked s j"
    and masked_disable: "i < n \<Longrightarrow> j < n \<Longrightarrow> is_masked (disable i s) j \<longleftrightarrow> j = i \<or> is_masked s j"
begin

lemma masked_fold_disable:
  "set is \<subseteq> {..<n} \<Longrightarrow> j < n \<Longrightarrow> is_masked (fold disable is s) j \<longleftrightarrow> j \<in> set is \<or> is_masked s j"
  by (induction "is" arbitrary: s) (auto simp: masked_disable)

lemma masked_fold_enable:
  "set is \<subseteq> {..<n} \<Longrightarrow> j < n \<Longrightarrow> is_masked (fold enable is s) j \<longleftrightarrow> j \<notin> set is \<and> is_masked s j"
  by (induction "is" arbitrary: s) (auto simp: masked_enable)

lemma only_enabled:
  assumes "set is \<subseteq> {..<n}" "j < n"
  shows "is_masked (fold enable is (fold disable [0..<n] s)) j \<longleftrightarrow> j \<notin> set is"
  using assms by (simp add: masked_fold_enable masked_fold_disable subset_iff)

lemma enable_disable_cancel:
  "i < n \<Longrightarrow> j < n \<Longrightarrow> is_masked (disable i (enable i s)) j \<longleftrightarrow> is_masked (disable i s) j"
  by (auto simp: masked_enable masked_disable)

end

section \<open>The driver meets the contract\<close>

lemma of_nat_less_8: "i < 16 \<Longrightarrow> (of_nat i :: u32) < 8 \<longleftrightarrow> i < 8"
  by (simp add: word_less_nat_alt unat_of_nat_addr)

lemma unat_of_nat_16: "i < 16 \<Longrightarrow> unat (of_nat i :: u32) = i"
  by (simp add: unat_of_nat_addr)

lemma unat_of_nat_minus_8: "8 \<le> i \<Longrightarrow> i < 16 \<Longrightarrow> unat (of_nat i - 8 :: u32) = i - 8"
proof -
  assume i: "8 \<le> i" "i < 16"
  then have "of_nat i - 8 = (of_nat (i - 8) :: u32)" by (simp add: of_nat_diff)
  with i show ?thesis by (simp add: unat_of_nat_16 del: of_nat_diff)
qed

lemmas irq_number_simps = of_nat_less_8 unat_of_nat_16 unat_of_nat_minus_8

lemma master_slave_outb [simp]:
  "master_mask (outb d p s) = master_mask s" "slave_mask (outb d p s) = slave_mask s"
  "pic.more (outb d p s) = pic.more s"
  by (simp_all add: outb_def)

lemma masked_enable_irq:
  assumes "i < 16" "j < 16"
  shows "masked (enable_irq (of_nat i) s) j \<longleftrightarrow> j \<noteq> i \<and> masked s j"
  using assms
  by (cases "i < 8"; cases "j < 8")
    (auto simp: masked_def enable_irq_def Let_def irq_number_simps bit_simps)

lemma masked_disable_irq:
  assumes "i < 16" "j < 16"
  shows "masked (disable_irq (of_nat i) s) j \<longleftrightarrow> j = i \<or> masked s j"
  using assms
  by (cases "i < 8"; cases "j < 8")
    (auto simp: masked_def disable_irq_def Let_def irq_number_simps bit_simps)

interpretation pic_lines: irq_lines 16 "\<lambda>i. enable_irq (of_nat i)" "\<lambda>i. disable_irq (of_nat i)" masked
  by unfold_locales (simp_all add: masked_enable_irq masked_disable_irq)

section \<open>Properties\<close>

lemma last_outb_append:
  "last_outb p (l @ [e]) = (case e of Outb q b \<Rightarrow> if q = p then Some b else last_outb p l | _ \<Rightarrow> last_outb p l)"
  by (cases e) (simp_all add: last_outb_def)

lemma enable_irq_synced: "chips_synced s \<Longrightarrow> chips_synced (enable_irq irq s)"
  by (auto simp: chips_synced_def enable_irq_def Let_def last_outb_append MASTER_8259_PORT_def SLAVE_8259_PORT_def)

lemma last_outb_disable_irq:
  "last_outb 0x21 (port_log (disable_irq irq s)) =
     (if irq < 8 then Some (master_mask (disable_irq irq s)) else last_outb 0x21 (port_log s))"
  "last_outb 0xA1 (port_log (disable_irq irq s)) =
     (if irq < 8 then last_outb 0xA1 (port_log s) else Some (slave_mask (disable_irq irq s)))"
  "irq < 8 \<Longrightarrow> slave_mask (disable_irq irq s) = slave_mask s"
  "\<not> irq < 8 \<Longrightarrow> master_mask (disable_irq irq s) = master_mask s"
  by (auto simp: disable_irq_def Let_def last_outb_append MASTER_8259_PORT_def SLAVE_8259_PORT_def)

lemma mask_all_irqs_synced: "chips_synced (mask_all_irqs s)"
proof -
  have "last_outb 0x21 (port_log (fold (\<lambda>i. disable_irq (of_nat i)) [0..<8] s)) =
      Some (master_mask (fold (\<lambda>i. disable_irq (of_nat i)) [0..<8] s))"
    by (simp add: upt_rec last_outb_disable_irq word_less_nat_alt)
  then show ?thesis
    by (simp add: mask_all_irqs_def chips_synced_def upt_rec last_outb_disable_irq word_less_nat_alt)
qed

lemma fold_enable_synced:
  "chips_synced s \<Longrightarrow> chips_synced (fold (\<lambda>i. enable_irq (of_nat i)) is s)"
  by (induction "is" arbitrary: s) (auto simp: enable_irq_synced)

text \<open>
  C9. After the boot loop that masks every line, whatever lines the drivers enable are exactly the
  unmasked ones, and the mask registers of the two chips hold the cached masks.
\<close>

theorem boot_irq_masks:
  assumes "set irqs \<subseteq> {..<16}"
  shows "chips_synced (fold (\<lambda>i. enable_irq (of_nat i)) irqs (mask_all_irqs s)) \<and>
     (\<forall>j < 16. masked (fold (\<lambda>i. enable_irq (of_nat i)) irqs (mask_all_irqs s)) j \<longleftrightarrow> j \<notin> set irqs)"
proof -
  have "\<forall>j < 16. masked (fold (\<lambda>i. enable_irq (of_nat i)) irqs (mask_all_irqs s)) j \<longleftrightarrow> j \<notin> set irqs"
    unfolding mask_all_irqs_def using pic_lines.only_enabled [OF assms] by blast
  then show ?thesis by (simp add: fold_enable_synced mask_all_irqs_synced)
qed

definition reset_pic :: pic where
  "reset_pic = \<lparr>mem = \<lambda>_. 0, port_log = [], device = \<lambda>_ _. 0, if_flag = False, master_mask = 0xFF, slave_mask = 0xFF\<rparr>"

theorem boot_irq_masks_witness:
  "chips_synced (fold (\<lambda>i. enable_irq (of_nat i)) [1, 2, 8] (mask_all_irqs reset_pic)) \<and>
     masked (fold (\<lambda>i. enable_irq (of_nat i)) [1, 2, 8] (mask_all_irqs reset_pic)) 3 \<and>
     \<not> masked (fold (\<lambda>i. enable_irq (of_nat i)) [1, 2, 8] (mask_all_irqs reset_pic)) 8"
proof -
  have "set [1, 2, 8] \<subseteq> {..<16 :: nat}" by simp
  from boot_irq_masks [OF this, of reset_pic] show ?thesis by simp
qed

end
