(* ===== verification/Console.thy ===== *)
theory Console
  imports I8259 Lib_String "HOL-Library.Signed_Division"
begin

text \<open>
  The text screen of \<^verbatim>\<open>student-distrib/lib.c\<close>: the cursor, the character and attribute bytes at
  \<^verbatim>\<open>0xB8000\<close>, scrolling, \<open>putc\<close>, \<open>puts\<close>, the terminal variants \<open>putc_terminal\<close> and
  \<open>deletec_terminal\<close>, and an abstract screen the terminal operations refine.
\<close>

section \<open>Definitions\<close>

text \<open>
  \<open>screen_x\<close> and \<open>screen_y\<close> are C ints, here unbounded integers: an overflow of theirs is
  undefined in C and takes more than \<open>2 ^ 29\<close> tabs. Division and remainder truncate as C's do.
\<close>

record console = pic +
  screen_x :: int
  screen_y :: int

definition VIDEO :: addr where "VIDEO = 0xB8000"
definition NUM_COLS :: int where "NUM_COLS = 80"
definition NUM_ROWS :: int where "NUM_ROWS = 25"
definition ATTRIB :: byte where "ATTRIB = 0x8"
definition tab_size :: int where "tab_size = 3"

text \<open>Byte \<open>*(video_mem + (k << 1))\<close>, the character of cell \<open>k\<close>, and the attribute after it.\<close>

definition video_char :: "int \<Rightarrow> addr" where
  "video_char k = VIDEO + of_int (2 * k)"

definition video_attr :: "int \<Rightarrow> addr" where
  "video_attr k = VIDEO + of_int (2 * k) + 1"

definition clear :: "'a console_scheme \<Rightarrow> 'a console_scheme" where
  "clear s = s\<lparr>mem := fold (\<lambda>i m. (m(video_char (int i) := 32))(video_attr (int i) := ATTRIB))
     [0..<nat (NUM_ROWS * NUM_COLS)] (mem s)\<rparr>"

definition set_cursor_pos :: "'a console_scheme \<Rightarrow> 'a console_scheme" where
  "set_cursor_pos s =
     (let position = of_int (NUM_COLS * screen_y s + screen_x s) :: u16;
          s1 = outw (0x000E OR (ucast position AND 0xFF00)) 0x03D4 s
      in outw (0x000F OR (push_bit 8 (ucast position) AND 0xFF00)) 0x03D4 s1)"

definition set_screen :: "int \<Rightarrow> int \<Rightarrow> 'a console_scheme \<Rightarrow> 'a console_scheme" where
  "set_screen x y s = set_cursor_pos (s\<lparr>screen_x := x, screen_y := y\<rparr>)"

definition scroll_rows :: "memory \<Rightarrow> memory" where
  "scroll_rows m =
     fold (\<lambda>y. fold (\<lambda>x m.
         m(video_char (NUM_COLS * int y + int x) := m (video_char (NUM_COLS * (int y + 1) + int x))))
       [0..<nat NUM_COLS]) [0..<nat (NUM_ROWS - 1)] m"

definition clear_bottom :: "memory \<Rightarrow> memory" where
  "clear_bottom m =
     fold (\<lambda>x m. m(video_char (NUM_COLS * (NUM_ROWS - 1) + int x) := 32)) [0..<nat NUM_COLS] m"

definition vertical_scroll :: "'a console_scheme \<Rightarrow> 'a console_scheme" where
  "vertical_scroll s = set_screen 0 (NUM_ROWS - 1) (s\<lparr>mem := clear_bottom (scroll_rows (mem s))\<rparr>)"

definition store_cell :: "byte \<Rightarrow> 'a console_scheme \<Rightarrow> 'a console_scheme" where
  "store_cell c s =
     (let k = NUM_COLS * screen_y s + screen_x s
      in s\<lparr>mem := ((mem s)(video_char k := c))(video_attr k := ATTRIB)\<rparr>)"

definition advance_cursor :: "'a console_scheme \<Rightarrow> 'a console_scheme" where
  "advance_cursor s =
     (let x = screen_x s + 1
      in s\<lparr>screen_x := x smod NUM_COLS, screen_y := (screen_y s + x sdiv NUM_COLS) smod NUM_ROWS\<rparr>)"

definition putc_terminal :: "byte \<Rightarrow> 'a console_scheme \<Rightarrow> 'a console_scheme" where
  "putc_terminal c s = set_cursor_pos
     (if c = 9 then s\<lparr>screen_x := screen_x s + tab_size\<rparr>
      else if c = 10 \<or> c = 13 then
        let s1 = s\<lparr>screen_y := screen_y s + 1, screen_x := 0\<rparr>
        in if NUM_ROWS - 1 \<le> screen_y s1 then vertical_scroll s1 else s1
      else
        let s1 = store_cell c s
        in if NUM_ROWS - 1 \<le> screen_y s1 \<and> NUM_COLS - 1 \<le> screen_x s1
           then vertical_scroll s1 else advance_cursor s1)"

definition deletec_step :: "'a console_scheme \<Rightarrow> 'a console_scheme" where
  "deletec_step s =
     (if 0 < screen_x s then
        set_screen (screen_x s - 1) (screen_y s)
          (s\<lparr>mem := (mem s)(video_char (NUM_COLS * screen_y s + screen_x s - 1) := 32)\<rparr>)
      else if screen_x s = 0 then
        set_screen (NUM_COLS - 1) (screen_y s - 1)
          (s\<lparr>mem := (mem s)(video_char (NUM_COLS * (screen_y s - 1) + NUM_COLS - 1) := 32)\<rparr>)
      else s)"

definition deletec_terminal :: "byte \<Rightarrow> 'a console_scheme \<Rightarrow> 'a console_scheme" where
  "deletec_terminal c s = (deletec_step ^^ nat (if c = 9 then tab_size else 1)) s"

definition putc :: "byte \<Rightarrow> 'a console_scheme \<Rightarrow> 'a console_scheme" where
  "putc c s = set_cursor_pos
     (if c = 10 \<or> c = 13 then s\<lparr>screen_y := screen_y s + 1, screen_x := 0\<rparr>
      else advance_cursor (store_cell c s))"

text \<open>\<open>puts\<close> reads the string while it prints, so a string inside the screen is read as it changes.\<close>

partial_function (option) puts_from ::
  "addr \<Rightarrow> u32 \<Rightarrow> 'a console_scheme \<Rightarrow> ('a console_scheme \<times> u32) option" where
  "puts_from p index s =
     (if mem s (p + index) \<noteq> 0 then puts_from p (index + 1) (putc (mem s (p + index)) s)
      else Some (s, index))"

definition puts :: "addr \<Rightarrow> 'a console_scheme \<Rightarrow> ('a console_scheme \<times> u32) option" where
  "puts p s = puts_from p 0 s"

text \<open>\<open>test_interrupts\<close> increments every character byte.\<close>

definition test_interrupts :: "'a console_scheme \<Rightarrow> 'a console_scheme" where
  "test_interrupts s =
     s\<lparr>mem := fold (\<lambda>i m. m(video_char (int i) := m (video_char (int i)) + 1))
       [0..<nat (NUM_ROWS * NUM_COLS)] (mem s)\<rparr>"

section \<open>The abstract screen\<close>

text \<open>
  The abstract screen is the character plane as a list of 2000 bytes, row after row, with the
  cursor; \<open>term_put\<close> is what printing a character means on it.
\<close>

record screen =
  chars :: "byte list"
  cur_x :: nat
  cur_y :: nat

definition abs_screen :: "'a console_scheme \<Rightarrow> screen" where
  "abs_screen s = \<lparr>chars = map (\<lambda>k. mem s (video_char (int k))) [0..<2000],
     cur_x = nat (screen_x s), cur_y = nat (screen_y s)\<rparr>"

definition term_scroll :: "screen \<Rightarrow> screen" where
  "term_scroll t = t\<lparr>chars := drop 80 (chars t) @ replicate 80 32, cur_x := 0, cur_y := 24\<rparr>"

definition term_put :: "byte \<Rightarrow> screen \<Rightarrow> screen" where
  "term_put c t =
     (if c = 10 \<or> c = 13 then
        if 23 \<le> cur_y t then term_scroll t else t\<lparr>cur_x := 0, cur_y := cur_y t + 1\<rparr>
      else
        let t1 = t\<lparr>chars := (chars t)[80 * cur_y t + cur_x t := c]\<rparr>
        in if cur_x t < 79 then t1\<lparr>cur_x := cur_x t + 1\<rparr>
           else if cur_y t < 24 then t1\<lparr>cur_x := 0, cur_y := cur_y t + 1\<rparr>
           else term_scroll t1)"

definition cursor_ok :: "'a console_scheme \<Rightarrow> bool" where
  "cursor_ok s \<longleftrightarrow> 0 \<le> screen_x s \<and> screen_x s < 80 \<and> 0 \<le> screen_y s \<and> screen_y s < 25"

section \<open>Cells of video memory\<close>

lemmas console_consts = NUM_COLS_def NUM_ROWS_def tab_size_def ATTRIB_def

lemma video_char_eq_iff [simp]:
  assumes "0 \<le> k" "k < 1073741824" "0 \<le> l" "l < 1073741824"
  shows "video_char k = video_char l \<longleftrightarrow> k = l"
  using of_int_offset [of "2 * k" "VIDEO + of_int (2 * l)" VIDEO] assms
    of_int_offset [of "2 * l" "VIDEO + of_int (2 * l)" VIDEO]
  by (auto simp: video_char_def)

lemma video_char_neq_attr [simp]:
  assumes "0 \<le> k" "k < 1073741824" "0 \<le> l" "l < 1073741824"
  shows "video_char k \<noteq> video_attr l" "video_attr l \<noteq> video_char k"
proof -
  have attr: "video_attr l = VIDEO + of_int (2 * l + 1)" by (simp add: video_attr_def)
  have "uint (video_attr l - VIDEO) = 2 * l + 1"
    using of_int_offset [of "2 * l + 1" "video_attr l" VIDEO] assms attr by simp
  moreover have "uint (video_char k - VIDEO) = 2 * k"
    using of_int_offset [of "2 * k" "video_char k" VIDEO] assms by (simp add: video_char_def)
  ultimately show "video_char k \<noteq> video_attr l" by (metis even_add even_mult_iff odd_one even_numeral)
  then show "video_attr l \<noteq> video_char k" by simp
qed

lemma video_attr_eq_iff [simp]:
  assumes "0 \<le> k" "k < 1073741824" "0 \<le> l" "l < 1073741824"
  shows "video_attr k = video_attr l \<longleftrightarrow> k = l"
  using video_char_eq_iff [OF assms] by (simp add: video_char_def video_attr_def)

lemma fold_nested:
  "fold (\<lambda>y. fold (\<lambda>x. f (c * y + x)) [0..<c]) [0..<r] m = fold f [0..<c * r] m"
proof (induction r)
  case (Suc r)
  have "fold (\<lambda>x. f (c * r + x)) [0..<c] = fold f (map (\<lambda>x. x + c * r) [0..<c])"
    by (simp add: fold_map comp_def add.commute)
  also have "map (\<lambda>x. x + c * r) [0..<c] = [c * r..<c * Suc r]"
    by (simp add: map_add_upt add.commute)
  finally have "fold (\<lambda>y. fold (\<lambda>x. f (c * y + x)) [0..<c]) [0..<Suc r] m =
      fold f [c * r..<c * Suc r] (fold f [0..<c * r] m)"
    by (simp add: Suc)
  also have "\<dots> = fold f ([0..<c * r] @ [c * r..<c * Suc r]) m" by simp
  also have "[0..<c * r] @ [c * r..<c * Suc r] = [0..<c * Suc r]"
    using upt_add_eq_append [of 0 "c * r" c] by (simp add: add.commute)
  finally show ?case .
qed simp

lemma video_char_row: "video_char (int k) + 160 = video_char (int (k + 80))"
  by (simp add: video_char_def)

definition shift_cell :: "nat \<Rightarrow> memory \<Rightarrow> memory" where
  "shift_cell k m = m(video_char (int k) := m (video_char (int (k + 80))))"

lemma fold_shift_cells:
  "n \<le> 100000 \<Longrightarrow> fold shift_cell [0..<n] m x =
     (if \<exists>k<n. x = video_char (int k) then m (x + 160) else m x)"
proof (induction n arbitrary: x)
  case (Suc n)
  have "fold shift_cell [0..<n] m (video_char (int (n + 80))) = m (video_char (int (n + 80)))"
    using Suc.prems by (subst Suc.IH) auto
  moreover have "fold shift_cell [0..<n] m x = (if \<exists>k<n. x = video_char (int k) then m (x + 160) else m x)"
    using Suc.prems by (subst Suc.IH) auto
  ultimately show ?case
    using video_char_row [of n] by (auto simp: less_Suc_eq shift_cell_def [of n])
qed simp

lemma scroll_rows_flat: "scroll_rows m = fold shift_cell [0..<1920] m"
proof -
  have "(\<lambda>m. m(video_char (NUM_COLS * int y + int x) := m (video_char (NUM_COLS * (int y + 1) + int x)))) =
      shift_cell (80 * y + x)" for x y
    by (rule ext) (simp add: shift_cell_def NUM_COLS_def algebra_simps)
  then show ?thesis
    using fold_nested [of shift_cell 80 24 m] by (simp add: scroll_rows_def console_consts)
qed

lemma scroll_rows_at:
  "k < 2000 \<Longrightarrow> scroll_rows m (video_char (int k)) =
     m (video_char (int (if k < 1920 then k + 80 else k)))"
  "\<not> (\<exists>k<1920. x = video_char (int k)) \<Longrightarrow> scroll_rows m x = m x"
  unfolding scroll_rows_flat by (subst fold_shift_cells; auto simp: video_char_row)+

lemma clear_bottom_at:
  "k < 2000 \<Longrightarrow> clear_bottom m (video_char (int k)) = (if 1920 \<le> k then 32 else m (video_char (int k)))"
  "\<not> (\<exists>k<2000. x = video_char (int k)) \<Longrightarrow> clear_bottom m x = m x"
proof -
  have loop: "fold (\<lambda>x m. m(video_char (1920 + int x) := 32)) [0..<n] m x =
      (if \<exists>j<n. x = video_char (1920 + int j) then 32 else m x)" for n x
    by (induction n) (auto simp: less_Suc_eq)
  have flat: "clear_bottom m x = (if \<exists>j<80. x = video_char (1920 + int j) then 32 else m x)" for x
    using loop [of 80 x] by (simp add: clear_bottom_def console_consts)
  show "k < 2000 \<Longrightarrow> clear_bottom m (video_char (int k)) = (if 1920 \<le> k then 32 else m (video_char (int k)))"
  proof -
    assume k: "k < 2000"
    then have "(\<exists>j<80. video_char (int k) = video_char (1920 + int j)) \<longleftrightarrow> 1920 \<le> k"
      by (auto intro!: exI [of _ "k - 1920"])
    then show ?thesis unfolding flat by simp
  qed
  show "\<not> (\<exists>k<2000. x = video_char (int k)) \<Longrightarrow> clear_bottom m x = m x"
    unfolding flat using of_nat_add [of 1920, symmetric] by (auto dest: spec [of _ "1920 + _"])
qed

section \<open>Frame facts\<close>

lemma screen_outw [simp]:
  "screen_x (outw d p s) = screen_x s" "screen_y (outw d p s) = screen_y s"
  "pic.more (outw d p s) = pic.more s" "console.more (outw d p s) = console.more s"
  "master_mask (outw d p s) = master_mask s" "slave_mask (outw d p s) = slave_mask s"
  by (simp_all add: outw_def)

lemma set_cursor_pos_frame [simp]:
  "mem (set_cursor_pos s) = mem s" "screen_x (set_cursor_pos s) = screen_x s"
  "screen_y (set_cursor_pos s) = screen_y s" "console.more (set_cursor_pos s) = console.more s"
  "if_flag (set_cursor_pos s) = if_flag s" "device (set_cursor_pos s) = device s"
  "master_mask (set_cursor_pos s) = master_mask s" "slave_mask (set_cursor_pos s) = slave_mask s"
  by (simp_all add: set_cursor_pos_def Let_def)

lemma set_screen_frame [simp]:
  "mem (set_screen x y s) = mem s" "screen_x (set_screen x y s) = x"
  "screen_y (set_screen x y s) = y" "console.more (set_screen x y s) = console.more s"
  "if_flag (set_screen x y s) = if_flag s" "device (set_screen x y s) = device s"
  "master_mask (set_screen x y s) = master_mask s" "slave_mask (set_screen x y s) = slave_mask s"
  by (simp_all add: set_screen_def)

lemma vertical_scroll_cursor [simp]:
  "screen_x (vertical_scroll s) = 0" "screen_y (vertical_scroll s) = 24"
  "mem (vertical_scroll s) = clear_bottom (scroll_rows (mem s))"
  by (simp_all add: vertical_scroll_def console_consts)

lemma store_cell_frame [simp]:
  "screen_x (store_cell c s) = screen_x s" "screen_y (store_cell c s) = screen_y s"
  "console.more (store_cell c s) = console.more s"
  by (simp_all add: store_cell_def Let_def)

lemma smod_nonneg: "0 \<le> (a :: int) \<Longrightarrow> 0 < b \<Longrightarrow> a smod b = a mod b"
  by (cases "a = 0") (simp_all add: signed_modulo_int_def)

lemma sdiv_nonneg: "0 \<le> (a :: int) \<Longrightarrow> 0 < b \<Longrightarrow> a sdiv b = a div b"
  by (cases "a = 0") (simp_all add: signed_divide_int_def)

lemma advance_cursor_ok:
  assumes "cursor_ok s" "\<not> (24 \<le> screen_y s \<and> 79 \<le> screen_x s)"
  shows "screen_x (advance_cursor s) = (if screen_x s < 79 then screen_x s + 1 else 0)"
    "screen_y (advance_cursor s) = (if screen_x s < 79 then screen_y s else screen_y s + 1)"
    "mem (advance_cursor s) = mem s"
proof -
  have "screen_x s = 79 \<or> screen_x s + 1 < 80" using assms by (auto simp: cursor_ok_def)
  then show "screen_x (advance_cursor s) = (if screen_x s < 79 then screen_x s + 1 else 0)"
    "screen_y (advance_cursor s) = (if screen_x s < 79 then screen_y s else screen_y s + 1)"
    "mem (advance_cursor s) = mem s"
    using assms by (auto simp: advance_cursor_def cursor_ok_def Let_def console_consts smod_nonneg sdiv_nonneg)
qed

section \<open>Refinement of the abstract screen\<close>

lemma abs_screen_eqI:
  assumes "\<And>k. k < 2000 \<Longrightarrow> mem s (video_char (int k)) = chars t ! k" "length (chars t) = 2000"
    "nat (screen_x s) = cur_x t" "nat (screen_y s) = cur_y t"
  shows "abs_screen s = t"
proof -
  have "map (\<lambda>k. mem s (video_char (int k))) [0..<2000] = chars t"
    using assms(1,2) by (intro nth_equalityI) auto
  with assms(3,4) show ?thesis by (simp add: abs_screen_def)
qed

lemma abs_screen_simps [simp]:
  "k < 2000 \<Longrightarrow> chars (abs_screen s) ! k = mem s (video_char (int k))"
  "length (chars (abs_screen s)) = 2000"
  "cur_x (abs_screen s) = nat (screen_x s)" "cur_y (abs_screen s) = nat (screen_y s)"
  by (simp_all add: abs_screen_def)

lemma abs_vertical_scroll: "abs_screen (vertical_scroll s) = term_scroll (abs_screen s)"
  by (rule abs_screen_eqI)
    (auto simp: term_scroll_def nth_append scroll_rows_at clear_bottom_at add.commute)

lemma abs_store_cell:
  assumes "cursor_ok s"
  shows "abs_screen (store_cell c s) = (abs_screen s)\<lparr>chars := (chars (abs_screen s))[80 * cur_y (abs_screen s) + cur_x (abs_screen s) := c]\<rparr>"
proof (rule abs_screen_eqI)
  fix k :: nat assume k: "k < 2000"
  define p where "p = 80 * nat (screen_y s) + nat (screen_x s)"
  have pos: "80 * screen_y s + screen_x s = int p" using assms by (simp add: cursor_ok_def p_def)
  have "p < 2000" using assms pos by (simp add: cursor_ok_def)
  then show "mem (store_cell c s) (video_char (int k)) =
      chars ((abs_screen s)\<lparr>chars := (chars (abs_screen s))[80 * cur_y (abs_screen s) + cur_x (abs_screen s) := c]\<rparr>) ! k"
    using k by (simp add: store_cell_def Let_def console_consts pos nth_list_update p_def [symmetric])
qed simp_all

lemma set_cursor_pos_abs [simp]:
  "abs_screen (set_cursor_pos s) = abs_screen s" "cursor_ok (set_cursor_pos s) = cursor_ok s"
  by (simp_all add: abs_screen_def cursor_ok_def)

lemma cursor_ok_scroll [simp]: "cursor_ok (vertical_scroll s)"
  by (simp add: cursor_ok_def)

lemma putc_terminal_printable:
  assumes "cursor_ok s" "c \<noteq> 9" "c \<noteq> 10" "c \<noteq> 13"
  shows "abs_screen (putc_terminal c s) = term_put c (abs_screen s)" "cursor_ok (putc_terminal c s)"
proof -
  define s1 where "s1 = store_cell c s"
  define t1 where "t1 = (abs_screen s)\<lparr>chars := (chars (abs_screen s))[80 * cur_y (abs_screen s) + cur_x (abs_screen s) := c]\<rparr>"
  have s1: "cursor_ok s1" "abs_screen s1 = t1" "screen_x s1 = screen_x s" "screen_y s1 = screen_y s"
    using assms(1) abs_store_cell [OF assms(1)] by (simp_all add: s1_def t1_def cursor_ok_def)
  have put: "putc_terminal c s = set_cursor_pos
      (if 24 \<le> screen_y s1 \<and> 79 \<le> screen_x s1 then vertical_scroll s1 else advance_cursor s1)"
    using assms by (simp add: putc_terminal_def Let_def console_consts s1_def)
  have "abs_screen (advance_cursor s1) = term_put c (abs_screen s) \<and> cursor_ok (advance_cursor s1)"
    if "\<not> (24 \<le> screen_y s1 \<and> 79 \<le> screen_x s1)"
  proof -
    note adv = advance_cursor_ok [OF s1(1) that]
    have "abs_screen (advance_cursor s1) =
        t1\<lparr>cur_x := (if screen_x s < 79 then nat (screen_x s) + 1 else 0),
           cur_y := (if screen_x s < 79 then nat (screen_y s) else nat (screen_y s) + 1)\<rparr>"
      using assms(1) s1(3,4) unfolding s1(2) [symmetric]
      by (simp add: abs_screen_def adv cursor_ok_def nat_add_distrib)
    moreover have "cursor_ok (advance_cursor s1)"
      using s1 that by (auto simp: cursor_ok_def adv)
    ultimately show ?thesis
      using assms that s1 by (auto simp: term_put_def Let_def t1_def cursor_ok_def abs_screen_def)
  qed
  moreover have "abs_screen (vertical_scroll s1) = term_put c (abs_screen s)"
    if "24 \<le> screen_y s1 \<and> 79 \<le> screen_x s1"
  proof -
    have "\<not> nat (screen_y s) < 24" "\<not> nat (screen_x s) < 79" using that s1(3,4) by arith+
    then show ?thesis using s1(2) assms by (simp add: abs_vertical_scroll term_put_def t1_def Let_def)
  qed
  ultimately show "abs_screen (putc_terminal c s) = term_put c (abs_screen s)" "cursor_ok (putc_terminal c s)"
    unfolding put by auto
qed

lemma putc_terminal_newline:
  assumes "cursor_ok s" "c = 10 \<or> c = 13"
  shows "abs_screen (putc_terminal c s) = term_put c (abs_screen s)" "cursor_ok (putc_terminal c s)"
proof -
  define s1 where "s1 = s\<lparr>screen_y := screen_y s + 1, screen_x := 0\<rparr>"
  have put: "putc_terminal c s = set_cursor_pos (if 24 \<le> screen_y s + 1 then vertical_scroll s1 else s1)"
    using assms by (auto simp: putc_terminal_def Let_def console_consts s1_def)
  have scroll: "abs_screen (vertical_scroll s1) = term_scroll (abs_screen s)"
    by (simp add: abs_vertical_scroll) (simp add: term_scroll_def abs_screen_def s1_def)
  have "abs_screen s1 = (abs_screen s)\<lparr>cur_x := 0, cur_y := nat (screen_y s) + 1\<rparr>"
    using assms(1) by (simp add: abs_screen_def s1_def cursor_ok_def nat_add_distrib)
  then show "abs_screen (putc_terminal c s) = term_put c (abs_screen s)"
    unfolding put using assms scroll by (auto simp: term_put_def cursor_ok_def)
  show "cursor_ok (putc_terminal c s)"
    unfolding put using assms(1) by (auto simp: cursor_ok_def s1_def)
qed

lemma putc_terminal_refines:
  "cursor_ok s \<Longrightarrow> c \<noteq> 9 \<Longrightarrow> abs_screen (putc_terminal c s) = term_put c (abs_screen s)"
  "cursor_ok s \<Longrightarrow> c \<noteq> 9 \<Longrightarrow> cursor_ok (putc_terminal c s)"
  using putc_terminal_printable [of s c] putc_terminal_newline [of s c] by blast+

lemma fold_putc_terminal_refines:
  "cursor_ok s \<Longrightarrow> 9 \<notin> set cs \<Longrightarrow> abs_screen (fold putc_terminal cs s) = fold term_put cs (abs_screen s)"
  "cursor_ok s \<Longrightarrow> 9 \<notin> set cs \<Longrightarrow> cursor_ok (fold putc_terminal cs s)"
  by (induction cs arbitrary: s) (simp_all add: putc_terminal_refines)

section \<open>Where the screen routines write\<close>

abbreviation outside_screen :: "addr \<Rightarrow> bool" where
  "outside_screen x \<equiv> \<not> in_region VIDEO 4000 x"

lemma in_region_video:
  assumes "0 \<le> k" "k < 2000"
  shows "in_region VIDEO 4000 (video_char k)" "in_region VIDEO 4000 (video_attr k)"
proof -
  have "video_char k = VIDEO + of_nat (nat (2 * k))" "video_attr k = VIDEO + of_nat (nat (2 * k + 1))"
    using assms by (simp_all add: video_char_def video_attr_def)
  moreover have "nat (2 * k) < 4000" "nat (2 * k + 1) < 4000" using assms by auto
  ultimately show "in_region VIDEO 4000 (video_char k)" "in_region VIDEO 4000 (video_attr k)"
    by (simp_all add: in_region_offset del: of_nat_nat nat_mult_distrib)
qed

lemma outside_not_cell:
  "outside_screen x \<Longrightarrow> 0 \<le> k \<Longrightarrow> k < 2000 \<Longrightarrow> x \<noteq> video_char k \<and> x \<noteq> video_attr k"
  using in_region_video [of k] by auto

lemma scroll_outside:
  assumes "outside_screen x"
  shows "clear_bottom (scroll_rows m) x = m x"
proof -
  have "x \<noteq> video_char (int k)" if "k < 2000" for k
    using outside_not_cell [OF assms, of "int k"] that by simp
  then have "\<not> (\<exists>k<1920. x = video_char (int k))" "\<not> (\<exists>k<2000. x = video_char (int k))" by auto
  then show ?thesis by (simp add: scroll_rows_at(2) clear_bottom_at(2))
qed

lemma cursor_cell_range:
  "cursor_ok s \<Longrightarrow> 0 \<le> NUM_COLS * screen_y s + screen_x s \<and> NUM_COLS * screen_y s + screen_x s < 2000"
  by (simp add: cursor_ok_def console_consts)

lemma store_cell_outside:
  "cursor_ok s \<Longrightarrow> outside_screen x \<Longrightarrow> mem (store_cell c s) x = mem s x"
  using cursor_cell_range [of s] outside_not_cell [of x] by (simp add: store_cell_def Let_def)

lemma putc_terminal_outside:
  assumes "cursor_ok s" "outside_screen x"
  shows "mem (putc_terminal c s) x = mem s x"
proof -
  have adv: "mem (advance_cursor s') = mem s'" for s' :: "'a console_scheme"
    by (simp add: advance_cursor_def Let_def)
  show ?thesis
    using store_cell_outside [OF assms] scroll_outside [OF assms(2)]
    by (simp add: putc_terminal_def Let_def adv)
qed

lemma deletec_step_outside:
  assumes "cursor_ok s" "0 < screen_x s \<or> 0 < screen_y s" "outside_screen x"
  shows "mem (deletec_step s) x = mem s x" "cursor_ok (deletec_step s)"
  using assms outside_not_cell [of x "NUM_COLS * screen_y s + screen_x s - 1"]
    outside_not_cell [of x "NUM_COLS * (screen_y s - 1) + NUM_COLS - 1"]
  by (auto simp: deletec_step_def cursor_ok_def console_consts)

text \<open>Deleting a character just typed brings the cursor back and blanks the cell.\<close>

lemma deletec_after_putc:
  assumes "cursor_ok s" "c \<noteq> 9" "c \<noteq> 10" "c \<noteq> 13" "\<not> (screen_y s = 24 \<and> screen_x s = 79)"
  shows "abs_screen (deletec_terminal c (putc_terminal c s)) =
     (abs_screen s)\<lparr>chars := (chars (abs_screen s))[80 * cur_y (abs_screen s) + cur_x (abs_screen s) := 32]\<rparr>"
proof (rule abs_screen_eqI)
  define p where "p = 80 * nat (screen_y s) + nat (screen_x s)"
  have pos: "80 * screen_y s + screen_x s = int p" using assms by (simp add: cursor_ok_def p_def)
  have nb: "\<not> (24 \<le> screen_y s \<and> 79 \<le> screen_x s)" using assms by (auto simp: cursor_ok_def)
  have ok: "cursor_ok (store_cell c s)" using assms(1) by (simp add: cursor_ok_def)
  note adv = advance_cursor_ok [OF ok, unfolded store_cell_frame, OF nb]
  have del: "deletec_terminal c (putc_terminal c s) = deletec_step (set_cursor_pos (advance_cursor (store_cell c s)))"
    using assms nb by (auto simp: deletec_terminal_def putc_terminal_def Let_def console_consts)
  have m: "mem (deletec_terminal c (putc_terminal c s)) = (mem (store_cell c s))(video_char (int p) := 32)"
    unfolding del using assms pos by (auto simp: deletec_step_def adv console_consts cursor_ok_def)
  show "nat (screen_x (deletec_terminal c (putc_terminal c s))) =
      cur_x ((abs_screen s)\<lparr>chars := (chars (abs_screen s))[80 * cur_y (abs_screen s) + cur_x (abs_screen s) := 32]\<rparr>)"
    "nat (screen_y (deletec_terminal c (putc_terminal c s))) =
      cur_y ((abs_screen s)\<lparr>chars := (chars (abs_screen s))[80 * cur_y (abs_screen s) + cur_x (abs_screen s) := 32]\<rparr>)"
    unfolding del using assms by (auto simp: deletec_step_def adv console_consts cursor_ok_def)
  fix k :: nat assume k: "k < 2000"
  have "p < 2000" using assms pos by (simp add: cursor_ok_def)
  then show "mem (deletec_terminal c (putc_terminal c s)) (video_char (int k)) =
      chars ((abs_screen s)\<lparr>chars := (chars (abs_screen s))[80 * cur_y (abs_screen s) + cur_x (abs_screen s) := 32]\<rparr>) ! k"
    using k unfolding m
    by (simp add: store_cell_def Let_def console_consts pos nth_list_update p_def [symmetric])
qed simp

text \<open>
  The two ways out of the screen: a tab moves the column without bound, so the next character
  can land beyond the video page, and deleting at the top left corner writes before the screen.
\<close>

lemma putc_terminal_tabs:
  "screen_x (fold putc_terminal (replicate n 9) s) = screen_x s + 3 * int n"
  "screen_y (fold putc_terminal (replicate n 9) s) = screen_y s"
  "mem (fold putc_terminal (replicate n 9) s) = mem s"
  by (induction n arbitrary: s) (simp_all add: putc_terminal_def console_consts)

lemma deletec_at_origin:
  "screen_x s = 0 \<Longrightarrow> screen_y s = 0 \<Longrightarrow> c \<noteq> 9 \<Longrightarrow> mem (deletec_terminal c s) = (mem s)(VIDEO - 2 := 32)"
  by (simp add: deletec_terminal_def deletec_step_def console_consts video_char_def)

section \<open>clear\<close>

lemma clear_loop_at:
  "n \<le> 2000 \<Longrightarrow> k < 2000 \<Longrightarrow>
     fold (\<lambda>i m. (m(video_char (int i) := 32))(video_attr (int i) := ATTRIB)) [0..<n] m (video_char (int k)) =
       (if k < n then 32 else m (video_char (int k)))"
  by (induction n) auto

lemma abs_clear: "abs_screen (clear s) = (abs_screen s)\<lparr>chars := replicate 2000 32\<rparr>"
proof (rule abs_screen_eqI)
  fix k :: nat assume "k < 2000"
  then show "mem (clear s) (video_char (int k)) = chars ((abs_screen s)\<lparr>chars := replicate 2000 32\<rparr>) ! k"
    using clear_loop_at [of 2000 k "mem s"] by (simp add: clear_def console_consts)
qed (simp_all add: clear_def)

lemma clear_outside:
  assumes "outside_screen x"
  shows "mem (clear s) x = mem s x"
proof -
  have "fold (\<lambda>i m. (m(video_char (int i) := 32))(video_attr (int i) := ATTRIB)) [0..<n] m x = m x"
    if "n \<le> 2000" for n m
    using that outside_not_cell [OF assms] by (induction n) auto
  then show ?thesis by (simp add: clear_def console_consts)
qed

section \<open>Properties\<close>

lemma fold_putc_outside:
  "cursor_ok s \<Longrightarrow> 9 \<notin> set cs \<Longrightarrow> outside_screen x \<Longrightarrow> mem (fold putc_terminal cs s) x = mem s x"
proof (induction cs arbitrary: s)
  case (Cons c cs)
  then show ?case using putc_terminal_refines(2) [of s c] by (simp add: putc_terminal_outside)
qed simp

text \<open>
  C10. Printing any text without tabs through \<open>putc_terminal\<close> does on the character plane what the
  abstract terminal does: cells fill from left to right, lines wrap, newlines move down, the
  screen scrolls at its bottom, and the cursor stays on the screen.
\<close>

theorem terminal_output_refines:
  assumes "cursor_ok s" "9 \<notin> set cs"
  shows "abs_screen (fold putc_terminal cs s) = fold term_put cs (abs_screen s) \<and> cursor_ok (fold putc_terminal cs s)"
  using fold_putc_terminal_refines [OF assms] by blast

definition blank_console :: console where
  "blank_console = \<lparr>mem = \<lambda>_. 0, port_log = [], device = \<lambda>_ _. 0, if_flag = False,
     master_mask = 0xFF, slave_mask = 0xFF, screen_x = 79, screen_y = 24\<rparr>"

theorem terminal_output_refines_witness:
  "abs_screen (fold putc_terminal [72, 105, 10] blank_console) = fold term_put [72, 105, 10] (abs_screen blank_console) \<and>
     cursor_ok (fold putc_terminal [72, 105, 10] blank_console)"
  by (rule terminal_output_refines) (simp_all add: cursor_ok_def blank_console_def)

text \<open>
  With the cursor on the screen, no text without tabs makes \<open>putc_terminal\<close> write a byte
  outside the 4000 bytes of video memory that the screen occupies.
\<close>

theorem terminal_output_stays_on_screen:
  assumes "cursor_ok s" "9 \<notin> set cs" "\<not> in_region VIDEO 4000 x"
  shows "mem (fold putc_terminal cs s) x = mem s x"
  using assms by (rule fold_putc_outside)

theorem terminal_output_stays_on_screen_witness:
  "mem (fold putc_terminal [72, 105, 10] blank_console) 0xB7FFE = 0"
  using terminal_output_stays_on_screen [of blank_console "[72, 105, 10]" "0xB7FFE"]
  by (simp add: cursor_ok_def blank_console_def in_region_def VIDEO_def)

text \<open>
  C11. Deleting the character just printed puts the cursor back where it was and leaves a blank in
  the cell, wherever the character did not scroll the screen.
\<close>

theorem delete_undoes_put:
  assumes "cursor_ok s" "c \<notin> {9, 10, 13}" "(screen_x s, screen_y s) \<noteq> (79, 24)"
  shows "abs_screen (deletec_terminal c (putc_terminal c s)) =
     (abs_screen s)\<lparr>chars := (chars (abs_screen s))[80 * nat (screen_y s) + nat (screen_x s) := 32]\<rparr>"
  using deletec_after_putc [of s c] assms by auto

theorem delete_undoes_put_witness:
  "abs_screen (deletec_terminal 97 (putc_terminal 97 (blank_console\<lparr>screen_x := 79, screen_y := 3\<rparr>))) =
     (abs_screen (blank_console\<lparr>screen_x := 79, screen_y := 3\<rparr>))\<lparr>chars := (replicate 2000 0)[319 := 32]\<rparr>"
proof -
  have "chars (abs_screen (blank_console\<lparr>screen_x := 79, screen_y := 3\<rparr>)) = replicate 2000 0"
    by (simp add: abs_screen_def blank_console_def map_replicate_const)
  then show ?thesis
    using delete_undoes_put [of "blank_console\<lparr>screen_x := 79, screen_y := 3\<rparr>" 97]
    by (simp add: cursor_ok_def blank_console_def)
qed



end
