(* ===== verification/Printf.thy ===== *)
theory Printf
  imports Console
begin

text \<open>
  \<open>printf\<close> of \<^verbatim>\<open>student-distrib/lib.c\<close>, statement by statement: the scan of the format string, the conversion
  buffers on the stack and the walk over the arguments. The reference is a formatter on lists; the
  property is that \<open>printf\<close> prints what the formatter says.
\<close>

section \<open>Definitions\<close>

text \<open>
  Each conversion block has its own array \<open>conv_buf\<close>; \<open>cb\<close> gives the address of the array in the block of a
  conversion character. \<open>esp\<close> walks over the words that the caller pushed. The functions of the loop return
  the final \<open>buf\<close>.
\<close>

function pad_zeros :: "addr \<Rightarrow> int \<Rightarrow> memory \<Rightarrow> memory" where
  "pad_zeros conv_buf i m =
     (if i < 8 then pad_zeros conv_buf (i + 1) (m(conv_buf + of_int i := 48)) else m)"
  by pat_completeness auto
termination
  by (relation "measure (\<lambda>(conv_buf, i, m). nat (8 - i))") auto

declare pad_zeros.simps [simp del]

definition print_hex :: "addr \<Rightarrow> bool \<Rightarrow> u32 \<Rightarrow> 'a console_scheme \<Rightarrow> 'a console_scheme option" where
  "print_hex conv_buf alternate v s =
     (if \<not> alternate then do {
        m \<leftarrow> itoa (mem s) v conv_buf 16;
        (s1, _) \<leftarrow> puts conv_buf (s\<lparr>mem := m\<rparr>);
        Some s1 }
      else do {
        m \<leftarrow> itoa (mem s) v (conv_buf + 8) 16;
        starting_index \<leftarrow> strlen m (conv_buf + 8);
        (s1, _) \<leftarrow> puts (conv_buf + starting_index) (s\<lparr>mem := pad_zeros conv_buf (sint starting_index) m\<rparr>);
        Some s1 })"

definition print_unsigned :: "addr \<Rightarrow> u32 \<Rightarrow> 'a console_scheme \<Rightarrow> 'a console_scheme option" where
  "print_unsigned conv_buf v s =
     do { m \<leftarrow> itoa (mem s) v conv_buf 10; (s1, _) \<leftarrow> puts conv_buf (s\<lparr>mem := m\<rparr>); Some s1 }"

definition print_signed :: "addr \<Rightarrow> u32 \<Rightarrow> 'a console_scheme \<Rightarrow> 'a console_scheme option" where
  "print_signed conv_buf value s =
     do { m \<leftarrow> (if sint value < 0 then itoa ((mem s)(conv_buf := 45)) (- value) (conv_buf + 1) 10
                else itoa (mem s) value conv_buf 10);
          (s1, _) \<leftarrow> puts conv_buf (s\<lparr>mem := m\<rparr>);
          Some s1 }"

text \<open>The switch on the conversion character: the new \<open>buf\<close>, the new \<open>esp\<close> and the state.\<close>

partial_function (option) format_char_switch ::
  "(byte \<Rightarrow> addr) \<Rightarrow> bool \<Rightarrow> addr \<Rightarrow> addr \<Rightarrow> 'a console_scheme \<Rightarrow> (addr \<times> addr \<times> 'a console_scheme) option" where
  "format_char_switch cb alternate buf esp s =
     (let c = mem s buf; arg = load32 (mem s) esp
      in if c = 37 then Some (buf, esp, putc 37 s)
         else if c = 35 then format_char_switch cb True (buf + 1) esp s
         else if c = 120 then do { s1 \<leftarrow> print_hex (cb c) alternate arg s; Some (buf, esp + 4, s1) }
         else if c = 117 then do { s1 \<leftarrow> print_unsigned (cb c) arg s; Some (buf, esp + 4, s1) }
         else if c = 100 then do { s1 \<leftarrow> print_signed (cb c) arg s; Some (buf, esp + 4, s1) }
         else if c = 99 then Some (buf, esp + 4, putc (ucast arg) s)
         else if c = 115 then do { (s1, _) \<leftarrow> puts arg s; Some (buf, esp + 4, s1) }
         else Some (buf, esp, s))"

partial_function (option) printf_loop ::
  "(byte \<Rightarrow> addr) \<Rightarrow> addr \<Rightarrow> addr \<Rightarrow> 'a console_scheme \<Rightarrow> (addr \<times> 'a console_scheme) option" where
  "printf_loop cb buf esp s =
     (if mem s buf = 0 then Some (buf, s)
      else if mem s buf = 37 then do {
        (buf1, esp1, s1) \<leftarrow> format_char_switch cb False (buf + 1) esp s;
        printf_loop cb (buf1 + 1) esp1 s1 }
      else printf_loop cb (buf + 1) esp (putc (mem s buf) s))"

text \<open>\<open>frame\<close> is the address of the parameter \<open>format\<close> on the stack; the other arguments follow it.\<close>

definition printf :: "(byte \<Rightarrow> addr) \<Rightarrow> addr \<Rightarrow> 'a console_scheme \<Rightarrow> (u32 \<times> 'a console_scheme) option" where
  "printf cb frame s =
     (let format = load32 (mem s) frame
      in do { (buf, s1) \<leftarrow> printf_loop cb format (frame + 4) s; Some (buf - format, s1) })"

section \<open>The reference formatter\<close>

definition signed_text :: "u32 \<Rightarrow> byte list" where
  "signed_text v = (if sint v < 0 then 45 # itoa_text 10 (nat (- sint v)) else itoa_text 10 (nat (sint v)))"

definition hex_text :: "bool \<Rightarrow> u32 \<Rightarrow> byte list" where
  "hex_text alt v =
     (let t = itoa_text 16 (unat v) in if alt then replicate (8 - length t) 48 @ t else t)"

definition arg_text :: "(addr \<Rightarrow> byte list option) \<Rightarrow> bool \<Rightarrow> byte \<Rightarrow> u32 \<Rightarrow> byte list option" where
  "arg_text str alt c v =
     (if c = 120 then Some (hex_text alt v)
      else if c = 117 then Some (itoa_text 10 (unat v))
      else if c = 100 then Some (signed_text v)
      else if c = 99 then Some [ucast v]
      else str v)"

text \<open>
  \<open>str\<close> gives the strings that arguments of \<open>%s\<close> may point to. The result \<open>None\<close>: an argument is missing or does not
  point to a string, or the format ends inside a conversion, where the code runs past its end.
\<close>

fun fmt_text :: "(addr \<Rightarrow> byte list option) \<Rightarrow> byte list \<Rightarrow> u32 list \<Rightarrow> byte list option"
  and conv_text :: "(addr \<Rightarrow> byte list option) \<Rightarrow> bool \<Rightarrow> byte list \<Rightarrow> u32 list \<Rightarrow> byte list option" where
  "fmt_text str [] args = Some []"
| "fmt_text str (c # f) args =
     (if c = 37 then conv_text str False f args else map_option ((#) c) (fmt_text str f args))"
| "conv_text str alt [] args = None"
| "conv_text str alt (c # f) args =
     (if c = 37 then map_option ((#) 37) (fmt_text str f args)
      else if c = 35 then conv_text str True f args
      else if c \<in> {120, 117, 100, 99, 115} then
        (case args of [] \<Rightarrow> None | a # as \<Rightarrow> do { t \<leftarrow> arg_text str alt c a; u \<leftarrow> fmt_text str f as; Some (t @ u) })
      else fmt_text str f args)"

section \<open>Printing text\<close>

definition newline :: "byte \<Rightarrow> bool" where
  "newline c \<longleftrightarrow> c = 10 \<or> c = 13"

abbreviation newlines :: "byte list \<Rightarrow> nat" where
  "newlines t \<equiv> length (filter newline t)"

text \<open>\<open>putc\<close> never scrolls: newlines move the cursor below the screen, into the rest of the 32 KB of video memory.\<close>

definition rows_ok :: "nat \<Rightarrow> 'a console_scheme \<Rightarrow> bool" where
  "rows_ok n s \<longleftrightarrow> 24 \<le> n \<and> 0 \<le> screen_x s \<and> screen_x s < 80 \<and> 0 \<le> screen_y s \<and> screen_y s \<le> int n"

abbreviation video_page :: "(addr \<times> nat) list" where
  "video_page \<equiv> [(VIDEO, 0x8000)]"

lemma in_video_page:
  assumes "0 \<le> k" "k < 0x4000"
  shows "in_region VIDEO 0x8000 (video_char k)" "in_region VIDEO 0x8000 (video_attr k)"
proof -
  have "video_char k = VIDEO + of_nat (nat (2 * k))" "video_attr k = VIDEO + of_nat (nat (2 * k + 1))"
    using assms by (simp_all add: video_char_def video_attr_def)
  moreover have "nat (2 * k) < 0x8000" "nat (2 * k + 1) < 0x8000" using assms by auto
  ultimately show "in_region VIDEO 0x8000 (video_char k)" "in_region VIDEO 0x8000 (video_attr k)"
    by (simp_all add: in_region_offset del: of_nat_nat nat_mult_distrib)
qed

lemma putc_rows:
  assumes "rows_ok n s"
  shows "rows_ok (n + newlines [c]) (putc c s)"
proof (cases "newline c")
  case True
  then show ?thesis using assms by (auto simp: putc_def newline_def rows_ok_def)
next
  case False
  have "screen_x s = 79 \<or> screen_x s + 1 < 80" using assms by (auto simp: rows_ok_def)
  then show ?thesis
    using False assms pos_mod_bound [of 25 "screen_y s + 1"]
    by (auto simp: putc_def newline_def rows_ok_def advance_cursor_def Let_def console_consts smod_nonneg sdiv_nonneg
        intro: order_trans [OF zmod_le_nonneg_dividend])
qed

lemma putc_writes:
  assumes "rows_ok n s" "n \<le> 200"
  shows "frame_out video_page (mem s) (mem (putc c s))"
proof -
  have "0 \<le> NUM_COLS * screen_y s + screen_x s" "NUM_COLS * screen_y s + screen_x s < 0x4000"
    using assms by (auto simp: rows_ok_def console_consts)
  note v = in_video_page [OF this]
  show ?thesis using v by (auto simp: frame_out_def putc_def advance_cursor_def store_cell_def Let_def)
qed

lemma fold_putc:
  "rows_ok n s \<Longrightarrow> n + newlines t \<le> 200 \<Longrightarrow>
     frame_out video_page (mem s) (mem (fold putc t s)) \<and> rows_ok (n + newlines t) (fold putc t s)"
proof (induction t arbitrary: n s)
  case (Cons c t)
  have "frame_out video_page (mem (putc c s)) (mem (fold putc t (putc c s))) \<and>
      rows_ok (n + newlines [c] + newlines t) (fold putc t (putc c s))"
    using Cons.IH [OF putc_rows [OF Cons.prems(1), of c]] Cons.prems(2) by (auto split: if_splits)
  moreover have "frame_out video_page (mem s) (mem (putc c s))" using putc_writes [OF Cons.prems(1)] Cons.prems(2) by (auto split: if_splits)
  ultimately show ?case by (auto intro: frame_out_step split: if_splits)
qed simp

lemma puts_text:
  assumes c: "cstr_at (mem s) p t" and v: "separate p (Suc (length t)) VIDEO 0x8000" and rows: "rows_ok n s" "n + newlines t \<le> 200"
  shows "puts p s = Some (fold putc t s, of_nat (length t))"
proof -
  have len: "length t < 4294967296" by (rule cstr_at_length [OF c])
  have "puts_from p (of_nat i) (fold putc (take i t) s) = Some (fold putc t s, of_nat (length t))" if "i \<le> length t" for i
    using that
  proof (induction "length t - i" arbitrary: i)
    case 0
    then have i: "i = length t" by simp
    have "frame_out video_page (mem s) (mem (fold putc t s))" using fold_putc [OF rows] by simp
    then have "cstr_at (mem (fold putc t s)) p t"
      by (rule cstr_at_frame [OF _ _ c]) (use v in \<open>auto simp: separate_sym\<close>)
    then show ?case using cstr_at_end i by (subst puts_from.simps) auto
  next
    case (Suc k)
    then have i: "i < length t" by simp
    have "newlines (take i t) \<le> newlines t"
      by (metis append_take_drop_id filter_append length_append le_add1)
    then have "frame_out video_page (mem s) (mem (fold putc (take i t) s))" using fold_putc [OF rows(1), of "take i t"] rows(2) by simp
    then have "cstr_at (mem (fold putc (take i t) s)) p t"
      by (rule cstr_at_frame [OF _ _ c]) (use v in \<open>auto simp: separate_sym\<close>)
    then have rd: "mem (fold putc (take i t) s) (p + of_nat i) = t ! i" "t ! i \<noteq> 0"
      using cstr_at_nth [OF _ i] cstr_at_nth_nonzero [OF _ i] by metis+
    have "puts_from p (of_nat i) (fold putc (take i t) s) = puts_from p (of_nat (Suc i)) (fold putc (take (Suc i) t) s)"
      using rd i by (subst puts_from.simps) (simp add: take_Suc_conv_app_nth add.commute)
    also have "\<dots> = Some (fold putc t s, of_nat (length t))" using Suc.hyps i by (intro Suc.hyps(1)) auto
    finally show ?case .
  qed
  from this [of 0] show ?thesis by (simp add: puts_def)
qed

text \<open>
  The states of the reference and of the code differ in the conversion buffers only, and keep doing so while
  text is printed.
\<close>

definition same_but :: "(addr \<times> nat) list \<Rightarrow> 'a console_scheme \<Rightarrow> 'a console_scheme \<Rightarrow> bool" where
  "same_but rs r s \<longleftrightarrow> s = r\<lparr>mem := mem s\<rparr> \<and> frame_out rs (mem r) (mem s)"

lemma putc_mem: "mem (putc c s) = (if newline c then mem s
    else ((mem s)(video_char (NUM_COLS * screen_y s + screen_x s) := c))(video_attr (NUM_COLS * screen_y s + screen_x s) := ATTRIB))"
  by (simp add: putc_def newline_def advance_cursor_def store_cell_def Let_def)

lemma putc_other: "putc c (r\<lparr>mem := m\<rparr>) = (putc c r)\<lparr>mem := mem (putc c (r\<lparr>mem := m\<rparr>))\<rparr>"
  by (simp add: putc_def advance_cursor_def store_cell_def Let_def set_cursor_pos_def outw_def)

lemma same_but_putc:
  assumes "same_but rs r s"
  shows "same_but rs (putc c r) (putc c s)"
proof -
  obtain m where s: "s = r\<lparr>mem := m\<rparr>" and f: "frame_out rs (mem r) m" using assms by (metis same_but_def)
  have "frame_out rs (mem (putc c r)) (mem (putc c s))" using f by (auto simp: s putc_mem frame_out_def)
  then show ?thesis using putc_other [where c = c and r = r and m = m] by (simp add: same_but_def s)
qed

lemma same_but_fold: "same_but rs r s \<Longrightarrow> same_but rs (fold putc t r) (fold putc t s)"
  by (induction t arbitrary: r s) (simp_all add: same_but_putc)

lemma same_but_store:
  assumes "same_but rs r s" "frame_out rs (mem s) m"
  shows "same_but rs r (s\<lparr>mem := m\<rparr>)"
proof -
  obtain m0 where s: "s = r\<lparr>mem := m0\<rparr>" and f: "frame_out rs (mem r) m0" using assms(1) by (metis same_but_def)
  then show ?thesis using frame_out_step [OF f, of rs m] assms(2) by (simp add: same_but_def)
qed

section \<open>Conversions\<close>

definition conv_bufs :: "(byte \<Rightarrow> addr) \<Rightarrow> (addr \<times> nat) list" where
  "conv_bufs cb = [(cb 120, 64), (cb 117, 36), (cb 100, 36)]"

text \<open>Printing from a conversion buffer.\<close>

lemma print_buffer:
  assumes sb: "same_but rs r s" and m: "frame_out rs (mem s) m" and c: "cstr_at m p t"
    and v: "separate p (Suc (length t)) VIDEO 0x8000" and rows: "rows_ok n s" "n + newlines t \<le> 200"
  obtains s1 where "puts p (s\<lparr>mem := m\<rparr>) = Some (s1, of_nat (length t))" "same_but rs (fold putc t r) s1"
    "frame_out (video_page @ rs) (mem s) (mem s1)" "rows_ok (n + newlines t) s1"
proof -
  have rows': "rows_ok n (s\<lparr>mem := m\<rparr>)" using rows(1) by (simp add: rows_ok_def)
  have run: "puts p (s\<lparr>mem := m\<rparr>) = Some (fold putc t (s\<lparr>mem := m\<rparr>), of_nat (length t))"
    using c by (intro puts_text [OF _ v rows' rows(2)]) simp
  note f = fold_putc [OF rows' rows(2)]
  have "frame_out (video_page @ rs) (mem s) m" using m by (rule frame_out_weaken) auto
  then have "frame_out (video_page @ rs) (mem s) (mem (fold putc t (s\<lparr>mem := m\<rparr>)))"
    by (rule frame_out_step [where qs = video_page]) (use f in simp_all)
  from that [OF run same_but_fold [OF same_but_store [OF sb m]] this] f show thesis by simp
qed

lemma digits_10: "length (itoa_text 10 (unat (v :: u32))) \<le> 10"
  using unat_addr_lt [of v] by (intro length_itoa_text) simp_all

lemma digits_16: "length (itoa_text 16 (unat (v :: u32))) \<le> 8"
  using unat_addr_lt [of v] by (intro length_itoa_text) simp_all

lemma print_unsigned_text:
  assumes sb: "same_but rs r s" and b: "(p, 36) \<in> set rs" "separate p 36 VIDEO 0x8000"
    and t: "t = itoa_text 10 (unat v)" and rows: "rows_ok n s" "n + newlines t \<le> 200"
  obtains s1 where "print_unsigned p v s = Some s1" "same_but rs (fold putc t r) s1"
    "frame_out (video_page @ rs) (mem s) (mem s1)" "rows_ok (n + newlines t) s1"
proof -
  define m where "m = store_bytes (mem s) p (t @ [0])"
  have len: "length t \<le> 10" unfolding t by (rule digits_10)
  have i: "itoa (mem s) v p 10 = Some m" using itoa_text_eq [of 10 "mem s" v p] by (simp add: m_def t)
  have c: "cstr_at m p t" unfolding m_def by (rule cstr_at_store_bytes) (use len in \<open>simp_all add: t set_itoa_text\<close>)
  have "frame_out [(p, 36)] (mem s) m" unfolding m_def by (rule frame_out_store_bytes) (use len in simp)
  then have f: "frame_out rs (mem s) m" by (rule frame_out_weaken) (use b in simp)
  have v: "separate p (Suc (length t)) VIDEO 0x8000"
    using separate_sub [OF b(2), of 0 "Suc (length t)" 0 "0x8000"] len by simp
  obtain s1 where "puts p (s\<lparr>mem := m\<rparr>) = Some (s1, of_nat (length t))" and o: "same_but rs (fold putc t r) s1"
    "frame_out (video_page @ rs) (mem s) (mem s1)" "rows_ok (n + newlines t) s1"
    by (rule print_buffer [OF sb f c v rows])
  then have "print_unsigned p v s = Some s1" by (simp add: print_unsigned_def i)
  from that [OF this o] show thesis .
qed

lemma unat_of_int_u32: "0 \<le> k \<Longrightarrow> k < 4294967296 \<Longrightarrow> unat (of_int k :: u32) = nat k"
  by (simp add: unat_eq_nat_uint unsigned_of_int take_bit_int_eq_self)

lemma print_signed_text:
  assumes sb: "same_but rs r s" and b: "(p, 36) \<in> set rs" "separate p 36 VIDEO 0x8000"
    and t: "t = signed_text v" and rows: "rows_ok n s" "n + newlines t \<le> 200"
  obtains s1 where "print_signed p v s = Some s1" "same_but rs (fold putc t r) s1"
    "frame_out (video_page @ rs) (mem s) (mem s1)" "rows_ok (n + newlines t) s1"
proof -
  define u where "u = (if sint v < 0 then - v else v)"
  have u: "unat u = (if sint v < 0 then nat (- sint v) else nat (sint v))"
    using unat_of_int_u32 [of "- sint v"] unat_of_int_u32 [of "sint v"] sint_lt [of v] sint_ge [of v] by (auto simp: u_def)
  define ds where "ds = itoa_text 10 (unat u)"
  have tt: "t = (if sint v < 0 then [45] else []) @ ds" by (simp add: t signed_text_def ds_def u)
  have len: "length ds \<le> 10" unfolding ds_def by (rule digits_10)
  define m where "m = store_bytes (mem s) p (t @ [0])"
  have i: "(if sint v < 0 then itoa ((mem s)(p := 45)) (- v) (p + 1) 10 else itoa (mem s) v p 10) = Some m"
  proof (cases "sint v < 0")
    case True
    have "store_bytes ((mem s)(p := 45)) (p + 1) (ds @ [0]) = store_bytes (mem s) p (45 # ds @ [0])"
      using store_bytes_append [of "[45]" "ds @ [0]" "mem s" p] store_bytes_snoc [of "[]" "mem s" p 45] len by simp
    then show ?thesis
      using True itoa_text_eq [of 10 "(mem s)(p := 45)" u "p + 1"] by (simp add: m_def tt ds_def u_def)
  next
    case False
    then show ?thesis using itoa_text_eq [of 10 "mem s" u p] by (simp add: m_def tt ds_def u_def)
  qed
  have z: "0 \<notin> set t" unfolding tt by (simp add: ds_def set_itoa_text)
  have c: "cstr_at m p t" unfolding m_def by (rule cstr_at_store_bytes) (use len z in \<open>simp_all add: tt\<close>)
  have "frame_out [(p, 36)] (mem s) m" unfolding m_def by (rule frame_out_store_bytes) (use len in \<open>simp add: tt\<close>)
  then have f: "frame_out rs (mem s) m" by (rule frame_out_weaken) (use b in simp)
  have v: "separate p (Suc (length t)) VIDEO 0x8000"
    using separate_sub [OF b(2), of 0 "Suc (length t)" 0 "0x8000"] len by (simp add: tt)
  obtain s1 where "puts p (s\<lparr>mem := m\<rparr>) = Some (s1, of_nat (length t))" and o: "same_but rs (fold putc t r) s1"
    "frame_out (video_page @ rs) (mem s) (mem s1)" "rows_ok (n + newlines t) s1"
    by (rule print_buffer [OF sb f c v rows])
  then have "print_signed p v s = Some s1" by (simp add: print_signed_def i)
  from that [OF this o] show thesis .
qed

lemma pad_zeros_eq: "i \<le> 8 \<Longrightarrow> pad_zeros p (int i) m = store_bytes m (p + of_nat i) (replicate (8 - i) 48)"
proof (induction "8 - i" arbitrary: i m)
  case 0
  then show ?case by (subst pad_zeros.simps) simp
next
  case (Suc k)
  then have i: "i < 8" "8 - i = Suc (8 - Suc i)" by simp_all
  have "pad_zeros p (int i) m = pad_zeros p (int (Suc i)) (m(p + of_nat i := 48))"
    using i by (subst pad_zeros.simps) (simp add: add.commute)
  also have "\<dots> = store_bytes (m(p + of_nat i := 48)) (p + of_nat (Suc i)) (replicate (8 - Suc i) 48)"
    using Suc by (intro Suc.hyps(1)) auto
  also have "\<dots> = store_bytes m (p + of_nat i) ([48] @ replicate (8 - Suc i) 48)"
    using store_bytes_append [of "[48]" "replicate (8 - Suc i) 48" m "p + of_nat i"] store_bytes_snoc [of "[]" m "p + of_nat i" 48] i
    by (simp add: add.assoc [symmetric] add.commute [of 1])
  finally show ?case using i by simp
qed

lemma print_hex_text:
  assumes sb: "same_but rs r s" and b: "(p, 64) \<in> set rs" "separate p 64 VIDEO 0x8000"
    and t: "t = hex_text alt v" and rows: "rows_ok n s" "n + newlines t \<le> 200"
  obtains s1 where "print_hex p alt v s = Some s1" "same_but rs (fold putc t r) s1"
    "frame_out (video_page @ rs) (mem s) (mem s1)" "rows_ok (n + newlines t) s1"
proof -
  define d where "d = itoa_text 16 (unat v)"
  define k where "k = length d"
  have len: "k \<le> 8" unfolding d_def k_def by (rule digits_16)
  have zd: "0 \<notin> set d" by (simp add: d_def set_itoa_text)
  define q where "q = (if alt then p + of_nat k else p)"
  define m where "m = (if alt then store_bytes (store_bytes (mem s) (p + 8) (d @ [0])) (p + of_nat k) (replicate (8 - k) 48)
    else store_bytes (mem s) p (d @ [0]))"
  have tt: "t = (if alt then replicate (8 - k) 48 else []) @ d" by (simp add: t hex_text_def d_def k_def Let_def)
  have i: "itoa (mem s) v a 16 = Some (store_bytes (mem s) a (d @ [0]))" for a
    using itoa_text_eq [of 16 "mem s" v a] by (simp add: d_def)
  have c: "cstr_at m q t"
  proof (cases alt)
    case False
    then show ?thesis using cstr_at_store_bytes [of d "mem s" p] len zd by (simp add: m_def q_def tt k_def)
  next
    case True
    have e: "p + 8 = p + of_nat k + of_nat (length (replicate (8 - k) (48 :: byte)))" using len by (simp add: of_nat_diff)
    have comm: "m = store_bytes (store_bytes (mem s) (p + of_nat k) (replicate (8 - k) 48)) (p + 8) (d @ [0])"
    proof
      fix x
      have "\<not> (in_region (p + of_nat k) (8 - k) x \<and> in_region (p + 8) (k + 1) x)"
      proof
        assume a: "in_region (p + of_nat k) (8 - k) x \<and> in_region (p + 8) (k + 1) x"
        have "p - (p + 8) = (4294967288 :: u32)" by simp
        then have "separate p 8 (p + 8) (k + 1)" using len by (simp add: separate_def)
        from separate_sub [OF this, of k "8 - k" 0 "k + 1"] len have "separate (p + of_nat k) (8 - k) (p + 8) (k + 1)" by simp
        then show False using a separateD by blast
      qed
      then show "m x = store_bytes (store_bytes (mem s) (p + of_nat k) (replicate (8 - k) 48)) (p + 8) (d @ [0]) x"
        using True by (auto simp: m_def store_bytes_def k_def)
    qed
    have "m = store_bytes (mem s) (p + of_nat k) (replicate (8 - k) 48 @ (d @ [0]))"
      unfolding comm e by (rule store_bytes_append) (use len in \<open>simp add: k_def\<close>)
    then show ?thesis
      using cstr_at_store_bytes [of "replicate (8 - k) 48 @ d" "mem s" "p + of_nat k"] len zd True by (simp add: q_def tt k_def)
  qed
  have fo: "frame_out [(p, 64)] (mem s) m"
  proof (cases alt)
    case True
    have "frame_out [(p, 64)] (mem s) (store_bytes (mem s) (p + of_nat 8) (d @ [0]))"
      by (rule frame_out_store_at) (use len in \<open>simp add: k_def\<close>)
    moreover have "frame_out [(p, 64)] (store_bytes (mem s) (p + of_nat 8) (d @ [0])) m"
      using True frame_out_store_at [of k "replicate (8 - k) 48" 64 p "store_bytes (mem s) (p + of_nat 8) (d @ [0])"] len by (simp add: m_def)
    ultimately show ?thesis by (rule frame_out_step) simp
  next
    case False
    then show ?thesis using frame_out_store_bytes [of "d @ [0]" 64 p "mem s"] len by (simp add: m_def k_def)
  qed
  then have f: "frame_out rs (mem s) m" by (rule frame_out_weaken) (use b in simp)
  have v: "separate q (Suc (length t)) VIDEO 0x8000"
    using separate_sub [OF b(2), of k "Suc (length t)" 0 "0x8000"] separate_sub [OF b(2), of 0 "Suc (length t)" 0 "0x8000"] len
    by (auto simp: tt q_def k_def)
  obtain s1 where pt: "puts q (s\<lparr>mem := m\<rparr>) = Some (s1, of_nat (length t))" and o: "same_but rs (fold putc t r) s1"
    "frame_out (video_page @ rs) (mem s) (mem s1)" "rows_ok (n + newlines t) s1"
    by (rule print_buffer [OF sb f c v rows])
  have sl: "strlen (store_bytes (mem s) (p + 8) (d @ [0])) (p + 8) = Some (of_nat k)"
    using strlen_cstr [OF cstr_at_store_bytes [of d "mem s" "p + 8"]] len zd by (simp add: k_def)
  have "sint (of_nat k :: u32) = int k" using len by (intro sint_of_nat_u32) simp
  then have "print_hex p alt v s = Some s1"
    using pt i sl pad_zeros_eq [OF len, of p] by (cases alt) (simp_all add: print_hex_def q_def m_def)
  from that [OF this o] show thesis .
qed

section \<open>The loop\<close>

text \<open>What \<open>printf\<close> reads: the format, the arguments and the strings, away from the screen and from the buffers.\<close>

definition written :: "(byte \<Rightarrow> addr) \<Rightarrow> (addr \<times> nat) list" where
  "written cb = video_page @ conv_bufs cb"

definition readable :: "(byte \<Rightarrow> addr) \<Rightarrow> addr \<times> nat \<Rightarrow> bool" where
  "readable cb = (\<lambda>(a, n). list_all (\<lambda>(b, k). separate a n b k) (written cb))"

definition fmt_args :: "(byte \<Rightarrow> addr) \<Rightarrow> memory \<Rightarrow> byte list \<Rightarrow> addr \<Rightarrow> u32 list \<Rightarrow> addr \<Rightarrow> bool" where
  "fmt_args cb m f buf args esp \<longleftrightarrow> cstr_at m buf f \<and> readable cb (buf, Suc (length f)) \<and>
     map (\<lambda>i. load32 m (esp + 4 * of_nat i)) [0..<length args] = args \<and> readable cb (esp, 4 * length args)"

definition strings_ok :: "(byte \<Rightarrow> addr) \<Rightarrow> memory \<Rightarrow> (addr \<Rightarrow> byte list option) \<Rightarrow> bool" where
  "strings_ok cb m str \<longleftrightarrow> (\<forall>a t. str a = Some t \<longrightarrow> cstr_at m a t \<and> readable cb (a, Suc (length t)))"

definition bufs_ok :: "(byte \<Rightarrow> addr) \<Rightarrow> bool" where
  "bufs_ok cb \<longleftrightarrow> separate (cb 120) 64 VIDEO 0x8000 \<and> separate (cb 117) 36 VIDEO 0x8000 \<and> separate (cb 100) 36 VIDEO 0x8000"

lemma readable_sub: "readable cb (a, n) \<Longrightarrow> i + k \<le> n \<Longrightarrow> readable cb (a + of_nat i, k)"
  using separate_sub [of a n _ _ i k 0] by (fastforce simp: readable_def list_all_iff)

lemma readable_same: "readable cb (a, n) \<Longrightarrow> frame_out (written cb) m m' \<Longrightarrow> in_region a n x \<Longrightarrow> m' x = m x"
  by (rule frame_outD) (auto simp: readable_def list_all_iff separate_sym)

lemma fmt_args_char:
  assumes "fmt_args cb m (c # f) buf args esp" "frame_out (written cb) m m'"
  shows "m' buf = c" "c \<noteq> 0" "fmt_args cb m f (buf + 1) args esp"
proof -
  have a: "cstr_at m buf (c # f)" "readable cb (buf, Suc (Suc (length f)))" using assms(1) by (simp_all add: fmt_args_def)
  have "m' buf = m buf" by (rule readable_same [OF a(2) assms(2)]) (simp add: in_region_def)
  then show "m' buf = c" "c \<noteq> 0" using cstr_at_nth [OF a(1), of 0] a(1) by (auto simp: cstr_at_def)
  have "cstr_at m (buf + 1) f" using a(1) by (auto simp: cstr_at_def bytes_at_Suc' add.assoc)
  moreover have "readable cb (buf + 1, Suc (length f))" using readable_sub [OF a(2), of 1 "Suc (length f)"] by simp
  ultimately show "fmt_args cb m f (buf + 1) args esp" using assms(1) by (simp add: fmt_args_def)
qed

lemma fmt_args_arg:
  assumes "fmt_args cb m f buf (a # as) esp" "frame_out (written cb) m m'"
  shows "load32 m' esp = a" "fmt_args cb m f buf as (esp + 4)"
proof -
  have r: "readable cb (esp, 4 + 4 * length as)" and e: "map (\<lambda>i. load32 m (esp + 4 * of_nat i)) [0..<Suc (length as)] = a # as"
    using assms(1) by (simp_all add: fmt_args_def)
  have "load32 m' esp = load32 m esp"
    by (rule load32_cong) (rule readable_same [OF r assms(2)], auto elim: in_region_mono)
  then show "load32 m' esp = a" using e by (simp add: upt_conv_Cons del: upt_Suc)
  have "map (\<lambda>i. load32 m (esp + 4 + 4 * of_nat i)) [0..<length as] = as"
    using e by (simp add: upt_conv_Cons map_Suc_upt [symmetric] add.assoc comp_def del: upt_Suc)
  moreover have "readable cb (esp + 4, 4 * length as)" using readable_sub [OF r, of 4 "4 * length as"] by simp
  ultimately show "fmt_args cb m f buf as (esp + 4)" using assms(1) by (simp add: fmt_args_def)
qed

lemma print_piece:
  assumes "strings_ok cb m0 str" "bufs_ok cb" "frame_out (written cb) m0 (mem s)" "same_but (conv_bufs cb) r s"
    "arg_text str alt c a = Some t" "c \<in> {120, 117, 100, 99, 115}" "rows_ok n s" "n + newlines t \<le> 200"
    "mem s buf = c" "load32 (mem s) esp = a"
  obtains s1 where "format_char_switch cb alt buf esp s = Some (buf, esp + 4, s1)" "same_but (conv_bufs cb) (fold putc t r) s1"
    "frame_out (written cb) m0 (mem s1)" "rows_ok (n + newlines t) s1"
proof -
  have b: "separate (cb 120) 64 VIDEO 0x8000" "separate (cb 117) 36 VIDEO 0x8000" "separate (cb 100) 36 VIDEO 0x8000"
    "(cb 120, 64) \<in> set (conv_bufs cb)" "(cb 117, 36) \<in> set (conv_bufs cb)" "(cb 100, 36) \<in> set (conv_bufs cb)"
    using assms(2) by (simp_all add: bufs_ok_def conv_bufs_def)
  have fin: "frame_out (written cb) m0 (mem s1)" if "frame_out (video_page @ conv_bufs cb) (mem s) (mem s1)" for s1 :: "'a console_scheme"
    using that assms(3) by (auto simp: written_def intro: frame_out_step)
  note sw = format_char_switch.simps [of cb alt buf esp s]
  consider "c = 120" | "c = 117" | "c = 100" | "c = 99" | "c = 115" using assms(6) by auto
  then show thesis
  proof cases
    case 1
    then have t: "t = hex_text alt a" using assms(5) by (simp add: arg_text_def)
    show thesis
      by (rule print_hex_text [OF assms(4) b(4,1) t assms(7,8)]) (rule that, insert 1 assms(9,10) fin, auto simp: sw)
  next
    case 2
    then have t: "t = itoa_text 10 (unat a)" using assms(5) by (simp add: arg_text_def)
    show thesis
      by (rule print_unsigned_text [OF assms(4) b(5,2) t assms(7,8)]) (rule that, insert 2 assms(9,10) fin, auto simp: sw)
  next
    case 3
    then have t: "t = signed_text a" using assms(5) by (simp add: arg_text_def)
    show thesis
      by (rule print_signed_text [OF assms(4) b(6,3) t assms(7,8)]) (rule that, insert 3 assms(9,10) fin, auto simp: sw)
  next
    case 4
    then have t: "t = [ucast a]" using assms(5) by (simp add: arg_text_def)
    have "frame_out (video_page @ conv_bufs cb) (mem s) (mem (putc (ucast a) s))"
      by (intro frame_out_weaken [OF putc_writes [OF assms(7)]]) (use assms(8) in auto)
    then show thesis
      using that [of "putc (ucast a) s"] same_but_putc [OF assms(4)] putc_rows [OF assms(7)] fin 4 assms(9,10) by (simp add: sw t)
  next
    case 5
    then have t: "str a = Some t" using assms(5) by (simp add: arg_text_def)
    then have c: "cstr_at m0 a t" "readable cb (a, Suc (length t))" using assms(1) by (simp_all add: strings_ok_def)
    have "cstr_at (mem s) a t" by (rule cstr_at_cong [OF _ c(1)]) (simp add: readable_same [OF c(2) assms(3)])
    moreover have "separate a (Suc (length t)) VIDEO 0x8000" using c(2) by (simp add: readable_def written_def)
    moreover have "same_but (conv_bufs cb) r s" "frame_out (conv_bufs cb) (mem s) (mem s)" using assms(4) by simp_all
    ultimately obtain s1 where "puts a (s\<lparr>mem := mem s\<rparr>) = Some (s1, of_nat (length t))" "same_but (conv_bufs cb) (fold putc t r) s1"
      "frame_out (video_page @ conv_bufs cb) (mem s) (mem s1)" "rows_ok (n + newlines t) s1"
      using print_buffer [OF _ _ _ _ assms(7,8)] by metis
    then show thesis using that [of s1] fin 5 assms(9,10) by (simp add: sw)
  qed
qed

lemma print_char:
  assumes "frame_out (written cb) m0 (mem s)" "same_but rs r s" "rows_ok n s" "n + newlines [c] \<le> 200"
  shows "frame_out (written cb) m0 (mem (putc c s))" "same_but rs (putc c r) (putc c s)" "rows_ok (n + newlines [c]) (putc c s)"
proof -
  have "frame_out video_page (mem s) (mem (putc c s))" using putc_writes [OF assms(3)] assms(4) by (simp split: if_splits)
  with assms(1) show "frame_out (written cb) m0 (mem (putc c s))" by (rule frame_out_step) (simp add: written_def)
  show "same_but rs (putc c r) (putc c s)" "rows_ok (n + newlines [c]) (putc c s)"
    using same_but_putc [OF assms(2)] putc_rows [OF assms(3)] by blast+
qed

text \<open>Both levels of the loop at once, along the reference.\<close>

lemma printf_loop_text:
  fixes s r :: "'a console_scheme"
  assumes bufs: "bufs_ok cb"
  shows "fmt_text str f args = Some t \<Longrightarrow> fmt_args cb m0 f buf args esp \<Longrightarrow> frame_out (written cb) m0 (mem s) \<Longrightarrow>
      same_but (conv_bufs cb) r s \<Longrightarrow> rows_ok n s \<Longrightarrow> n + newlines t \<le> 200 \<Longrightarrow> strings_ok cb m0 str \<Longrightarrow>
      \<exists>s'. printf_loop cb buf esp s = Some (buf + of_nat (length f), s') \<and> same_but (conv_bufs cb) (fold putc t r) s'"
    and "conv_text str alt f args = Some t \<Longrightarrow> fmt_args cb m0 f buf args esp \<Longrightarrow> frame_out (written cb) m0 (mem s) \<Longrightarrow>
      same_but (conv_bufs cb) r s \<Longrightarrow> rows_ok n s \<Longrightarrow> n + newlines t \<le> 200 \<Longrightarrow> strings_ok cb m0 str \<Longrightarrow>
      \<exists>s'. (do { (buf1, esp1, s1) \<leftarrow> format_char_switch cb alt buf esp s; printf_loop cb (buf1 + 1) esp1 s1 }) =
        Some (buf + of_nat (length f), s') \<and> same_but (conv_bufs cb) (fold putc t r) s'"
proof (induction str f args and str alt f args arbitrary: t buf esp s r n and t buf esp s r n rule: fmt_text_conv_text.induct)
  case (1 str args)
  have "cstr_at m0 buf []" "readable cb (buf, Suc 0)" using 1(2) by (simp_all add: fmt_args_def)
  then have "mem s buf = 0" using readable_same [of cb buf "Suc 0" m0 "mem s" buf] 1(3) by (simp add: cstr_at_def in_region_def)
  then show ?case using 1 by (subst printf_loop.simps) simp
next
  case (2 str c f args)
  note ch = fmt_args_char [OF 2(4,5)]
  show ?case
  proof (cases "c = 37")
    case True
    then show ?thesis
      using 2(1) [OF True _ ch(3) 2(5-9)] 2(3) ch(1,2) by (subst printf_loop.simps) (simp add: add.assoc)
  next
    case False
    then obtain u where u: "fmt_text str f args = Some u" "t = c # u" using 2(3) by auto
    have n: "n + newlines [c] + newlines u \<le> 200" using 2(8) by (simp add: u split: if_splits)
    note pc = print_char [OF 2(5-7), of c]
    obtain s' where "printf_loop cb (buf + 1) esp (putc c s) = Some (buf + 1 + of_nat (length f), s')"
      "same_but (conv_bufs cb) (fold putc u (putc c r)) s'"
      using 2(2) [OF False u(1) ch(3) pc n 2(9)] n by auto
    then show ?thesis using False ch(1,2) by (subst printf_loop.simps) (simp add: u add.assoc)
  qed
next
  case (3 str alt args)
  then show ?case by simp
next
  case (4 str alt c f args)
  note ch = fmt_args_char [OF 4(6,7)]
  note sw = format_char_switch.simps [of cb alt buf esp s]
  consider (pct) "c = 37" | (alt) "c = 35" | (arg) "c \<in> {120, 117, 100, 99, 115}" | (other) "c \<notin> {37, 35, 120, 117, 100, 99, 115}" by auto
  then show ?case
  proof cases
    case pct
    then obtain u where u: "fmt_text str f args = Some u" "t = 37 # u" using 4(5) by auto
    have n: "n + newlines [37] + newlines u \<le> 200" using 4(10) by (simp add: u split: if_splits)
    note pc = print_char [OF 4(7-9), of 37]
    obtain s' where "printf_loop cb (buf + 1) esp (putc 37 s) = Some (buf + 1 + of_nat (length f), s')"
      "same_but (conv_bufs cb) (fold putc u (putc 37 r)) s'"
      using 4(1) [OF pct u(1) ch(3) pc n 4(11)] n by auto
    then show ?thesis using pct ch(1) by (simp add: sw u add.assoc)
  next
    case alt
    then have t: "conv_text str True f args = Some t" using 4(5) by simp
    have ne: "c \<noteq> 37" using alt by simp
    show ?thesis using 4(2) [OF ne alt t ch(3) 4(7-11)] alt ch(1) by (simp add: sw add.assoc)
  next
    case arg
    then obtain a as p u where a: "args = a # as" "arg_text str alt c a = Some p" "fmt_text str f as = Some u" "t = p @ u"
      using 4(5) by (auto split: list.splits simp: bind_eq_Some_conv)
    have n: "n + newlines p + newlines u \<le> 200" using 4(10) by (simp add: a)
    note ar = fmt_args_arg [OF 4(6) [unfolded a(1)] 4(7)]
    obtain s1 where s1: "format_char_switch cb alt buf esp s = Some (buf, esp + 4, s1)" "same_but (conv_bufs cb) (fold putc p r) s1"
      "frame_out (written cb) m0 (mem s1)" "rows_ok (n + newlines p) s1"
      by (rule print_piece [OF 4(11) bufs 4(7,8) a(2) arg 4(9) _ ch(1) ar(1)]) (use n in auto)
    have ne: "c \<noteq> 37" "c \<noteq> 35" using arg by auto
    have ch': "fmt_args cb m0 f (buf + 1) as (esp + 4)"
      using fmt_args_char(3) [OF ar(2) 4(7)] .
    obtain s' where "printf_loop cb (buf + 1) (esp + 4) s1 = Some (buf + 1 + of_nat (length f), s')"
      "same_but (conv_bufs cb) (fold putc u (fold putc p r)) s'"
      using 4(3) [OF ne arg a(1-3) ch' s1(3,2,4) n 4(11)] by auto
    then show ?thesis using s1(1) by (simp add: a add.assoc)
  next
    case other
    then have t: "fmt_text str f args = Some t" using 4(5) by auto
    have ne: "c \<noteq> 37" "c \<noteq> 35" "c \<notin> {120, 117, 100, 99, 115}" using other by auto
    show ?thesis using 4(4) [OF ne t ch(3) 4(7-11)] other ch(1) by (simp add: sw add.assoc)
  qed
qed

section \<open>Properties\<close>

text \<open>A format that ends with the character \<open>%\<close>: the scan steps over the terminating zero and goes on behind it.\<close>

lemma percent_at_end:
  "mem s buf = 37 \<Longrightarrow> mem s (buf + 1) = 0 \<Longrightarrow> printf_loop cb buf esp s = printf_loop cb (buf + 2) esp s"
  by (subst printf_loop.simps) (simp add: format_char_switch.simps [of cb False "buf + 1"] add.assoc)


definition printf_machine :: console where
  "printf_machine = blank_console\<lparr>mem := fold (\<lambda>(a, bs) m. store_bytes m a bs)
     [(0x200000, [120, 61, 37, 35, 120]), (0x300000, bytes32 0x200000 @ bytes32 14)] (\<lambda>_. 0)\<rparr>"


end
