(* ===== verification/Descriptors.thy ===== *)
theory Descriptors
  imports Prelude
begin

text \<open>
  The descriptor tables that the kernel fills while it boots: interrupt gates, written by \<open>set_idt_entry\<close> of
  \<^verbatim>\<open>student-distrib/kernel.c\<close>, and the descriptors of the task state segment and of the local descriptor table,
  with the structs and macros of \<^verbatim>\<open>student-distrib/x86_desc.h\<close>. What the processor reads out of a descriptor is the
  reference.
\<close>

section \<open>Definitions\<close>

subsection \<open>Gates\<close>

text \<open>The packed bit fields of \<open>idt_desc_t\<close> in the order of the struct.\<close>

record idt_desc =
  offset_15_00 :: u16
  seg_selector :: u16
  reserved4 :: byte
  reserved3 :: "1 word"
  reserved2 :: "1 word"
  reserved1 :: "1 word"
  idt_size :: "1 word"
  reserved0 :: "1 word"
  idt_dpl :: "2 word"
  idt_present :: "1 word"
  offset_31_16 :: u16

definition pack_idt :: "idt_desc \<Rightarrow> 64 word" where
  "pack_idt d = ucast (offset_15_00 d) OR push_bit 16 (ucast (seg_selector d)) OR push_bit 32 (ucast (reserved4 d))
     OR push_bit 40 (ucast (reserved3 d)) OR push_bit 41 (ucast (reserved2 d)) OR push_bit 42 (ucast (reserved1 d))
     OR push_bit 43 (ucast (idt_size d)) OR push_bit 44 (ucast (reserved0 d)) OR push_bit 45 (ucast (idt_dpl d))
     OR push_bit 47 (ucast (idt_present d)) OR push_bit 48 (ucast (offset_31_16 d))"

definition KERNEL_CS :: u16 where "KERNEL_CS = 0x0010"
definition KERNEL_TSS :: u16 where "KERNEL_TSS = 0x0030"
definition NUM_VEC :: nat where "NUM_VEC = 256"

definition SYS_CALL_NUM :: u32 where "SYS_CALL_NUM = 0x80"
definition TASK_GATE :: u32 where "TASK_GATE = 0x05"
definition INT_GATE :: u32 where "INT_GATE = 0x0E"
definition TRAP_GATE :: u32 where "TRAP_GATE = 0x0F"
definition size_mask :: u32 where "size_mask = 0x08"
definition res_1_mask :: u32 where "res_1_mask = 0x04"
definition res_2_mask :: u32 where "res_2_mask = 0x02"
definition res_3_mask :: u32 where "res_3_mask = 0x01"

definition PIC_MASTER_IDT :: u32 where "PIC_MASTER_IDT = 0x20"
definition PIC_SLAVE_IDT :: u32 where "PIC_SLAVE_IDT = 0x28"

definition SET_IDT_ENTRY :: "u32 \<Rightarrow> idt_desc \<Rightarrow> idt_desc" where
  "SET_IDT_ENTRY handler d = d\<lparr>offset_31_16 := ucast (drop_bit 16 (handler AND 0xFFFF0000)), offset_15_00 := ucast (handler AND 0xFFFF)\<rparr>"

text \<open>The addresses of the assembly entry points, which the linker fixes.\<close>

record linkage =
  DIVIDE_ERROR :: u32
  NMI_INTERRUPT :: u32
  BREAKPOINT :: u32
  OVERFLOW :: u32
  BOUND_RANGE :: u32
  INVALID_OPCODE :: u32
  DEVICE_NOT_AVAILABLE :: u32
  DOUBLE_FAULT :: u32
  INVALID_TSS :: u32
  SEGMENT_MISSING :: u32
  STACK_SEG_FAULT :: u32
  GENERAL_PROT :: u32
  PAGE_FAULT :: u32
  FLOAT_ERROR :: u32
  ALIGN_CHECK :: u32
  MACHINE_CHECK :: u32
  FLOAT_EXCEP :: u32
  SYS_CALL_HANDLER :: u32
  RTC_HANDLER :: u32
  KEY_HANDLER :: u32

definition idt_functions :: "linkage \<Rightarrow> u32 list" where
  "idt_functions l = [DIVIDE_ERROR l, 1, NMI_INTERRUPT l, BREAKPOINT l, OVERFLOW l, BOUND_RANGE l,
     INVALID_OPCODE l, DEVICE_NOT_AVAILABLE l, DOUBLE_FAULT l, 1, INVALID_TSS l,
     SEGMENT_MISSING l, STACK_SEG_FAULT l, GENERAL_PROT l, PAGE_FAULT l, 1,
     FLOAT_ERROR l, ALIGN_CHECK l, MACHINE_CHECK l, FLOAT_EXCEP l]"

definition idt_protections :: "u32 list" where
  "idt_protections = [0,0,0,3,3,3,0,0,0,0,0,0,0,0,0,0,0,0,0,0]"

definition idt_gates :: "u32 list" where
  "idt_gates = [TRAP_GATE, TRAP_GATE, INT_GATE, INT_GATE, TRAP_GATE, TRAP_GATE, TRAP_GATE, TRAP_GATE, TASK_GATE,
     TRAP_GATE, TRAP_GATE, TRAP_GATE, TRAP_GATE, TRAP_GATE, INT_GATE, TRAP_GATE, TRAP_GATE, TRAP_GATE,
     TRAP_GATE, TRAP_GATE]"

text \<open>The assignments of \<open>reserved0\<close> to \<open>reserved4\<close> and \<open>size\<close> from a gate type.\<close>

definition set_gate_type :: "u32 \<Rightarrow> idt_desc \<Rightarrow> idt_desc" where
  "set_gate_type cur_gate d = d\<lparr>reserved0 := 0, idt_size := ucast (drop_bit 3 (cur_gate AND size_mask)),
     reserved1 := ucast (drop_bit 2 (cur_gate AND res_1_mask)), reserved2 := ucast (drop_bit 1 (cur_gate AND res_2_mask)),
     reserved3 := ucast (drop_bit 0 (cur_gate AND res_3_mask)), reserved4 := 0\<rparr>"

text \<open>The literal bits that the code sets for device interrupts and for empty vectors.\<close>

definition set_int_bits :: "idt_desc \<Rightarrow> idt_desc" where
  "set_int_bits d = d\<lparr>reserved0 := 0, idt_size := 1, reserved1 := 1, reserved2 := 1, reserved3 := 0, reserved4 := 0\<rparr>"

text \<open>The entry at \<open>vector_number\<close> after the call, and the table. A vector beyond the table is outside the model.\<close>

definition new_idt_entry :: "linkage \<Rightarrow> u32 \<Rightarrow> u32 \<Rightarrow> idt_desc \<Rightarrow> idt_desc" where
  "new_idt_entry l vector_number in_function d =
     (if in_function \<noteq> 0 then
        set_int_bits ((SET_IDT_ENTRY in_function d)\<lparr>idt_dpl := 0, idt_present := 1, seg_selector := KERNEL_CS\<rparr>)
      else if vector_number < 20 \<and> vector_number \<noteq> 1 \<and> vector_number \<noteq> 9 \<and> vector_number \<noteq> 15 then
        let cur_gate = idt_gates ! unat vector_number
        in set_gate_type cur_gate
             (if cur_gate = TASK_GATE
              then (SET_IDT_ENTRY 1 d)\<lparr>seg_selector := KERNEL_TSS, idt_present := 1, idt_dpl := 0\<rparr>
              else (SET_IDT_ENTRY (idt_functions l ! unat vector_number) d)\<lparr>
                idt_dpl := ucast (idt_protections ! unat vector_number), idt_present := 1, seg_selector := KERNEL_CS\<rparr>)
      else if vector_number = SYS_CALL_NUM then
        set_gate_type TRAP_GATE ((SET_IDT_ENTRY (SYS_CALL_HANDLER l) d)\<lparr>seg_selector := KERNEL_CS, idt_dpl := 3, idt_present := 1\<rparr>)
      else if idt_present d = 0 then
        set_int_bits ((SET_IDT_ENTRY 1 d)\<lparr>idt_dpl := 0, idt_present := 0, seg_selector := KERNEL_CS\<rparr>)
      else d)"

definition set_idt_entry :: "linkage \<Rightarrow> u32 \<Rightarrow> u32 \<Rightarrow> idt_desc list \<Rightarrow> idt_desc list option" where
  "set_idt_entry l vector_number in_function idt =
     (if unat vector_number < length idt
      then Some (idt[unat vector_number := new_idt_entry l vector_number in_function (idt ! unat vector_number)])
      else None)"

text \<open>The loop of \<open>entry\<close> over all vectors, and the two calls before it.\<close>

fun fill_idt :: "linkage \<Rightarrow> nat list \<Rightarrow> idt_desc list \<Rightarrow> idt_desc list option" where
  "fill_idt l [] idt = Some idt"
| "fill_idt l (i # is) idt = do { idt1 \<leftarrow> set_idt_entry l (of_nat i) 0 idt; fill_idt l is idt1 }"

definition init_idt :: "linkage \<Rightarrow> idt_desc list \<Rightarrow> idt_desc list option" where
  "init_idt l idt =
     do { idt1 \<leftarrow> set_idt_entry l PIC_SLAVE_IDT (RTC_HANDLER l) idt;
          idt2 \<leftarrow> set_idt_entry l (PIC_MASTER_IDT + 1) (KEY_HANDLER l) idt1;
          fill_idt l [0..<NUM_VEC] idt2 }"

subsection \<open>Segments\<close>

record seg_desc =
  seg_lim_15_00 :: u16
  base_15_00 :: u16
  base_23_16 :: byte
  seg_type :: "4 word"
  seg_sys :: "1 word"
  seg_dpl :: "2 word"
  seg_present :: "1 word"
  seg_lim_19_16 :: "4 word"
  seg_avail :: "1 word"
  seg_reserved :: "1 word"
  opsize :: "1 word"
  granularity :: "1 word"
  base_31_24 :: byte

definition TSS_SIZE :: u32 where "TSS_SIZE = 104"

definition SET_LDT_PARAMS :: "u32 \<Rightarrow> u32 \<Rightarrow> seg_desc \<Rightarrow> seg_desc" where
  "SET_LDT_PARAMS a lim d = d\<lparr>base_31_24 := ucast (drop_bit 24 (a AND 0xFF000000)), base_23_16 := ucast (drop_bit 16 (a AND 0x00FF0000)),
     base_15_00 := ucast (a AND 0x0000FFFF), seg_lim_19_16 := ucast (drop_bit 16 (lim AND 0x000F0000)), seg_lim_15_00 := ucast (lim AND 0x0000FFFF)\<rparr>"

definition SET_TSS_PARAMS :: "u32 \<Rightarrow> u32 \<Rightarrow> seg_desc \<Rightarrow> seg_desc" where
  "SET_TSS_PARAMS a lim d = d\<lparr>base_31_24 := ucast (drop_bit 24 (a AND 0xFF000000)), base_23_16 := ucast (drop_bit 16 (a AND 0x00FF0000)),
     base_15_00 := ucast (a AND 0x0000FFFF), seg_lim_19_16 := ucast (drop_bit 16 (lim AND 0x000F0000)), seg_lim_15_00 := ucast (lim AND 0x0000FFFF)\<rparr>"

text \<open>The local structs start with what the stack holds: \<open>d\<close>.\<close>

definition the_ldt_desc :: "u32 \<Rightarrow> u32 \<Rightarrow> seg_desc \<Rightarrow> seg_desc" where
  "the_ldt_desc ldt ldt_size d = SET_LDT_PARAMS ldt ldt_size
     (d\<lparr>granularity := 0, opsize := 1, seg_reserved := 0, seg_avail := 0, seg_present := 1, seg_dpl := 0, seg_sys := 0, seg_type := 2\<rparr>)"

definition the_tss_desc :: "u32 \<Rightarrow> u32 \<Rightarrow> seg_desc \<Rightarrow> seg_desc" where
  "the_tss_desc tss tss_size d = SET_TSS_PARAMS tss tss_size
     (d\<lparr>granularity := 0, opsize := 0, seg_reserved := 0, seg_avail := 0, seg_lim_19_16 := ucast (TSS_SIZE AND 0x000F0000), seg_present := 1,
       seg_dpl := 0, seg_sys := 0, seg_type := 9, seg_lim_15_00 := ucast (TSS_SIZE AND 0x0000FFFF)\<rparr>)"

section \<open>What the processor reads\<close>

text \<open>The fields of a gate in the eight bytes of its descriptor; \<open>None\<close> when the gate is not present.\<close>

record gate =
  g_offset :: u32
  g_selector :: u16
  g_type :: "4 word"
  g_dpl :: "2 word"

definition hw_gate :: "64 word \<Rightarrow> gate option" where
  "hw_gate w =
     (if bit w 47 then Some \<lparr>g_offset = ucast w AND 0xFFFF OR push_bit 16 (ucast (drop_bit 48 w)), g_selector = ucast (drop_bit 16 w),
        g_type = ucast (drop_bit 40 w), g_dpl = ucast (drop_bit 45 w)\<rparr>
      else None)"

lemma field_above: "bit (u :: 1 word) n \<Longrightarrow> n = 0" "bit (v :: 2 word) n \<Longrightarrow> n < 2" "bit (x :: 8 word) n \<Longrightarrow> n < 8"
  "bit (y :: 16 word) n \<Longrightarrow> n < 16" "bit (z :: 4 word) n \<Longrightarrow> n < 4"
  by (auto dest: bit_imp_le_length)

lemma one_bit: "(u :: 1 word) = 0 \<longleftrightarrow> \<not> bit u 0"
proof
  assume "\<not> bit u 0"
  then show "u = 0" by (intro bit_word_eqI) (auto dest: field_above)
qed simp

lemma pack_present: "bit (pack_idt d) 47 \<longleftrightarrow> idt_present d \<noteq> 0"
  unfolding pack_idt_def one_bit by (auto simp: bit_simps dest: field_above)

lemma pack_selector: "ucast (drop_bit 16 (pack_idt d)) = seg_selector d"
  by (rule bit_word_eqI) (auto simp: pack_idt_def bit_simps dest: field_above)

lemma pack_dpl: "ucast (drop_bit 45 (pack_idt d)) = idt_dpl d"
  by (rule bit_word_eqI) (auto simp: pack_idt_def bit_simps dest: field_above)

lemma pack_type: "ucast (drop_bit 40 (pack_idt d)) =
    push_bit 3 (ucast (idt_size d)) OR push_bit 2 (ucast (reserved1 d)) OR push_bit 1 (ucast (reserved2 d)) OR (ucast (reserved3 d) :: 4 word)"
  by (rule bit_word_eqI) (auto simp: pack_idt_def bit_simps One_nat_def [symmetric] simp del: One_nat_def dest: field_above)

lemma pack_low: "n < 16 \<Longrightarrow> bit (pack_idt d) n = bit (offset_15_00 d) n"
  by (auto simp: pack_idt_def bit_simps dest: field_above)

lemma beyond: "0 < n \<Longrightarrow> \<not> bit (u :: 1 word) n" "2 \<le> n \<Longrightarrow> \<not> bit (v :: 2 word) n" "8 \<le> n \<Longrightarrow> \<not> bit (x :: 8 word) n"
  "16 \<le> n \<Longrightarrow> \<not> bit (y :: 16 word) n"
  by (auto dest: field_above)

lemma pack_high: "k < 16 \<Longrightarrow> bit (pack_idt d) (48 + k) = bit (offset_31_16 d) k"
  by (simp add: pack_idt_def bit_simps beyond)

lemma pack_offset: "(ucast (pack_idt d) AND 0xFFFF) OR push_bit 16 (ucast (drop_bit 48 (pack_idt d))) =
    (push_bit 16 (ucast (offset_31_16 d)) OR ucast (offset_15_00 d) :: u32)"
proof -
  have m: "(0xFFFF :: u32) = mask 16" by code_simp
  show ?thesis unfolding m
  proof (rule bit_word_eqI)
    fix n assume "n < LENGTH(32)"
    then show "bit ((ucast (pack_idt d) AND mask 16) OR push_bit 16 (ucast (drop_bit 48 (pack_idt d))) :: u32) n =
        bit (push_bit 16 (ucast (offset_31_16 d)) OR ucast (offset_15_00 d) :: u32) n"
      using pack_low [of n d] pack_high [of "n - 16" d]
      by (cases "n < 16") (auto simp: bit_simps add.commute dest: field_above)
  qed
qed

lemma hw_gate_pack:
  "hw_gate (pack_idt d) = (if idt_present d = 0 then None else
     Some \<lparr>g_offset = push_bit 16 (ucast (offset_31_16 d)) OR ucast (offset_15_00 d), g_selector = seg_selector d,
       g_type = push_bit 3 (ucast (idt_size d)) OR push_bit 2 (ucast (reserved1 d)) OR push_bit 1 (ucast (reserved2 d)) OR ucast (reserved3 d),
       g_dpl = idt_dpl d\<rparr>)"
  by (simp add: hw_gate_def pack_present pack_selector pack_dpl pack_type pack_offset)

section \<open>Filling the table\<close>

lemma offset_round_trip: "push_bit 16 (ucast (ucast (drop_bit 16 (h AND 0xFFFF0000)) :: u16)) OR ucast (ucast (h AND 0xFFFF) :: u16) = (h :: u32)"
proof -
  have m: "(0xFFFF :: u32) = mask 16" "(0xFFFF0000 :: u32) = push_bit 16 (mask 16)" by code_simp+
  show ?thesis unfolding m by (rule bit_word_eqI) (auto simp: bit_simps)
qed

text \<open>The gates after boot.\<close>

definition boot_gate :: "linkage \<Rightarrow> nat \<Rightarrow> gate option" where
  "boot_gate l v =
     (if v = 8 then Some \<lparr>g_offset = 1, g_selector = 0x30, g_type = 5, g_dpl = 0\<rparr>
      else if v < 20 \<and> v \<notin> {1, 9, 15} then
        Some \<lparr>g_offset = idt_functions l ! v, g_selector = 0x10, g_type = (if v \<in> {2, 3, 14} then 14 else 15),
          g_dpl = (if v \<in> {3, 4, 5} then 3 else 0)\<rparr>
      else if v = 0x21 then Some \<lparr>g_offset = KEY_HANDLER l, g_selector = 0x10, g_type = 14, g_dpl = 0\<rparr>
      else if v = 0x28 then Some \<lparr>g_offset = RTC_HANDLER l, g_selector = 0x10, g_type = 14, g_dpl = 0\<rparr>
      else if v = 0x80 then Some \<lparr>g_offset = SYS_CALL_HANDLER l, g_selector = 0x10, g_type = 15, g_dpl = 3\<rparr>
      else None)"

lemmas gate_consts = TASK_GATE_def INT_GATE_def TRAP_GATE_def size_mask_def res_1_mask_def res_2_mask_def res_3_mask_def
  KERNEL_CS_def KERNEL_TSS_def SYS_CALL_NUM_def

lemma device_gate:
  "h \<noteq> 0 \<Longrightarrow> hw_gate (pack_idt (new_idt_entry l v h d)) = Some \<lparr>g_offset = h, g_selector = 0x10, g_type = 14, g_dpl = 0\<rparr>"
  "h \<noteq> 0 \<Longrightarrow> idt_present (new_idt_entry l v h d) = 1"
  using offset_round_trip [of h]
  by (simp_all add: new_idt_entry_def hw_gate_pack set_int_bits_def SET_IDT_ENTRY_def gate_consts)

lemma type_round_trip:
  assumes "g \<in> {TASK_GATE, INT_GATE, TRAP_GATE}"
  shows "push_bit 3 (ucast (ucast (drop_bit 3 (g AND size_mask)) :: 1 word)) OR push_bit 2 (ucast (ucast (drop_bit 2 (g AND res_1_mask)) :: 1 word)) OR
     push_bit 1 (ucast (ucast (drop_bit 1 (g AND res_2_mask)) :: 1 word)) OR ucast (ucast (drop_bit 0 (g AND res_3_mask)) :: 1 word) = (ucast g :: 4 word)"
  using assms unfolding insert_iff empty_iff by (elim disjE; simp only: simp_thms) (simp_all add: gate_consts)

lemma typed_gate:
  "idt_present d \<noteq> 0 \<Longrightarrow> g \<in> {TASK_GATE, INT_GATE, TRAP_GATE} \<Longrightarrow> hw_gate (pack_idt (set_gate_type g (SET_IDT_ENTRY h d))) =
     Some \<lparr>g_offset = h, g_selector = seg_selector d, g_type = ucast g, g_dpl = idt_dpl d\<rparr>"
  unfolding hw_gate_pack set_gate_type_def SET_IDT_ENTRY_def
  using offset_round_trip [of h] type_round_trip [of g] by simp

lemma entry_commute:
  "(SET_IDT_ENTRY h d)\<lparr>idt_dpl := p, idt_present := q, seg_selector := s\<rparr> = SET_IDT_ENTRY h (d\<lparr>idt_dpl := p, idt_present := q, seg_selector := s\<rparr>)"
  "(SET_IDT_ENTRY h d)\<lparr>seg_selector := s, idt_present := q, idt_dpl := p\<rparr> = SET_IDT_ENTRY h (d\<lparr>idt_dpl := p, idt_present := q, seg_selector := s\<rparr>)"
  "(SET_IDT_ENTRY h d)\<lparr>seg_selector := s, idt_dpl := p, idt_present := q\<rparr> = SET_IDT_ENTRY h (d\<lparr>idt_dpl := p, idt_present := q, seg_selector := s\<rparr>)"
  by (simp_all add: SET_IDT_ENTRY_def)

lemma below_20:
  assumes "v < 20"
  shows "v = 0 \<or> v = 1 \<or> v = 2 \<or> v = 3 \<or> v = 4 \<or> v = 5 \<or> v = 6 \<or> v = 7 \<or> v = 8 \<or> v = 9 \<or> v = 10 \<or> v = 11 \<or>
    v = 12 \<or> v = 13 \<or> v = 14 \<or> v = 15 \<or> v = 16 \<or> v = 17 \<or> v = 18 \<or> v = (19 :: nat)"
  using assms by presburger

lemma idt_gates_nth: "v < 20 \<Longrightarrow> idt_gates ! v = (if v = 8 then TASK_GATE else if v \<in> {2, 3, 14} then INT_GATE else TRAP_GATE)"
  unfolding idt_gates_def by (drule below_20) (elim disjE; simp)

lemma idt_protections_nth: "v < 20 \<Longrightarrow> idt_protections ! v = (if v \<in> {3, 4, 5} then 3 else 0)"
  unfolding idt_protections_def by (drule below_20) (elim disjE; simp)

lemma gate_types: "ucast TASK_GATE = (5 :: 4 word)" "ucast INT_GATE = (14 :: 4 word)" "ucast TRAP_GATE = (15 :: 4 word)"
  "TRAP_GATE \<noteq> TASK_GATE" "INT_GATE \<noteq> TASK_GATE"
  by code_simp+

lemma exception_gate:
  assumes "v < 20" "v \<notin> {1, 9, 15}"
  shows "hw_gate (pack_idt (new_idt_entry l (of_nat v) 0 d)) = boot_gate l v"
proof -
  have w: "(of_nat v :: u32) < 20" "(of_nat v :: u32) \<noteq> 1" "(of_nat v :: u32) \<noteq> 9" "(of_nat v :: u32) \<noteq> 15" "unat (of_nat v :: u32) = v"
    using assms by (simp_all add: word_less_nat_alt word_unat_eq_iff unat_of_nat_addr)
  have g: "idt_gates ! v = TASK_GATE \<longleftrightarrow> v = 8" "v \<noteq> 8 \<Longrightarrow> (ucast (idt_gates ! v) :: 4 word) = (if v \<in> {2, 3, 14} then 14 else 15)"
    "idt_gates ! v \<in> {TASK_GATE, INT_GATE, TRAP_GATE}"
    using assms by (simp_all add: idt_gates_nth gate_types)
  have p: "(ucast (idt_protections ! v) :: 2 word) = (if v \<in> {3, 4, 5} then 3 else 0)"
    using assms by (simp add: idt_protections_nth)
  have n: "new_idt_entry l (of_nat v) 0 d = set_gate_type (idt_gates ! v)
     (if v = 8 then SET_IDT_ENTRY 1 (d\<lparr>idt_dpl := 0, idt_present := 1, seg_selector := KERNEL_TSS\<rparr>)
      else SET_IDT_ENTRY (idt_functions l ! v) (d\<lparr>idt_dpl := ucast (idt_protections ! v), idt_present := 1, seg_selector := KERNEL_CS\<rparr>))"
    unfolding new_idt_entry_def Let_def w(5) entry_commute g(1) using w by simp
  show ?thesis
  proof (cases "v = 8")
    case True
    then have "idt_gates ! v = TASK_GATE" using g(1) by simp
    then show ?thesis unfolding n using True by (simp add: typed_gate gate_types boot_gate_def KERNEL_TSS_def)
  next
    case False
    then show ?thesis unfolding n if_not_P [OF False] boot_gate_def
      using assms False by (simp add: typed_gate [OF _ g(3)] g(2) p KERNEL_CS_def)
  qed
qed

lemma syscall_gate: "hw_gate (pack_idt (new_idt_entry l 0x80 0 d)) = boot_gate l 0x80"
proof -
  have "new_idt_entry l 0x80 0 d =
      set_gate_type TRAP_GATE (SET_IDT_ENTRY (SYS_CALL_HANDLER l) (d\<lparr>idt_dpl := 3, idt_present := 1, seg_selector := KERNEL_CS\<rparr>))"
    unfolding new_idt_entry_def entry_commute by (simp add: SYS_CALL_NUM_def)
  then show ?thesis by (simp add: typed_gate gate_types boot_gate_def KERNEL_CS_def)
qed

text \<open>Every other vector keeps a gate that is present and gets one that is not present otherwise.\<close>

lemma other_gate:
  assumes "v < 256" "\<not> (v < 20 \<and> v \<notin> {1, 9, 15})" "v \<noteq> 0x80"
  shows "hw_gate (pack_idt (new_idt_entry l (of_nat v) 0 d)) = hw_gate (pack_idt d)"
proof -
  have "\<not> ((of_nat v :: u32) < 20 \<and> (of_nat v :: u32) \<noteq> 1 \<and> (of_nat v :: u32) \<noteq> 9 \<and> (of_nat v :: u32) \<noteq> 15)"
    "(of_nat v :: u32) \<noteq> SYS_CALL_NUM"
    using assms by (auto simp: SYS_CALL_NUM_def word_less_nat_alt word_unat_eq_iff unat_of_nat_addr)
  then have "new_idt_entry l (of_nat v) 0 d = (if idt_present d = 0
      then set_int_bits ((SET_IDT_ENTRY 1 d)\<lparr>idt_dpl := 0, idt_present := 0, seg_selector := KERNEL_CS\<rparr>) else d)"
    unfolding new_idt_entry_def by (simp only: simp_thms if_False)
  then show ?thesis by (simp add: hw_gate_pack set_int_bits_def)
qed

lemma fill_idt_append: "fill_idt l (xs @ ys) idt = do { idt1 \<leftarrow> fill_idt l xs idt; fill_idt l ys idt1 }"
  by (induction xs arbitrary: idt) (auto split: bind_splits)

lemma fill_idt_upto:
  assumes "length idt = 256"
  shows "n \<le> 256 \<Longrightarrow> fill_idt l [0..<n] idt =
    Some (map (\<lambda>v. if v < n then new_idt_entry l (of_nat v) 0 (idt ! v) else idt ! v) [0..<256])"
proof (induction n)
  case 0
  then show ?case using assms map_nth [of idt] by simp
next
  case (Suc n)
  let ?f = "\<lambda>n v. if v < n then new_idt_entry l (of_nat v) 0 (idt ! v) else idt ! v"
  have u: "unat (of_nat n :: u32) = n" using Suc.prems by (simp add: unat_of_nat_addr)
  have "(map (?f n) [0..<256])[n := new_idt_entry l (of_nat n) 0 (idt ! n)] = map (?f (Suc n)) [0..<256]"
    using Suc.prems by (intro nth_equalityI) (auto simp: nth_list_update less_Suc_eq)
  then show ?case
    using Suc u by (simp add: fill_idt_append set_idt_entry_def)
qed

text \<open>The table after boot, entry by entry.\<close>

lemma boot_entry:
  assumes "length idt0 = 256" "\<And>d. d \<in> set idt0 \<Longrightarrow> idt_present d = 0" "RTC_HANDLER l \<noteq> 0" "KEY_HANDLER l \<noteq> 0" "v < 256"
    and idt: "idt = idt0[0x28 := new_idt_entry l 0x28 (RTC_HANDLER l) d1, 0x21 := new_idt_entry l 0x21 (KEY_HANDLER l) d2]"
  shows "hw_gate (pack_idt (new_idt_entry l (of_nat v) 0 (idt ! v))) = boot_gate l v"
proof -
  consider "v < 20 \<and> v \<notin> {1, 9, 15}" | "v = 0x80" | "\<not> (v < 20 \<and> v \<notin> {1, 9, 15})" "v \<noteq> 0x80" by blast
  then show ?thesis
  proof cases
    case 1
    then show ?thesis using exception_gate [of v l "idt ! v"] by blast
  next
    case 2
    then show ?thesis using syscall_gate [of l "idt ! v"] by simp
  next
    case 3
    have "idt0 ! v \<in> set idt0" using assms(1,5) by simp
    then have z: "hw_gate (pack_idt (idt0 ! v)) = None" using assms(2) by (simp add: hw_gate_pack)
    have "hw_gate (pack_idt (idt ! v)) = boot_gate l v"
    proof (cases "v = 0x21 \<or> v = 0x28")
      case True
      then show ?thesis using assms(1) unfolding idt by (auto simp: device_gate assms(3,4) boot_gate_def nth_list_update)
    next
      case False
      then have "boot_gate l v = None" using 3 unfolding boot_gate_def by auto
      then show ?thesis unfolding idt using False z by simp
    qed
    then show ?thesis using other_gate [OF assms(5) 3, of l "idt ! v"] by simp
  qed
qed

lemma init_idt_table:
  assumes "length idt0 = 256"
  obtains d1 d2 where "init_idt l idt0 = Some (map (\<lambda>v. new_idt_entry l (of_nat v) 0
    (idt0[0x28 := new_idt_entry l 0x28 (RTC_HANDLER l) d1, 0x21 := new_idt_entry l 0x21 (KEY_HANDLER l) d2] ! v)) [0..<256])"
proof -
  let ?d1 = "idt0 ! 0x28"
  let ?i1 = "idt0[0x28 := new_idt_entry l 0x28 (RTC_HANDLER l) ?d1]"
  let ?i2 = "?i1[0x21 := new_idt_entry l 0x21 (KEY_HANDLER l) (?i1 ! 0x21)]"
  have "length ?i2 = 256" using assms by simp
  from fill_idt_upto [OF this, of 256 l]
  have f: "fill_idt l [0..<256] ?i2 = Some (map (\<lambda>v. new_idt_entry l (of_nat v) 0 (?i2 ! v)) [0..<256])"
    by (simp cong: map_cong)
  have "init_idt l idt0 = fill_idt l [0..<256] ?i2"
    unfolding init_idt_def set_idt_entry_def PIC_SLAVE_IDT_def PIC_MASTER_IDT_def NUM_VEC_def using assms by simp
  from that [OF trans [OF this f]] show thesis .
qed

lemma boot_gates_user: "(\<exists>g. boot_gate l v = Some g \<and> g_dpl g = 3) \<longleftrightarrow> v \<in> {3, 4, 5, 0x80}"
  by (auto simp: boot_gate_def split: if_splits)

text \<open>
  C15. Booting fills the whole interrupt table as intended: when the table starts without present gates, the loop of
  \<open>entry\<close> ends with 256 descriptors in which the processor finds exactly the gates of \<open>boot_gate\<close> (handler address,
  selector, type and privilege level of the 17 exceptions, the keyboard, the clock and the system call; nothing on
  every other vector, the two device gates survive the loop), and the vectors that user programs may raise themselves
  are the breakpoint, overflow and bound exceptions and the system call.
\<close>

theorem boot_idt_entries:
  assumes "length idt0 = 256" "\<forall>d \<in> set idt0. idt_present d = 0" "RTC_HANDLER l \<noteq> 0" "KEY_HANDLER l \<noteq> 0"
  shows "\<exists>idt. init_idt l idt0 = Some idt \<and> map (\<lambda>d. hw_gate (pack_idt d)) idt = map (boot_gate l) [0..<256] \<and>
    {v. v < 256 \<and> (\<exists>g. hw_gate (pack_idt (idt ! v)) = Some g \<and> g_dpl g = 3)} = {3, 4, 5, 0x80}"
proof -
  obtain d1 d2 where i: "init_idt l idt0 = Some (map (\<lambda>v. new_idt_entry l (of_nat v) 0
    (idt0[0x28 := new_idt_entry l 0x28 (RTC_HANDLER l) d1, 0x21 := new_idt_entry l 0x21 (KEY_HANDLER l) d2] ! v)) [0..<256])"
    using init_idt_table [OF assms(1)] by blast
  obtain idt where idt: "init_idt l idt0 = Some idt" "length idt = 256" "\<And>v. v < 256 \<Longrightarrow> hw_gate (pack_idt (idt ! v)) = boot_gate l v"
    using i boot_entry [OF assms(1) _ assms(3,4) _ refl] assms(2) by simp
  have "map (\<lambda>d. hw_gate (pack_idt d)) idt = map (boot_gate l) [0..<256]"
    using idt by (intro nth_equalityI) simp_all
  moreover have "{v. v < 256 \<and> (\<exists>g. hw_gate (pack_idt (idt ! v)) = Some g \<and> g_dpl g = 3)} = {v. v < 256 \<and> v \<in> {3, 4, 5, 0x80}}"
    by (rule Collect_cong, rule conj_cong, rule refl, subst idt(3), assumption, rule boot_gates_user)
  moreover have "{v. v < 256 \<and> v \<in> {3, 4, 5, 0x80}} = {3, 4, 5, 0x80 :: nat}" by auto
  ultimately show ?thesis using idt(1) by blast
qed

definition sample_linkage :: linkage where
  "sample_linkage = \<lparr>DIVIDE_ERROR = 0x400100, NMI_INTERRUPT = 0x400110, BREAKPOINT = 0x400120, OVERFLOW = 0x400130,
     BOUND_RANGE = 0x400140, INVALID_OPCODE = 0x400150, DEVICE_NOT_AVAILABLE = 0x400160, DOUBLE_FAULT = 0x400170,
     INVALID_TSS = 0x400180, SEGMENT_MISSING = 0x400190, STACK_SEG_FAULT = 0x4001A0, GENERAL_PROT = 0x4001B0,
     PAGE_FAULT = 0x4001C0, FLOAT_ERROR = 0x4001D0, ALIGN_CHECK = 0x4001E0, MACHINE_CHECK = 0x4001F0,
     FLOAT_EXCEP = 0x400200, SYS_CALL_HANDLER = 0x400210, RTC_HANDLER = 0x400220, KEY_HANDLER = 0x400230\<rparr>"

definition zero_idt :: idt_desc where
  "zero_idt = \<lparr>offset_15_00 = 0, seg_selector = 0, reserved4 = 0, reserved3 = 0, reserved2 = 0, reserved1 = 0, idt_size = 0,
     reserved0 = 0, idt_dpl = 0, idt_present = 0, offset_31_16 = 0\<rparr>"

theorem boot_idt_entries_witness:
  "\<exists>idt. init_idt sample_linkage (replicate 256 zero_idt) = Some idt \<and>
    map (\<lambda>d. hw_gate (pack_idt d)) idt = map (boot_gate sample_linkage) [0..<256] \<and>
    {v. v < 256 \<and> (\<exists>g. hw_gate (pack_idt (idt ! v)) = Some g \<and> g_dpl g = 3)} = {3, 4, 5, 0x80}"
  using boot_idt_entries [of "replicate 256 zero_idt" sample_linkage]
  by (simp add: zero_idt_def sample_linkage_def)

section \<open>Segment descriptors\<close>

text \<open>The base and the limit as the processor assembles them from a descriptor.\<close>

definition seg_base :: "seg_desc \<Rightarrow> u32" where
  "seg_base d = push_bit 24 (ucast (base_31_24 d)) OR push_bit 16 (ucast (base_23_16 d)) OR ucast (base_15_00 d)"

definition seg_limit :: "seg_desc \<Rightarrow> u32" where
  "seg_limit d = push_bit 16 (ucast (seg_lim_19_16 d)) OR ucast (seg_lim_15_00 d)"

lemma base_round_trip:
  "push_bit 24 (ucast (ucast (drop_bit 24 (a AND 0xFF000000)) :: byte)) OR push_bit 16 (ucast (ucast (drop_bit 16 (a AND 0x00FF0000)) :: byte)) OR
     ucast (ucast (a AND 0x0000FFFF) :: u16) = (a :: u32)"
proof -
  have m: "(0xFF000000 :: u32) = push_bit 24 (mask 8)" "(0x00FF0000 :: u32) = push_bit 16 (mask 8)" "(0x0000FFFF :: u32) = mask 16"
    by code_simp+
  show ?thesis unfolding m
  proof (rule bit_word_eqI)
    fix n
    show "bit (push_bit 24 (ucast (ucast (drop_bit 24 (a AND push_bit 24 (mask 8))) :: byte)) OR
        push_bit 16 (ucast (ucast (drop_bit 16 (a AND push_bit 16 (mask 8))) :: byte)) OR ucast (ucast (a AND mask 16) :: u16) :: u32) n = bit a n"
      by (cases "n < 24") (auto simp: bit_simps dest: bit_imp_le_length)
  qed
qed

lemma limit_round_trip:
  "push_bit 16 (ucast (ucast (drop_bit 16 (a AND 0x000F0000)) :: 4 word)) OR ucast (ucast (a AND 0x0000FFFF) :: u16) = (a AND 0xFFFFF :: u32)"
proof -
  have m: "(0x000F0000 :: u32) = push_bit 16 (mask 4)" "(0x0000FFFF :: u32) = mask 16" "(0xFFFFF :: u32) = mask 20"
    by code_simp+
  show ?thesis unfolding m by (rule bit_word_eqI) (auto simp: bit_simps)
qed

lemma task_state_descriptor:
  "seg_base (the_tss_desc a lim d) = a" "seg_limit (the_tss_desc a lim d) = lim AND 0xFFFFF"
  "seg_type (the_tss_desc a lim d) = 9" "seg_present (the_tss_desc a lim d) = 1"
  using base_round_trip [of a] limit_round_trip [of lim]
  by (simp_all add: seg_base_def seg_limit_def the_tss_desc_def SET_TSS_PARAMS_def)

lemma local_table_descriptor:
  "seg_base (the_ldt_desc a lim d) = a" "seg_limit (the_ldt_desc a lim d) = lim AND 0xFFFFF"
  "seg_type (the_ldt_desc a lim d) = 2" "seg_present (the_ldt_desc a lim d) = 1"
  using base_round_trip [of a] limit_round_trip [of lim]
  by (simp_all add: seg_base_def seg_limit_def the_ldt_desc_def SET_LDT_PARAMS_def)

end
