(* ===== verification/Pcb.thy ===== *)
theory Pcb
  imports Console
begin

text \<open>
  File descriptors and process control blocks of \<^verbatim>\<open>student-distrib/pcb.h\<close>. The control blocks live
  at the addresses \<open>sys_execute_c\<close> computes; \<open>pcb_heap\<close> maps such an address to the block there
  and \<open>cur_pcb\<close> is the global pointer.
\<close>

section \<open>Definitions\<close>

text \<open>
  \<open>file_op_ptr\<close> points to one of the four jump tables of \<^verbatim>\<open>sys_calls.h\<close>: the table is named by a
  constructor, \<open>None\<close> is the null pointer.
\<close>

datatype fd_table = rtc_table | dir_table | file_table | terminal_table

record file_desc =
  file_op_ptr :: "fd_table option"
  inode :: u32
  file_pos :: u32
  flags :: u32

record pcb =
  file_array :: "file_desc list"
  old_pcb_ptr :: addr
  input :: "byte list"
  old_phys_addr :: u32
  old_esp0 :: u32
  old_ebp :: u32

record procs = console +
  cur_pcb :: addr
  pcb_heap :: "addr \<Rightarrow> pcb"

definition RTC_FILE :: u32 where "RTC_FILE = 0"
definition DIR_FILE :: u32 where "DIR_FILE = 1"
definition REG_FILE :: u32 where "REG_FILE = 2"

definition USE_MASK :: u32 where "USE_MASK = 0x00000001"
definition TYPE_MASK :: u32 where "TYPE_MASK = 0x00000006"
definition I_IDX_MASK :: u32 where "I_IDX_MASK = 0x000FFF00"
definition I_IDX_CLEAR :: u32 where "I_IDX_CLEAR = 0xFFF000FF"

definition TYPE_SHIFT :: nat where "TYPE_SHIFT = 1"
definition I_IDX_SHIFT :: nat where "I_IDX_SHIFT = 8"

text \<open>The expression \<open>(cur_pcb->file_array)[fd]\<close> as a value and as the target of an assignment.\<close>

definition cur_files :: "'a procs_scheme \<Rightarrow> file_desc list" where
  "cur_files s = file_array (pcb_heap s (cur_pcb s))"

definition get_fd :: "'a procs_scheme \<Rightarrow> nat \<Rightarrow> file_desc" where
  "get_fd s fd = cur_files s ! fd"

definition set_fd :: "nat \<Rightarrow> file_desc \<Rightarrow> 'a procs_scheme \<Rightarrow> 'a procs_scheme" where
  "set_fd fd d s =
     (let p = pcb_heap s (cur_pcb s)
      in s\<lparr>pcb_heap := (pcb_heap s)(cur_pcb s := p\<lparr>file_array := (file_array p)[fd := d]\<rparr>)\<rparr>)"

text \<open>\<open>flags % 2 == 0\<close>: the descriptor is free. The loop that looks for one starts at 2.\<close>

definition fd_free :: "file_desc \<Rightarrow> bool" where
  "fd_free d \<longleftrightarrow> flags d mod 2 = 0"

function first_free_from :: "file_desc list \<Rightarrow> nat \<Rightarrow> nat option" where
  "first_free_from fa i =
     (if 8 \<le> i then None else if fd_free (fa ! i) then Some i else first_free_from fa (Suc i))"
  by auto
termination
  by (relation "measure (\<lambda>(fa, i). 8 - i)") auto

definition first_free :: "'a procs_scheme \<Rightarrow> nat option" where
  "first_free s = first_free_from (cur_files s) 2"

declare first_free_from.simps [simp del]

section \<open>Descriptor lookups and updates\<close>

definition files_ok :: "'a procs_scheme \<Rightarrow> bool" where
  "files_ok s \<longleftrightarrow> length (cur_files s) = 8"

lemma get_set_fd [simp]:
  "files_ok s \<Longrightarrow> i < 8 \<Longrightarrow> get_fd (set_fd j d s) i = (if i = j then d else get_fd s i)"
  by (simp add: get_fd_def set_fd_def cur_files_def files_ok_def Let_def nth_list_update)

lemma set_fd_frame [simp]:
  "mem (set_fd i d s) = mem s" "port_log (set_fd i d s) = port_log s" "if_flag (set_fd i d s) = if_flag s"
  "cur_pcb (set_fd i d s) = cur_pcb s" "procs.more (set_fd i d s) = procs.more s"
  "screen_x (set_fd i d s) = screen_x s" "screen_y (set_fd i d s) = screen_y s"
  "files_ok (set_fd i d s) = files_ok s" "device (set_fd i d s) = device s"
  "a \<noteq> cur_pcb s \<Longrightarrow> pcb_heap (set_fd i d s) a = pcb_heap s a"
  "cur_files (set_fd i d s) = (cur_files s)[i := d]"
  by (simp_all add: set_fd_def Let_def files_ok_def cur_files_def)

lemma first_free_from_Some:
  "first_free_from fa i = Some j \<Longrightarrow> i \<le> j \<and> j < 8 \<and> fd_free (fa ! j) \<and> (\<forall>k. i \<le> k \<and> k < j \<longrightarrow> \<not> fd_free (fa ! k))"
proof (induction fa i rule: first_free_from.induct)
  case (1 fa i)
  show ?case
  proof (cases "8 \<le> i \<or> fd_free (fa ! i)")
    case True
    with 1(2) show ?thesis by (auto simp: first_free_from.simps [of fa i] split: if_splits)
  next
    case False
    with 1 have "Suc i \<le> j \<and> j < 8 \<and> fd_free (fa ! j) \<and> (\<forall>k. Suc i \<le> k \<and> k < j \<longrightarrow> \<not> fd_free (fa ! k))"
      by (auto simp: first_free_from.simps [of fa i] split: if_splits)
    with False show ?thesis by (metis Suc_leD Suc_leI le_eq_less_or_eq)
  qed
qed

lemma first_free_from_None:
  "first_free_from fa i = None \<Longrightarrow> i \<le> k \<Longrightarrow> k < 8 \<Longrightarrow> \<not> fd_free (fa ! k)"
proof (induction fa i rule: first_free_from.induct)
  case (1 fa i)
  then show ?case
    by (auto simp: first_free_from.simps [of fa i] split: if_splits) (metis Suc_leI le_eq_less_or_eq)
qed

text \<open>The loop finds the least free descriptor from 2 on.\<close>

lemma first_free_Some_iff:
  "first_free s = Some i \<longleftrightarrow> 2 \<le> i \<and> i < 8 \<and> fd_free (get_fd s i) \<and> (\<forall>k. 2 \<le> k \<and> k < i \<longrightarrow> \<not> fd_free (get_fd s k))"
proof
  assume "first_free s = Some i"
  then show "2 \<le> i \<and> i < 8 \<and> fd_free (get_fd s i) \<and> (\<forall>k. 2 \<le> k \<and> k < i \<longrightarrow> \<not> fd_free (get_fd s k))"
    using first_free_from_Some [of "cur_files s" 2 i] by (simp add: first_free_def get_fd_def)
next
  assume r: "2 \<le> i \<and> i < 8 \<and> fd_free (get_fd s i) \<and> (\<forall>k. 2 \<le> k \<and> k < i \<longrightarrow> \<not> fd_free (get_fd s k))"
  show "first_free s = Some i"
  proof (cases "first_free s")
    case None
    then show ?thesis
      using first_free_from_None [of "cur_files s" 2 i] r by (simp add: first_free_def get_fd_def)
  next
    case (Some j)
    then have "2 \<le> j \<and> j < 8 \<and> fd_free (get_fd s j) \<and> (\<forall>k. 2 \<le> k \<and> k < j \<longrightarrow> \<not> fd_free (get_fd s k))"
      using first_free_from_Some [of "cur_files s" 2 j] by (simp add: first_free_def get_fd_def)
    with r Some show ?thesis by (metis linorder_neqE_nat)
  qed
qed

lemma first_free_None_iff: "first_free s = None \<longleftrightarrow> (\<forall>k. 2 \<le> k \<and> k < 8 \<longrightarrow> \<not> fd_free (get_fd s k))"
proof
  assume "first_free s = None"
  then show "\<forall>k. 2 \<le> k \<and> k < 8 \<longrightarrow> \<not> fd_free (get_fd s k)"
    using first_free_from_None [of "cur_files s" 2] by (auto simp: first_free_def get_fd_def)
next
  assume "\<forall>k. 2 \<le> k \<and> k < 8 \<longrightarrow> \<not> fd_free (get_fd s k)"
  then show "first_free s = None"
    using first_free_Some_iff [of s] by (metis option.exhaust)
qed

section \<open>The contract of a driver\<close>

text \<open>
  What the system calls rely on when they go through a jump table: a successful open marks the
  least free descriptor, a successful close frees one, and neither touches another descriptor.
\<close>

locale fd_driver =
  fixes files :: "'s \<Rightarrow> file_desc list"
    and opn :: "'s \<Rightarrow> (int \<times> 's) option"
    and cls :: "int \<Rightarrow> 's \<Rightarrow> (int \<times> 's) option"
  assumes open_success: "length (files s) = 8 \<Longrightarrow> opn s = Some (0, s') \<Longrightarrow>
      \<exists>i d. first_free_from (files s) 2 = Some i \<and> files s' = (files s)[i := d] \<and> \<not> fd_free d"
    and open_failure: "opn s = Some (r, s') \<Longrightarrow> r \<noteq> 0 \<Longrightarrow> files s' = files s"
    and close_success: "cls fd s = Some (0, s') \<Longrightarrow> 2 \<le> fd \<and> fd < 8 \<and> \<not> fd_free (files s ! nat fd) \<and>
      files s' = (files s)[nat fd := (files s ! nat fd)\<lparr>flags := 0\<rparr>]"
    and close_failure: "cls fd s = Some (r, s') \<Longrightarrow> r \<noteq> 0 \<Longrightarrow> s' = s"
    and close_opened: "length (files s) = 8 \<Longrightarrow> opn s = Some (0, s') \<Longrightarrow> first_free_from (files s) 2 = Some i \<Longrightarrow>
      \<exists>s''. cls (int i) s' = Some (0, s'')"
begin

lemma open_takes_one:
  assumes "length (files s) = 8" "opn s = Some (0, s')"
  obtains i where "first_free_from (files s) 2 = Some i" "2 \<le> i" "i < 8" "\<not> fd_free (files s' ! i)"
    "\<And>k. k \<noteq> i \<Longrightarrow> files s' ! k = files s ! k" "length (files s') = 8"
proof -
  obtain i d where i: "first_free_from (files s) 2 = Some i" "files s' = (files s)[i := d]" "\<not> fd_free d"
    using open_success [OF assms] by blast
  moreover have "2 \<le> i" "i < 8" using first_free_from_Some [OF i(1)] by simp_all
  ultimately show thesis using that [of i] assms(1) by simp
qed

lemma open_then_close:
  assumes "length (files s) = 8" "opn s = Some (0, s')"
  obtains i s'' where "first_free_from (files s) 2 = Some i" "cls (int i) s' = Some (0, s'')"
    "fd_free (files s'' ! i)" "\<And>k. k \<noteq> i \<Longrightarrow> files s'' ! k = files s ! k" "length (files s'') = 8"
proof -
  obtain i where i: "first_free_from (files s) 2 = Some i" "i < 8" "length (files s') = 8"
    "\<And>k. k \<noteq> i \<Longrightarrow> files s' ! k = files s ! k"
    using open_takes_one [OF assms] by blast
  obtain s'' where c: "cls (int i) s' = Some (0, s'')" using close_opened [OF assms i(1)] by blast
  have "files s'' = (files s')[i := (files s' ! i)\<lparr>flags := 0\<rparr>]" using close_success [OF c] by simp
  then show thesis using that [OF i(1) c] i by (simp add: fd_free_def)
qed

lemma failure_keeps_descriptors:
  "opn s = Some (r, s') \<Longrightarrow> r \<noteq> 0 \<Longrightarrow> files s' = files s"
  "cls fd s = Some (r, s') \<Longrightarrow> r \<noteq> 0 \<Longrightarrow> files s' = files s"
  using open_failure by (auto dest: close_failure)

end

text \<open>Every driver of the kernel marks the flags with one value and meets the contract the same way.\<close>

lemma fd_driverI:
  assumes opens: "\<And>s r s'. opn s = Some (r, s') \<Longrightarrow> (r = -1 \<and> files s' = files s) \<or>
      (r = 0 \<and> (\<exists>i d. first_free_from (files s) 2 = Some i \<and> flags d = F \<and> files s' = (files s)[i := d]))"
    and used: "F mod 2 \<noteq> 0"
    and closes: "\<And>fd s r s'. cls fd s = Some (r, s') \<Longrightarrow> (r = -1 \<and> s' = s) \<or>
      (r = 0 \<and> 2 \<le> fd \<and> fd < 8 \<and> \<not> fd_free (files s ! nat fd) \<and>
       files s' = (files s)[nat fd := (files s ! nat fd)\<lparr>flags := 0\<rparr>])"
    and reclose: "\<And>s i. 2 \<le> i \<Longrightarrow> i < 8 \<Longrightarrow> flags (files s ! i) = F \<Longrightarrow> \<exists>s'. cls (int i) s = Some (0, s')"
  shows "fd_driver files opn cls"
proof
  fix s s' r fd i
  show "\<exists>i d. first_free_from (files s) 2 = Some i \<and> files s' = (files s)[i := d] \<and> \<not> fd_free d"
    if "opn s = Some (0, s')"
    using opens [OF that] used by (auto simp: fd_free_def)
  show "files s' = files s" if "opn s = Some (r, s')" "r \<noteq> 0" using opens [OF that(1)] that(2) by auto
  show "2 \<le> fd \<and> fd < 8 \<and> \<not> fd_free (files s ! nat fd) \<and> files s' = (files s)[nat fd := (files s ! nat fd)\<lparr>flags := 0\<rparr>]"
    if "cls fd s = Some (0, s')"
    using closes [OF that] by auto
  show "s' = s" if "cls fd s = Some (r, s')" "r \<noteq> 0" using closes [OF that(1)] that(2) by auto
  show "\<exists>s''. cls (int i) s' = Some (0, s'')"
    if a: "length (files s) = 8" "opn s = Some (0, s')" "first_free_from (files s) 2 = Some i"
  proof (rule reclose)
    show "2 \<le> i" "i < 8" using first_free_from_Some [OF a(3)] by simp_all
    then show "flags (files s' ! i) = F" using opens [OF a(2)] a(1,3) by auto
  qed
qed

end
