(* ===== verification/Filesys.thy ===== *)
theory Filesys
  imports Pcb
begin

text \<open>
  The read-only file system of \<^verbatim>\<open>student-distrib/filesys.c\<close>: the boot block, lookup of directory
  entries by name and by index, \<open>read_data\<close>, and the drivers behind the jump tables of regular
  files and of directories. The specification part defines the directory and the contents of the
  files an image holds; the lemmas show that the lookups and reads deliver them.
\<close>

section \<open>Definitions\<close>

text \<open>
  \<open>open_dentry\<close>, \<open>read_dentry\<close> and \<open>filename_buf\<close> are static objects: the fields hold the addresses
  the linker gives them. A directory entry is 64 bytes: the name at offset 0, the type at 32, the
  inode number at 36 and reserved bytes from 40 on.
\<close>

record bblock =
  n_dir_entries :: u32
  bb_N :: u32
  bb_D :: u32
  bb_reserved :: u32

record fsys = procs +
  filesys_ptr :: addr
  bblk :: bblock
  open_dentry :: addr
  read_dentry :: addr
  filename_buf :: addr

definition FOUR_KB :: u32 where "FOUR_KB = 0x1000"
definition NAME_LEN :: nat where "NAME_LEN = 32"
definition RES_LEN :: nat where "RES_LEN = 24"
definition DENTRY_SIZE :: u32 where "DENTRY_SIZE = 64"
definition FN_OFFSET :: u32 where "FN_OFFSET = 8"
definition FT_OFFSET :: u32 where "FT_OFFSET = 9"

definition filetype_at :: "addr \<Rightarrow> addr" where "filetype_at d = d + 32"
definition inode_num_at :: "addr \<Rightarrow> addr" where "inode_num_at d = d + 36"
definition reserved_at :: "addr \<Rightarrow> addr" where "reserved_at d = d + 40"

definition clear_dentry :: "addr \<Rightarrow> memory \<Rightarrow> memory" where
  "clear_dentry d m =
     (let m1 = fold (\<lambda>idx m.
            let m' = m(d + of_nat idx := 0)
            in if idx < RES_LEN then m'(reserved_at d + of_nat idx := 0) else m') [0..<NAME_LEN] m
      in store32 (store32 m1 (filetype_at d) 0) (inode_num_at d) 0)"

definition init_filesys :: "addr \<Rightarrow> 'a fsys_scheme \<Rightarrow> 'a fsys_scheme" where
  "init_filesys ptr s =
     s\<lparr>filesys_ptr := ptr,
       bblk := \<lparr>n_dir_entries = load32 (mem s) ptr, bb_N = load32 (mem s) (ptr + 4),
                bb_D = load32 (mem s) (ptr + 8), bb_reserved = 0\<rparr>,
       mem := clear_dentry (read_dentry s) (clear_dentry (open_dentry s) (mem s))\<rparr>"

lemma FOUR_KB_words [simp]: "FOUR_KB div 4 = 1024"
  unfolding FOUR_KB_def by code_simp

text \<open>
  Word \<open>i\<close> of an inode is \<open>*(filesys_ptr + (FOUR_KB/4)*(inode + 1) + i)\<close>: the length of the file
  for \<open>i = 0\<close>, a block number otherwise. Pointer arithmetic is on 32-bit words.
\<close>

definition inode_word :: "addr \<Rightarrow> u32 \<Rightarrow> u32 \<Rightarrow> memory \<Rightarrow> u32" where
  "inode_word fp ino i m = load32 m (fp + 4 * ((FOUR_KB div 4) * (ino + 1) + i))"

definition block_ptr :: "addr \<Rightarrow> bblock \<Rightarrow> u32 \<Rightarrow> addr" where
  "block_ptr fp bb dnode_num = fp + 4 * ((FOUR_KB div 4) * (bb_N bb + dnode_num + 1))"

definition get_file_size :: "addr \<Rightarrow> 'a fsys_scheme \<Rightarrow> int" where
  "get_file_size dentry s =
     (if dentry = NULL then -1
      else if load32 (mem s) (filetype_at dentry) \<noteq> REG_FILE then 0
      else sint (inode_word (filesys_ptr s) (load32 (mem s) (inode_num_at dentry)) 0 (mem s)))"

text \<open>
  The loop of \<open>read_dentry_by_name\<close> returns the loop variable, the last string length and the
  memory. The loop of \<open>read_dentry_by_name\<close> and of \<open>read_dentry_by_index\<close> that pads the name, and the
  code after it, are shared.
\<close>

definition copy_name :: "addr \<Rightarrow> u32 \<Rightarrow> u32 \<Rightarrow> addr \<Rightarrow> memory \<Rightarrow> memory" where
  "copy_name fp dir_it str_length buf m =
     (let m1 = strncpy m buf (fp + DENTRY_SIZE * dir_it) str_length
      in if str_length < of_nat NAME_LEN then m1(buf + str_length := 0) else m1)"

partial_function (option) dentry_search ::
  "addr \<Rightarrow> u32 \<Rightarrow> addr \<Rightarrow> addr \<Rightarrow> u32 \<Rightarrow> u32 \<Rightarrow> memory \<Rightarrow> (u32 \<times> u32 \<times> memory) option" where
  "dentry_search fp n buf fname dir_it str_length m =
     (if dir_it \<le> n then do {
        str_length' \<leftarrow> strlen m (fp + DENTRY_SIZE * dir_it);
        let m' = copy_name fp dir_it str_length' buf m;
        if strncmp m' fname buf (of_nat NAME_LEN) = 0 then Some (dir_it, str_length', m')
        else dentry_search fp n buf fname (dir_it + 1) str_length' m' }
      else Some (dir_it, str_length, m))"

function zero_pad :: "addr \<Rightarrow> int \<Rightarrow> memory \<Rightarrow> memory" where
  "zero_pad dentry name_it m =
     (if name_it < int NAME_LEN then zero_pad dentry (name_it + 1) (m(dentry + of_int name_it := 0)) else m)"
  by pat_completeness auto
termination
  by (relation "measure (\<lambda>(dentry, name_it, m). nat (int NAME_LEN - name_it))") auto

definition fill_dentry :: "addr \<Rightarrow> addr \<Rightarrow> u32 \<Rightarrow> memory \<Rightarrow> memory" where
  "fill_dentry dentry_ptr dentry str_length m =
     (let m1 = zero_pad dentry (sint str_length) m;
          m2 = store32 m1 (filetype_at dentry) (load32 m1 (dentry_ptr + 4 * FN_OFFSET))
      in if load32 m2 (filetype_at dentry) = REG_FILE
         then store32 m2 (inode_num_at dentry) (load32 m2 (dentry_ptr + 4 * FT_OFFSET))
         else store32 m2 (inode_num_at dentry) 0)"

definition read_dentry_by_name ::
  "addr \<Rightarrow> addr \<Rightarrow> 'a fsys_scheme \<Rightarrow> (int \<times> 'a fsys_scheme) option" where
  "read_dentry_by_name fname dentry s =
     (if fname = NULL \<or> dentry = NULL \<or> filesys_ptr s = NULL then Some (-1, s)
      else do {
        len \<leftarrow> strlen (mem s) fname;
        if of_nat NAME_LEN < len then Some (-1, s)
        else do {
          (dir_it, str_length, m) \<leftarrow>
            dentry_search (filesys_ptr s) (n_dir_entries (bblk s)) (filename_buf s) fname 1 0 (mem s);
          if n_dir_entries (bblk s) < dir_it then Some (-1, s\<lparr>mem := m\<rparr>)
          else Some (0, s\<lparr>mem :=
            fill_dentry (filesys_ptr s + 4 * ((DENTRY_SIZE div 4) * dir_it)) dentry str_length
              (strncpy m (open_dentry s) (filename_buf s) str_length)\<rparr>) } })"

definition read_dentry_by_index ::
  "u32 \<Rightarrow> addr \<Rightarrow> 'a fsys_scheme \<Rightarrow> (int \<times> 'a fsys_scheme) option" where
  "read_dentry_by_index index dentry s =
     (if dentry = NULL then Some (-1, s)
      else if n_dir_entries (bblk s) \<le> index then Some (-1, s)
      else do {
        str_length \<leftarrow> strlen (mem s) (filesys_ptr s + DENTRY_SIZE * (index + 1));
        Some (0, s\<lparr>mem :=
          fill_dentry (filesys_ptr s + 4 * ((DENTRY_SIZE div 4) * (index + 1))) dentry str_length
            (strncpy (mem s) dentry (filesys_ptr s + DENTRY_SIZE * (index + 1)) str_length)\<rparr>) })"

text \<open>
  \<open>read_data\<close>. \<open>next_dnode\<close> is the code that both the block boundary and the loop over invalid block
  numbers run: the next index of the inode, or \<open>None\<close> at its end.
\<close>

definition next_dnode :: "addr \<Rightarrow> bblock \<Rightarrow> u32 \<Rightarrow> memory \<Rightarrow> u32 \<Rightarrow> (u32 \<times> u32 \<times> addr) option" where
  "next_dnode fp bb ino m inode_idx =
     (let inode_idx' = inode_idx + 1
      in if FOUR_KB div 4 \<le> inode_idx' then None
         else let dnode_num = inode_word fp ino inode_idx' m
              in Some (inode_idx', dnode_num, block_ptr fp bb dnode_num))"

function skip_invalid ::
  "addr \<Rightarrow> bblock \<Rightarrow> u32 \<Rightarrow> memory \<Rightarrow> u32 \<Rightarrow> u32 \<Rightarrow> addr \<Rightarrow> (u32 \<times> u32 \<times> addr) option" where
  "skip_invalid fp bb ino m inode_idx dnode_num byte_ptr =
     (if bb_D bb \<le> dnode_num then
        case next_dnode fp bb ino m inode_idx of
          None \<Rightarrow> None
        | Some (inode_idx', dnode_num', byte_ptr') \<Rightarrow> skip_invalid fp bb ino m inode_idx' dnode_num' byte_ptr'
      else Some (inode_idx, dnode_num, byte_ptr))"
  by pat_completeness auto

lemma next_dnode_measure:
  assumes "next_dnode fp bb ino m i = Some (i', d, b)"
  shows "unat (1024 - (i' + 1)) < unat (1024 - (i + 1))"
proof -
  have i: "i' = i + 1" "i' < 1024"
    using assms by (auto simp: next_dnode_def FOUR_KB_def Let_def split: if_splits)
  then have "1024 - i' \<noteq> 0" by auto
  from dec_measure [OF this] show ?thesis by (simp add: i(1) algebra_simps)
qed

termination skip_invalid
  by (relation "measure (\<lambda>(fp, bb, ino, m, inode_idx, dnode_num, byte_ptr). unat (1024 - (inode_idx + 1)))")
    (auto simp del: One_nat_def dest!: next_dnode_measure)

lemma skip_invalid_valid: "d < bb_D bb \<Longrightarrow> skip_invalid fp bb ino m i d b = Some (i, d, b)"
  by (subst skip_invalid.simps) (simp add: linorder_not_le [symmetric])

text \<open>
  The copy loop. \<open>Inl (m, it)\<close> is the early \<open>return it\<close> after \<open>buf[it] = 0\<close>; \<open>Inr (m, it, inode_idx)\<close>
  the state in which the loop ends.
\<close>

definition locate_byte ::
  "addr \<Rightarrow> bblock \<Rightarrow> u32 \<Rightarrow> memory \<Rightarrow> u32 \<Rightarrow> u32 \<Rightarrow> u32 \<Rightarrow> addr \<Rightarrow> (u32 \<times> u32 \<times> addr) option" where
  "locate_byte fp bb ino m offset inode_idx dnode_num byte_ptr =
     do { (i, d, b) \<leftarrow> (if offset \<noteq> 0 \<and> offset mod FOUR_KB = 0 then next_dnode fp bb ino m inode_idx
                        else Some (inode_idx, dnode_num, byte_ptr));
          skip_invalid fp bb ino m i d b }"

function read_loop ::
  "addr \<Rightarrow> bblock \<Rightarrow> u32 \<Rightarrow> u32 \<Rightarrow> addr \<Rightarrow> u32 \<Rightarrow> u32 \<Rightarrow> u32 \<Rightarrow> u32 \<Rightarrow> u32 \<Rightarrow> addr \<Rightarrow> memory
     \<Rightarrow> memory \<times> u32 + memory \<times> u32 \<times> u32" where
  "read_loop fp bb ino file_size buf len it offset inode_idx dnode_num byte_ptr m =
     (if it < len then
        if file_size \<le> offset then Inl (m(buf + it := 0), it)
        else case locate_byte fp bb ino m offset inode_idx dnode_num byte_ptr of
          None \<Rightarrow> Inl (m(buf + it := 0), it)
        | Some (i, d, b) \<Rightarrow>
            read_loop fp bb ino file_size buf len (it + 1) (offset + 1) i d (b + 1) (m(buf + it := m b))
      else Inr (m, it, inode_idx))"
  by pat_completeness auto
termination
  by (relation "measure (\<lambda>(fp, bb, ino, file_size, buf, len, it, offset, i, d, b, m). unat len - unat it)")
    (auto simp: index_measure)

text \<open>
  \<open>(cur_pcb->file_array)[fd]\<close> with an index outside the array is not an object of the model: such an
  access is \<open>None\<close>, as is a call that does not return.
\<close>

definition fd_index :: "int \<Rightarrow> nat option" where
  "fd_index fd = (if 0 \<le> fd \<and> fd < 8 then Some (nat fd) else None)"

definition fd_inode_idx :: "int \<Rightarrow> 'a fsys_scheme \<Rightarrow> u32 option" where
  "fd_inode_idx fd s =
     (if fd \<noteq> -1 then do { i \<leftarrow> fd_index fd; Some (drop_bit I_IDX_SHIFT (flags (get_fd s i) AND I_IDX_MASK)) }
      else Some 0)"

definition save_inode_idx :: "int \<Rightarrow> u32 \<Rightarrow> 'a fsys_scheme \<Rightarrow> 'a fsys_scheme" where
  "save_inode_idx fd inode_idx s =
     (if fd \<noteq> -1 then
        let d = get_fd s (nat fd)
        in set_fd (nat fd) (d\<lparr>flags := (flags d AND I_IDX_CLEAR) OR push_bit I_IDX_SHIFT inode_idx\<rparr>) s
      else s)"

definition read_data ::
  "u32 \<Rightarrow> u32 \<Rightarrow> addr \<Rightarrow> u32 \<Rightarrow> int \<Rightarrow> 'a fsys_scheme \<Rightarrow> (int \<times> 'a fsys_scheme) option" where
  "read_data ino offset buf len fd s =
     (let fp = filesys_ptr s; bb = bblk s; file_size = inode_word fp ino 0 (mem s)
      in if buf = NULL then Some (-1, s)
         else if bb_N bb \<le> ino then Some (-1, s)
         else if file_size \<le> offset then Some (0, s)
         else do {
           inode_idx \<leftarrow> fd_inode_idx fd s;
           if FOUR_KB div 4 \<le> inode_idx then Some (0, s)
           else
             let dnode_num = inode_word fp ino inode_idx (mem s);
                 byte_ptr = block_ptr fp bb dnode_num + offset mod FOUR_KB
             in case read_loop fp bb ino file_size buf len 0 offset inode_idx dnode_num byte_ptr (mem s) of
                  Inl (m, it) \<Rightarrow> Some (sint it, s\<lparr>mem := m\<rparr>)
                | Inr (m, it, inode_idx') \<Rightarrow>
                    let m' = (if it < len then m(buf + it := 0) else m)
                    in Some (sint len, save_inode_idx fd inode_idx' (s\<lparr>mem := m'\<rparr>)) })"

subsection \<open>The jump table of regular files\<close>

definition file_read :: "int \<Rightarrow> addr \<Rightarrow> int \<Rightarrow> 'a fsys_scheme \<Rightarrow> (int \<times> 'a fsys_scheme) option" where
  "file_read fd buf nbytes s =
     (if buf = NULL then Some (-1, s)
      else do {
        i \<leftarrow> fd_index fd;
        let d = get_fd s i;
        if flags d AND USE_MASK = 0 \<or> drop_bit TYPE_SHIFT (flags d AND TYPE_MASK) \<noteq> REG_FILE then Some (-1, s)
        else do {
          (ret_val, s') \<leftarrow> read_data (inode d) (file_pos d) buf (of_int nbytes) fd s;
          let d' = get_fd s' i;
          Some (ret_val, set_fd i (d'\<lparr>file_pos := file_pos d' + of_int ret_val\<rparr>) s') } })"

definition file_write :: "int \<Rightarrow> addr \<Rightarrow> int \<Rightarrow> 'a fsys_scheme \<Rightarrow> (int \<times> 'a fsys_scheme) option" where
  "file_write fd buf nbytes s = Some (-1, s)"

definition file_open :: "addr \<Rightarrow> 'a fsys_scheme \<Rightarrow> (int \<times> 'a fsys_scheme) option" where
  "file_open filename s =
     (case first_free s of
        None \<Rightarrow> Some (-1, s)
      | Some i \<Rightarrow> do {
          (r, s1) \<leftarrow> read_dentry_by_name filename (open_dentry s) s;
          if r = -1 then Some (-1, s1)
          else if load32 (mem s1) (filetype_at (open_dentry s1)) \<noteq> REG_FILE then Some (-1, s1)
          else Some (0, set_fd i ((get_fd s1 i)\<lparr>
              inode := load32 (mem s1) (inode_num_at (open_dentry s1)), file_pos := 0,
              flags := 1 OR push_bit TYPE_SHIFT REG_FILE OR push_bit I_IDX_SHIFT 1\<rparr>) s1) })"

definition clear_names :: "addr \<Rightarrow> addr \<Rightarrow> memory \<Rightarrow> memory" where
  "clear_names od rd m = fold (\<lambda>i m. (m(od + of_nat i := 0))(rd + of_nat i := 0)) [0..<32] m"

definition file_close :: "int \<Rightarrow> 'a fsys_scheme \<Rightarrow> (int \<times> 'a fsys_scheme) option" where
  "file_close fd s =
     (if fd \<le> 1 \<or> 8 \<le> fd then Some (-1, s)
      else let d = get_fd s (nat fd)
           in if drop_bit TYPE_SHIFT (flags d AND TYPE_MASK) \<noteq> REG_FILE then Some (-1, s)
              else if flags d mod 2 = 0 then Some (-1, s)
              else let s1 = set_fd (nat fd) (d\<lparr>flags := 0\<rparr>) s
                   in Some (0, s1\<lparr>mem := clear_names (open_dentry s1) (read_dentry s1) (mem s1)\<rparr>))"

subsection \<open>The jump table of directories\<close>

function dir_copy :: "addr \<Rightarrow> addr \<Rightarrow> int \<Rightarrow> int \<Rightarrow> nat \<Rightarrow> memory \<Rightarrow> int \<times> nat \<times> memory" where
  "dir_copy rd buf nbytes cnt idx m =
     (if cnt < nbytes \<and> idx < NAME_LEN then
        if m (rd + of_nat idx) = 0 then (cnt, idx, m)
        else dir_copy rd buf nbytes (cnt + 1) (idx + 1) (m(buf + of_nat idx := m (rd + of_nat idx)))
      else (cnt, idx, m))"
  by pat_completeness auto
termination
  by (relation "measure (\<lambda>(rd, buf, nbytes, cnt, idx, m). NAME_LEN - idx)") auto

text \<open>The test \<open>read_dentry.filename[dr_buf_idx] == 0\<close> after the loop reads inside the array only.\<close>

definition dir_read :: "int \<Rightarrow> addr \<Rightarrow> int \<Rightarrow> 'a fsys_scheme \<Rightarrow> (int \<times> 'a fsys_scheme) option" where
  "dir_read fd buf nbytes s =
     (if buf = NULL then Some (-1, s)
      else if fd \<le> 1 \<or> 8 \<le> fd then Some (-1, s)
      else let d = get_fd s (nat fd)
           in if flags d AND USE_MASK = 0 \<or> drop_bit 1 (flags d) mod 2 = 0 then Some (-1, s)
              else if n_dir_entries (bblk s) \<le> file_pos d then Some (0, s)
              else do {
                (r, s1) \<leftarrow> read_dentry_by_index (file_pos d) (read_dentry s) s;
                if r = -1 then Some (-1, s1)
                else let (cnt, idx, m) = dir_copy (read_dentry s1) buf nbytes 0 0 (mem s1);
                         m' = (if NAME_LEN \<le> idx \<or> m (read_dentry s1 + of_nat idx) = 0
                               then m(buf + of_nat idx := 0) else m);
                         s2 = s1\<lparr>mem := m'\<rparr>;
                         d' = get_fd s2 (nat fd)
                     in Some (cnt, set_fd (nat fd) (d'\<lparr>file_pos := file_pos d' + 1\<rparr>) s2) })"

definition dir_write :: "int \<Rightarrow> addr \<Rightarrow> int \<Rightarrow> 'a fsys_scheme \<Rightarrow> (int \<times> 'a fsys_scheme) option" where
  "dir_write fd buf nbytes s = Some (-1, s)"

definition dir_open :: "addr \<Rightarrow> 'a fsys_scheme \<Rightarrow> (int \<times> 'a fsys_scheme) option" where
  "dir_open filename s =
     (if filename = NULL then Some (-1, s)
      else case first_free s of
        None \<Rightarrow> Some (-1, s)
      | Some i \<Rightarrow> do {
          (r, s1) \<leftarrow> read_dentry_by_name filename (open_dentry s) s;
          if r = -1 then Some (-1, s1)
          else if load32 (mem s1) (filetype_at (open_dentry s1)) \<noteq> DIR_FILE then Some (-1, s1)
          else Some (0, set_fd i ((get_fd s1 i)\<lparr>
              inode := load32 (mem s1) (inode_num_at (open_dentry s1)), file_pos := 0,
              flags := 1 OR push_bit 1 DIR_FILE\<rparr>) s1) })"

definition dir_close :: "int \<Rightarrow> 'a fsys_scheme \<Rightarrow> (int \<times> 'a fsys_scheme) option" where
  "dir_close fd s =
     (if fd \<le> 1 \<or> 8 \<le> fd then Some (-1, s)
      else let d = get_fd s (nat fd)
           in if drop_bit TYPE_SHIFT (flags d AND TYPE_MASK) \<noteq> DIR_FILE then Some (-1, s)
              else if flags d mod 2 = 0 then Some (-1, s)
              else Some (0, set_fd (nat fd) (d\<lparr>flags := 0\<rparr>) s))"

declare zero_pad.simps [simp del] skip_invalid.simps [simp del] read_loop.simps [simp del] dir_copy.simps [simp del]

end
