(* ===== verification/Filesys_Data.thy ===== *)
theory Filesys_Data
  imports Filesys
begin

text \<open>
  Reading files: the contents of a file as the image defines them, and proofs that \<open>read_data\<close> and
  \<open>file_read\<close> deliver them, block boundaries and the end of the file included. The locale
  \<open>cursor_reader\<close> is the contract of a sequential read through a descriptor.
\<close>

section \<open>The contents of a file\<close>

definition inode_size :: "addr \<Rightarrow> u32 \<Rightarrow> memory \<Rightarrow> nat" where
  "inode_size fp ino m = unat (inode_word fp ino 0 m)"

definition file_byte :: "addr \<Rightarrow> bblock \<Rightarrow> u32 \<Rightarrow> memory \<Rightarrow> nat \<Rightarrow> byte" where
  "file_byte fp bb ino m p =
     m (block_ptr fp bb (inode_word fp ino (of_nat (p div 4096 + 1)) m) + of_nat (p mod 4096))"

definition file_content :: "addr \<Rightarrow> bblock \<Rightarrow> u32 \<Rightarrow> memory \<Rightarrow> byte list" where
  "file_content fp bb ino m = map (file_byte fp bb ino m) [0..<inode_size fp ino m]"

text \<open>The image occupies the boot block, \<open>N\<close> inodes and \<open>D\<close> data blocks of 4 kB each.\<close>

definition image_size :: "bblock \<Rightarrow> nat" where
  "image_size bb = 4096 * (1 + unat (bb_N bb) + unat (bb_D bb))"

definition inode_ok :: "addr \<Rightarrow> bblock \<Rightarrow> u32 \<Rightarrow> memory \<Rightarrow> bool" where
  "inode_ok fp bb ino m \<longleftrightarrow> ino < bb_N bb \<and> image_size bb \<le> 4294967296 \<and> inode_size fp ino m \<le> 1023 * 4096 \<and>
     (\<forall>k \<in> set [0..<(inode_size fp ino m + 4095) div 4096]. inode_word fp ino (of_nat (k + 1)) m < bb_D bb)"

text \<open>The index of the inode the descriptor keeps: it still points at the block of the last byte read.\<close>

definition blk_idx :: "nat \<Rightarrow> nat" where
  "blk_idx p = (if p = 0 then 1 else (p - 1) div 4096 + 1)"

section \<open>The image as memory\<close>

lemma inode_word_region:
  assumes "inode_ok fp bb ino m" "i < 1024" "in_region (fp + 4 * ((FOUR_KB div 4) * (ino + 1) + of_nat i)) 4 x"
  shows "in_region fp (image_size bb) x"
proof -
  have "unat ino < unat (bb_N bb)" using assms(1) by (simp add: inode_ok_def word_less_nat_alt)
  then have "4096 * (unat ino + 1) + 4 * i + 4 \<le> image_size bb"
    using assms(2) by (simp add: image_size_def)
  moreover have "fp + 4 * ((FOUR_KB div 4) * (ino + 1) + of_nat i) = fp + of_nat (4096 * (unat ino + 1) + 4 * i)"
    by (simp add: algebra_simps)
  ultimately show ?thesis using assms(3) by (metis in_region_shift)
qed

lemma block_region:
  assumes "inode_ok fp bb ino m" "d < bb_D bb" "p < 4096"
  shows "in_region fp (image_size bb) (block_ptr fp bb d + of_nat p)"
proof -
  have "unat d < unat (bb_D bb)" using assms(2) by (simp add: word_less_nat_alt)
  then have "4096 * (unat (bb_N bb) + unat d + 1) + p < image_size bb"
    using assms(3) by (simp add: image_size_def)
  moreover have "block_ptr fp bb d + of_nat p = fp + of_nat (4096 * (unat (bb_N bb) + unat d + 1) + p)"
    by (simp add: block_ptr_def algebra_simps)
  moreover have "image_size bb \<le> 4294967296" using assms(1) by (simp add: inode_ok_def)
  ultimately show ?thesis by (simp only:) (subst in_region_offset, simp_all)
qed

lemma inode_word_store:
  assumes "inode_ok fp bb ino m" "separate buf (length bs) fp (image_size bb)" "i < 1024"
  shows "inode_word fp ino (of_nat i) (store_bytes m buf bs) = inode_word fp ino (of_nat i) m"
  unfolding inode_word_def
  by (rule load32_cong) (meson assms inode_word_region store_bytes_other)

lemma block_valid:
  assumes "inode_ok fp bb ino m" "p < inode_size fp ino m"
  shows "inode_word fp ino (of_nat (p div 4096 + 1)) m < bb_D bb" "p div 4096 + 1 < 1024"
proof -
  have "p div 4096 < (inode_size fp ino m + 4095) div 4096" using assms(2) by linarith
  then show "inode_word fp ino (of_nat (p div 4096 + 1)) m < bb_D bb"
    using assms(1) unfolding inode_ok_def by auto
  have "inode_size fp ino m \<le> 1023 * 4096" using assms(1) by (simp add: inode_ok_def)
  then show "p div 4096 + 1 < 1024" using assms(2) by linarith
qed

lemma file_byte_store:
  assumes "inode_ok fp bb ino m" "separate buf (length bs) fp (image_size bb)" "p < inode_size fp ino m"
  shows "store_bytes m buf bs (block_ptr fp bb (inode_word fp ino (of_nat (p div 4096 + 1)) m) + of_nat (p mod 4096))
     = file_byte fp bb ino m p"
proof -
  have "in_region fp (image_size bb)
      (block_ptr fp bb (inode_word fp ino (of_nat (p div 4096 + 1)) m) + of_nat (p mod 4096))"
    using block_valid [OF assms(1,3)] by (intro block_region [OF assms(1)]) auto
  with assms(2) show ?thesis unfolding file_byte_def by (rule store_bytes_other)
qed

section \<open>The copy loop\<close>

lemma blk_idx_step: "blk_idx (Suc p) = p div 4096 + 1"
  by (simp add: blk_idx_def)

lemma blk_idx_div:
  "p = 0 \<or> p mod 4096 \<noteq> 0 \<Longrightarrow> blk_idx p = p div 4096 + 1"
  "p \<noteq> 0 \<Longrightarrow> p mod 4096 = 0 \<Longrightarrow> blk_idx p + 1 = p div 4096 + 1"
proof -
  show "blk_idx p = p div 4096 + 1" if "p = 0 \<or> p mod 4096 \<noteq> 0"
  proof (cases p)
    case (Suc q)
    then have "q div 4096 = Suc q div 4096" using that by (simp add: div_Suc)
    with Suc show ?thesis by (simp add: blk_idx_step)
  qed (simp add: blk_idx_def)
  show "blk_idx p + 1 = p div 4096 + 1" if "p \<noteq> 0" "p mod 4096 = 0"
  proof (cases p)
    case (Suc q)
    then have "Suc (q div 4096) = Suc q div 4096" using that by (simp add: div_Suc)
    with Suc show ?thesis by (simp add: blk_idx_step)
  qed (use that in simp)
qed

lemma of_nat_mod_4096: "p < 4294967296 \<Longrightarrow> of_nat p mod (4096 :: u32) = of_nat (p mod 4096)"
  by (simp add: word_unat_eq_iff unat_mod_distrib unat_of_nat_addr unat_of_nat)

text \<open>At a position inside the file the loop finds the block of that position.\<close>

lemma locate_byte_at:
  assumes ok: "inode_ok fp bb ino m" and sep: "separate buf (length bs) fp (image_size bb)"
    and p: "p < inode_size fp ino m"
    and bp: "p = 0 \<or> p mod 4096 \<noteq> 0 \<Longrightarrow>
      d = inode_word fp ino (of_nat (blk_idx p)) m \<and> b = block_ptr fp bb d + of_nat (p mod 4096)"
  shows "locate_byte fp bb ino (store_bytes m buf bs) (of_nat p) (of_nat (blk_idx p)) d b =
     Some (of_nat (p div 4096 + 1), inode_word fp ino (of_nat (p div 4096 + 1)) m,
       block_ptr fp bb (inode_word fp ino (of_nat (p div 4096 + 1)) m) + of_nat (p mod 4096))"
proof -
  note valid = block_valid [OF ok p]
  have lim: "p < 4294967296" using p unat_addr_lt [of "inode_word fp ino 0 m"] by (simp add: inode_size_def)
  then have zero: "of_nat p = (0 :: u32) \<longleftrightarrow> p = 0"
    "of_nat p mod (4096 :: u32) = 0 \<longleftrightarrow> p mod 4096 = 0"
    using unat_of_nat_addr [of p] unat_of_nat_addr [of "p mod 4096"]
    by (auto simp: of_nat_mod_4096 word_unat_eq_iff simp del: word_of_nat_eq_0_iff)
  have skip: "skip_invalid fp bb ino m' i (inode_word fp ino (of_nat (p div 4096 + 1)) m) b' =
      Some (i, inode_word fp ino (of_nat (p div 4096 + 1)) m, b')" for m' i b'
    using valid(1) by (rule skip_invalid_valid)
  show ?thesis
  proof (cases "p = 0 \<or> p mod 4096 \<noteq> 0")
    case True
    with bp have "d = inode_word fp ino (of_nat (p div 4096 + 1)) m" "b = block_ptr fp bb d + of_nat (p mod 4096)"
      by (simp_all add: blk_idx_div(1))
    with True skip show ?thesis
      by (auto simp: locate_byte_def FOUR_KB_def zero blk_idx_div(1))
  next
    case False
    then have idx: "of_nat (blk_idx p) + 1 = (of_nat (p div 4096 + 1) :: u32)"
      using blk_idx_div(2) [of p] by (metis of_nat_1 of_nat_add)
    moreover have "\<not> 1024 \<le> (of_nat (p div 4096 + 1) :: u32)"
      using valid(2) by (simp add: word_le_nat_alt unat_of_nat_addr del: of_nat_add of_nat_Suc)
    ultimately have "next_dnode fp bb ino (store_bytes m buf bs) (of_nat (blk_idx p)) =
        Some (of_nat (p div 4096 + 1), inode_word fp ino (of_nat (p div 4096 + 1)) m,
          block_ptr fp bb (inode_word fp ino (of_nat (p div 4096 + 1)) m))"
      using inode_word_store [OF ok sep valid(2)]
      by (simp add: next_dnode_def FOUR_KB_def Let_def del: of_nat_add of_nat_Suc)
    with False skip show ?thesis
      by (simp add: locate_byte_def FOUR_KB_def zero del: of_nat_add of_nat_Suc)
  qed
qed


text \<open>One turn of the loop: the byte at position \<open>pos + i\<close> of the file goes to \<open>buf[i]\<close>.\<close>

lemma read_loop_byte:
  assumes ok: "inode_ok fp bb ino m" and len: "len < 4294967296"
    and sep: "separate buf len fp (image_size bb)"
    and size: "sz = inode_size fp ino m" and data: "data = drop pos (file_content fp bb ino m)"
    and i: "i < len" "pos + i < sz" and p: "p = pos + i"
    and bp: "p = 0 \<or> p mod 4096 \<noteq> 0 \<Longrightarrow>
        d = inode_word fp ino (of_nat (blk_idx p)) m \<and> b = block_ptr fp bb d + of_nat (p mod 4096)"
    and w: "w = inode_word fp ino (of_nat (p div 4096 + 1)) m" and c: "c = block_ptr fp bb w + of_nat (p mod 4096)"
  shows "read_loop fp bb ino (of_nat sz) buf (of_nat len) (of_nat i) (of_nat p) (of_nat (blk_idx p)) d b
      (store_bytes m buf (take i data)) =
    read_loop fp bb ino (of_nat sz) buf (of_nat len) (of_nat (Suc i)) (of_nat (Suc p)) (of_nat (p div 4096 + 1)) w (c + 1)
      (store_bytes m buf (take (Suc i) data))"
proof -
  have lim: "sz < 4294967296" using unat_addr_lt [of "inode_word fp ino 0 m"] by (simp add: size inode_size_def)
  have dl: "length data = sz - pos" by (simp add: data file_content_def size)
  have psz: "p < inode_size fp ino m" using i size p by simp
  have sub: "separate buf (length (take i data)) fp (image_size bb)"
    using separate_sub [OF sep, of 0 "length (take i data)" 0 "image_size bb"] i(1) by simp
  have loc: "locate_byte fp bb ino (store_bytes m buf (take i data)) (of_nat p) (of_nat (blk_idx p)) d b =
      Some (of_nat (p div 4096 + 1), w, c)"
    unfolding w c using bp by (rule locate_byte_at [OF ok sub psz])
  have byte: "store_bytes m buf (take i data) c = data ! i"
    using file_byte_store [OF ok sub psz] psz by (simp add: w c data file_content_def p)
  have upd: "(store_bytes m buf (take i data))(buf + of_nat i := data ! i) = store_bytes m buf (take (Suc i) data)"
    using store_bytes_snoc [of "take i data" m buf "data ! i"] i dl len
    by (simp add: take_Suc_conv_app_nth)
  have guards: "(of_nat i :: u32) < of_nat len" "\<not> of_nat sz \<le> (of_nat p :: u32)"
    using i len lim by (simp_all add: word_less_nat_alt word_le_nat_alt unat_of_nat_addr p del: of_nat_add)
  then show ?thesis by (subst read_loop.simps) (simp add: loc byte upd add.commute)
qed

text \<open>
  The loop copies the rest of the file or \<open>len\<close> bytes of it, whichever is shorter; a loop cut off
  by the end of the file writes a zero behind the last byte.
\<close>

lemma read_loop_content:
  assumes ok: "inode_ok fp bb ino m" and len: "len < 4294967296"
    and sep: "separate buf len fp (image_size bb)"
    and size: "sz = inode_size fp ino m" and data: "data = drop pos (file_content fp bb ino m)"
  shows "i \<le> len \<Longrightarrow> pos + i \<le> sz \<Longrightarrow>
     (pos + i = 0 \<or> (pos + i) mod 4096 \<noteq> 0 \<Longrightarrow>
        d = inode_word fp ino (of_nat (blk_idx (pos + i))) m \<and> b = block_ptr fp bb d + of_nat ((pos + i) mod 4096)) \<Longrightarrow>
     read_loop fp bb ino (of_nat sz) buf (of_nat len) (of_nat i) (of_nat (pos + i)) (of_nat (blk_idx (pos + i))) d b
       (store_bytes m buf (take i data)) =
     (if len \<le> sz - pos
      then Inr (store_bytes m buf (take len data), of_nat len, of_nat (blk_idx (pos + len)))
      else Inl (store_bytes m buf (data @ [0]), of_nat (sz - pos)))"
proof (induction "min len (sz - pos) - i" arbitrary: i d b)
  case 0
  have lim: "sz < 4294967296" using unat_addr_lt [of "inode_word fp ino 0 m"] by (simp add: size inode_size_def)
  have dl: "length data = sz - pos" by (simp add: data file_content_def size)
  show ?case
  proof (cases "len \<le> sz - pos")
    case True
    with 0 have "i = len" by simp
    with True show ?thesis by (subst read_loop.simps) simp
  next
    case False
    with 0 have i: "i = sz - pos" "i < len" by auto
    have "(of_nat i :: u32) < of_nat len" using i(2) len by (simp add: word_less_nat_alt unat_of_nat_addr)
    moreover have "pos + i = sz" using i(1) "0.prems" by simp
    moreover have "(store_bytes m buf data)(buf + of_nat (length data) := 0) = store_bytes m buf (data @ [0])"
      using dl lim by (intro store_bytes_snoc) simp
    ultimately show ?thesis using False i dl by (subst read_loop.simps) (simp del: of_nat_diff of_nat_add)
  qed
next
  case (Suc k)
  then have i: "i < len" "pos + i < sz" by auto
  define p where "p = pos + i"
  define w where "w = inode_word fp ino (of_nat (p div 4096 + 1)) m"
  define c where "c = block_ptr fp bb w + of_nat (p mod 4096)"
  have "read_loop fp bb ino (of_nat sz) buf (of_nat len) (of_nat i) (of_nat p) (of_nat (blk_idx p)) d b
      (store_bytes m buf (take i data)) =
    read_loop fp bb ino (of_nat sz) buf (of_nat len) (of_nat (Suc i)) (of_nat (Suc p)) (of_nat (p div 4096 + 1)) w (c + 1)
      (store_bytes m buf (take (Suc i) data))"
    using i Suc.prems(3) unfolding p_def w_def c_def by (intro read_loop_byte [OF ok len sep size data]) auto
  also have "\<dots> = (if len \<le> sz - pos
      then Inr (store_bytes m buf (take len data), of_nat len, of_nat (blk_idx (pos + len)))
      else Inl (store_bytes m buf (data @ [0]), of_nat (sz - pos)))"
  proof -
    have blk: "p div 4096 + 1 = blk_idx (Suc p)" by (simp add: blk_idx_step)
    have nxt: "Suc p = pos + Suc i" by (simp add: p_def)
    have ptr: "w = inode_word fp ino (of_nat (blk_idx (pos + Suc i))) m \<and> c + 1 = block_ptr fp bb w + of_nat ((pos + Suc i) mod 4096)"
      if "pos + Suc i = 0 \<or> (pos + Suc i) mod 4096 \<noteq> 0"
    proof -
      have "Suc p mod 4096 = Suc (p mod 4096)" using that nxt by (simp add: mod_Suc split: if_splits)
      then show ?thesis unfolding nxt [symmetric] by (simp add: w_def c_def blk_idx_step)
    qed
    show ?thesis unfolding blk nxt
      using Suc.hyps(2) i by (intro Suc.hyps(1)) (auto simp: ptr simp del: of_nat_Suc)
  qed
  finally show ?case by (simp add: p_def)
qed

section \<open>The inode index in the descriptor flags\<close>

definition desc_idx :: "file_desc \<Rightarrow> u32" where
  "desc_idx d = drop_bit I_IDX_SHIFT (flags d AND I_IDX_MASK)"

definition desc_used :: "file_desc \<Rightarrow> bool" where
  "desc_used d \<longleftrightarrow> flags d AND USE_MASK \<noteq> 0"

definition desc_type :: "file_desc \<Rightarrow> u32" where
  "desc_type d = drop_bit TYPE_SHIFT (flags d AND TYPE_MASK)"

lemma flag_masks:
  "I_IDX_MASK = push_bit 8 (mask 12)" "I_IDX_CLEAR = NOT (push_bit 8 (mask 12))"
  "USE_MASK = mask 1" "TYPE_MASK = mask 3 AND NOT (mask 1)"
  unfolding I_IDX_MASK_def I_IDX_CLEAR_def USE_MASK_def TYPE_MASK_def by code_simp+

lemma bit_below_4096: "(i :: nat) < 4096 \<Longrightarrow> bit i n \<Longrightarrow> n < 12"
proof -
  assume i: "i < 4096" "bit i n"
  then have "take_bit 12 i = i" by (simp add: take_bit_nat_eq_self_iff)
  then show ?thesis using i(2) by (metis bit_take_bit_iff)
qed

lemma save_idx_flags:
  fixes f :: u32 assumes "i < 4096"
  defines "f' \<equiv> (f AND I_IDX_CLEAR) OR push_bit I_IDX_SHIFT (of_nat i)"
  shows "drop_bit I_IDX_SHIFT (f' AND I_IDX_MASK) = of_nat i" "f' AND USE_MASK = f AND USE_MASK"
    "f' AND TYPE_MASK = f AND TYPE_MASK"
proof -
  show "drop_bit I_IDX_SHIFT (f' AND I_IDX_MASK) = of_nat i"
    by (rule bit_word_eqI) (use bit_below_4096 [OF assms(1)] in \<open>force simp: f'_def I_IDX_SHIFT_def flag_masks bit_simps\<close>)
  show "f' AND USE_MASK = f AND USE_MASK" "f' AND TYPE_MASK = f AND TYPE_MASK"
    by (rule bit_word_eqI, auto simp: f'_def I_IDX_SHIFT_def flag_masks bit_simps)+
qed

lemma fd_inode_idx_eq: "fd_index fd = Some i \<Longrightarrow> fd_inode_idx fd s = Some (desc_idx (get_fd s i))"
  by (auto simp: fd_inode_idx_def fd_index_def desc_idx_def split: if_splits)

section \<open>read_data and file_read\<close>

lemma read_data_content:
  assumes ok: "inode_ok (filesys_ptr s) (bblk s) ino (mem s)" and buf: "buf \<noteq> NULL"
    and fd: "fd_index fd = Some i" and len: "len < 2147483648"
    and sep: "separate buf len (filesys_ptr s) (image_size (bblk s))"
    and data: "data = drop pos (file_content (filesys_ptr s) (bblk s) ino (mem s))"
    and pos: "pos < inode_size (filesys_ptr s) ino (mem s)" and idx: "desc_idx (get_fd s i) = of_nat (blk_idx pos)"
  shows "read_data ino (of_nat pos) buf (of_nat len) fd s = Some
     (if len \<le> length data
      then (int len, save_inode_idx fd (of_nat (blk_idx (pos + len))) (s\<lparr>mem := store_bytes (mem s) buf (take len data)\<rparr>))
      else (int (length data), s\<lparr>mem := store_bytes (mem s) buf (data @ [0])\<rparr>))"
proof -
  define fp bb m sz where "fp = filesys_ptr s" and "bb = bblk s" and "m = mem s" and "sz = inode_size fp ino m"
  note defs = fp_def [symmetric] bb_def [symmetric] m_def [symmetric]
  have size: "inode_word fp ino 0 m = of_nat sz" by (simp add: sz_def inode_size_def)
  have lim: "sz \<le> 1023 * 4096" "pos < sz" "length data = sz - pos"
    using ok pos data by (simp_all add: inode_ok_def sz_def fp_def m_def bb_def file_content_def)
  have blk: "blk_idx pos < 1024" using lim by (auto simp: blk_idx_def less_mult_imp_div_less)
  have guards: "\<not> bb_N bb \<le> ino" "\<not> (of_nat sz :: u32) \<le> of_nat pos" "\<not> 1024 \<le> (of_nat (blk_idx pos) :: u32)"
    using ok lim blk by (auto simp: inode_ok_def bb_def word_le_nat_alt word_less_nat_alt unat_of_nat_addr)
  define d where "d = inode_word fp ino (of_nat (blk_idx pos)) m"
  have loop: "read_loop fp bb ino (of_nat sz) buf (of_nat len) 0 (of_nat pos) (of_nat (blk_idx pos)) d
      (block_ptr fp bb d + of_nat pos mod FOUR_KB) m =
     (if len \<le> sz - pos then Inr (store_bytes m buf (take len data), of_nat len, of_nat (blk_idx (pos + len)))
      else Inl (store_bytes m buf (data @ [0]), of_nat (sz - pos)))"
    using read_loop_content [of fp bb ino m len buf sz data pos 0 d "block_ptr fp bb d + of_nat pos mod FOUR_KB"]
      ok len sep data lim by (simp add: defs sz_def [symmetric] d_def FOUR_KB_def of_nat_mod_4096)
  have signed: "sint (of_nat len :: u32) = int len" "sint (of_nat (sz - pos) :: u32) = int (sz - pos)"
    using len lim by (simp_all add: sint_of_nat_u32 del: of_nat_diff)
  show ?thesis
    using buf guards loop signed lim(3) unfolding read_data_def Let_def defs size fd_inode_idx_eq [OF fd] idx
    by (simp add: defs d_def [symmetric] del: of_nat_diff)
qed

text \<open>
  What a descriptor of a regular file promises between calls: the position lies in the file and,
  before its end, the index in the flags belongs to the position.
\<close>

definition file_fd_ok :: "int \<Rightarrow> 'a fsys_scheme \<Rightarrow> bool" where
  "file_fd_ok fd s \<longleftrightarrow> 0 \<le> fd \<and> fd < 8 \<and> files_ok s \<and>
     (let d = get_fd s (nat fd); sz = inode_size (filesys_ptr s) (inode d) (mem s); p = unat (file_pos d)
      in desc_used d \<and> desc_type d = REG_FILE \<and> inode_ok (filesys_ptr s) (bblk s) (inode d) (mem s) \<and>
         p \<le> sz \<and> (p < sz \<longrightarrow> desc_idx d = of_nat (blk_idx p)))"

definition fd_content :: "int \<Rightarrow> 'a fsys_scheme \<Rightarrow> byte list" where
  "fd_content fd s = file_content (filesys_ptr s) (bblk s) (inode (get_fd s (nat fd))) (mem s)"

definition fd_pos :: "int \<Rightarrow> 'a fsys_scheme \<Rightarrow> nat" where
  "fd_pos fd s = unat (file_pos (get_fd s (nat fd)))"

lemma set_fd_fsys [simp]:
  "filesys_ptr (set_fd i d s) = filesys_ptr s" "bblk (set_fd i d s) = bblk s"
  "open_dentry (set_fd i d s) = open_dentry s" "read_dentry (set_fd i d s) = read_dentry s"
  "filename_buf (set_fd i d s) = filename_buf s" "fsys.more (set_fd i d s) = fsys.more s"
  by (simp_all add: set_fd_def Let_def)

lemma set_fd_mem [simp]:
  "get_fd (s\<lparr>mem := m\<rparr>) i = get_fd s i" "files_ok (s\<lparr>mem := m\<rparr>) = files_ok s"
  "set_fd i d' (set_fd i d s) = set_fd i d' s"
  by (simp_all add: get_fd_def files_ok_def cur_files_def set_fd_def Let_def)

lemma image_agree:
  assumes ok: "inode_ok fp bb ino m" and eq: "\<And>x. in_region fp (image_size bb) x \<Longrightarrow> m' x = m x"
  shows "inode_size fp ino m' = inode_size fp ino m" "inode_ok fp bb ino m'"
    "file_content fp bb ino m' = file_content fp bb ino m"
proof -
  have word: "inode_word fp ino (of_nat k) m' = inode_word fp ino (of_nat k) m" if "k < 1024" for k
    unfolding inode_word_def by (rule load32_cong) (use inode_word_region [OF ok that] eq in blast)
  show size: "inode_size fp ino m' = inode_size fp ino m"
    using word [of 0] by (simp add: inode_size_def)
  have blk: "inode_word fp ino (of_nat (k + 1)) m' = inode_word fp ino (of_nat (k + 1)) m"
    if "k < (inode_size fp ino m + 4095) div 4096" for k
    using that ok by (intro word) (auto simp: inode_ok_def)
  then show "inode_ok fp bb ino m'" using ok by (simp add: inode_ok_def size)
  have "file_byte fp bb ino m' p = file_byte fp bb ino m p" if p: "p < inode_size fp ino m" for p
  proof -
    have "p div 4096 < (inode_size fp ino m + 4095) div 4096" using p by linarith
    moreover have "in_region fp (image_size bb)
        (block_ptr fp bb (inode_word fp ino (of_nat (p div 4096 + 1)) m) + of_nat (p mod 4096))"
      using block_valid [OF ok p] by (intro block_region [OF ok]) auto
    ultimately show ?thesis using blk eq by (simp add: file_byte_def)
  qed
  then show "file_content fp bb ino m' = file_content fp bb ino m"
    by (simp add: file_content_def size)
qed

lemma image_store:
  assumes "inode_ok fp bb ino m" "separate buf (length bs) fp (image_size bb)"
  shows "inode_size fp ino (store_bytes m buf bs) = inode_size fp ino m"
    "inode_ok fp bb ino (store_bytes m buf bs)"
    "file_content fp bb ino (store_bytes m buf bs) = file_content fp bb ino m"
  using image_agree [OF assms(1), of "store_bytes m buf bs"] store_bytes_other [OF assms(2)] by blast+

lemma file_fd_ok_set:
  assumes "file_fd_ok fd s" "separate buf (length bs) (filesys_ptr s) (image_size (bblk s))"
    and "d = get_fd s (nat fd)" "flags d' AND USE_MASK = flags d AND USE_MASK" "flags d' AND TYPE_MASK = flags d AND TYPE_MASK"
    and "inode d' = inode d" "unat (file_pos d') \<le> length (fd_content fd s)"
    and "unat (file_pos d') < length (fd_content fd s) \<Longrightarrow> desc_idx d' = of_nat (blk_idx (unat (file_pos d')))"
  shows "file_fd_ok fd (set_fd (nat fd) d' (s\<lparr>mem := store_bytes (mem s) buf bs\<rparr>))"
    "fd_content fd (set_fd (nat fd) d' (s\<lparr>mem := store_bytes (mem s) buf bs\<rparr>)) = fd_content fd s"
proof -
  have ok: "inode_ok (filesys_ptr s) (bblk s) (inode d) (mem s)" "files_ok s" "0 \<le> fd" "fd < 8"
    using assms by (simp_all add: file_fd_ok_def Let_def)
  note st = image_store [OF ok(1) assms(2)]
  show "fd_content fd (set_fd (nat fd) d' (s\<lparr>mem := store_bytes (mem s) buf bs\<rparr>)) = fd_content fd s"
    using ok st assms(3,6) by (simp add: fd_content_def)
  show "file_fd_ok fd (set_fd (nat fd) d' (s\<lparr>mem := store_bytes (mem s) buf bs\<rparr>))"
    using assms ok st unfolding file_fd_ok_def Let_def
    by (simp add: desc_used_def desc_type_def fd_content_def file_content_def)
qed

lemma read_data_eof:
  assumes "inode_ok (filesys_ptr s) (bblk s) ino (mem s)" "buf \<noteq> NULL" "inode_size (filesys_ptr s) ino (mem s) = p"
  shows "read_data ino (of_nat p) buf len fd s = Some (0, s)"
proof -
  have "\<not> bb_N (bblk s) \<le> ino" using assms(1) by (simp add: inode_ok_def linorder_not_le)
  then show ?thesis using assms(2,3) by (auto simp: read_data_def Let_def inode_size_def)
qed

lemma file_fd_okD:
  assumes "file_fd_ok fd s" "d = get_fd s (nat fd)" "p = fd_pos fd s"
  shows "fd_index fd = Some (nat fd)" "files_ok s" "nat fd < 8" "fd \<noteq> -1"
    "flags d AND USE_MASK \<noteq> 0" "drop_bit TYPE_SHIFT (flags d AND TYPE_MASK) = REG_FILE"
    "inode_ok (filesys_ptr s) (bblk s) (inode d) (mem s)" "p \<le> inode_size (filesys_ptr s) (inode d) (mem s)"
    "p < inode_size (filesys_ptr s) (inode d) (mem s) \<Longrightarrow> desc_idx d = of_nat (blk_idx p)"
    "file_pos d = of_nat p" "length (fd_content fd s) = inode_size (filesys_ptr s) (inode d) (mem s)"
  using assms
  by (auto simp: file_fd_ok_def fd_index_def Let_def desc_used_def desc_type_def fd_pos_def fd_content_def file_content_def)

lemma file_read_unfold:
  assumes "file_fd_ok fd s" "buf \<noteq> NULL"
  shows "file_read fd buf (int len) s =
     do { (r, s') \<leftarrow> read_data (inode (get_fd s (nat fd))) (of_nat (fd_pos fd s)) buf (of_nat len) fd s;
          Some (r, set_fd (nat fd) ((get_fd s' (nat fd))\<lparr>file_pos := file_pos (get_fd s' (nat fd)) + of_int r\<rparr>) s') }"
  using assms(2) file_fd_okD(1,5,6,10) [OF assms(1) refl refl] by (simp add: file_read_def Let_def)

text \<open>
  One call delivers the next \<open>len\<close> bytes of the file, or what is left of it, moves the position
  behind them and keeps the promise of the descriptor. Only a read that the end of the file cuts off
  writes one byte more, a terminating zero.
\<close>

definition read_desc :: "nat \<Rightarrow> byte list \<Rightarrow> nat \<Rightarrow> file_desc \<Rightarrow> file_desc" where
  "read_desc len data p d =
     (if data \<noteq> [] \<and> len \<le> length data
      then d\<lparr>flags := (flags d AND I_IDX_CLEAR) OR push_bit I_IDX_SHIFT (of_nat (blk_idx (p + len))),
             file_pos := file_pos d + of_nat len\<rparr>
      else d\<lparr>file_pos := file_pos d + of_nat (length data)\<rparr>)"

definition read_bytes :: "nat \<Rightarrow> byte list \<Rightarrow> byte list" where
  "read_bytes len data = take len data @ (if data \<noteq> [] \<and> length data < len then [0] else [])"

lemma file_read_eq:
  assumes ok: "file_fd_ok fd s" and buf: "buf \<noteq> NULL" "len < 2147483648"
    and sep: "separate buf len (filesys_ptr s) (image_size (bblk s))"
    and data: "data = drop (fd_pos fd s) (fd_content fd s)"
  shows "file_read fd buf (int len) s = Some (int (min len (length data)),
     set_fd (nat fd) (read_desc len data (fd_pos fd s) (get_fd s (nat fd)))
       (s\<lparr>mem := store_bytes (mem s) buf (read_bytes len data)\<rparr>))"
proof (cases "data = []")
  case True
  note d = file_fd_okD [OF ok refl refl]
  have "inode_size (filesys_ptr s) (inode (get_fd s (nat fd))) (mem s) = fd_pos fd s"
    using d(8,11) True data by simp
  from read_data_eof [OF d(7) buf(1) this] True show ?thesis
    by (simp add: file_read_unfold [OF ok buf(1)] read_desc_def read_bytes_def)
next
  case False
  note d = file_fd_okD [OF ok refl refl]
  have pos: "fd_pos fd s < inode_size (filesys_ptr s) (inode (get_fd s (nat fd))) (mem s)"
    using d(11) False data by simp
  note rd = read_data_content [OF d(7) buf(1) d(1) buf(2) sep data [unfolded fd_content_def] pos d(9) [OF pos]]
  show ?thesis
    using False d(2-4) by (auto simp: file_read_unfold [OF ok buf(1)] rd read_desc_def read_bytes_def save_inode_idx_def Let_def)
qed

lemma read_desc_ok:
  assumes ok: "file_fd_ok fd s" and data: "data = drop (fd_pos fd s) (fd_content fd s)" and d: "d = get_fd s (nat fd)"
    and d': "d' = read_desc len data (fd_pos fd s) d"
  shows "flags d' AND USE_MASK = flags d AND USE_MASK" "flags d' AND TYPE_MASK = flags d AND TYPE_MASK"
    "inode d' = inode d" "unat (file_pos d') = fd_pos fd s + min len (length data)"
    "unat (file_pos d') < length (fd_content fd s) \<Longrightarrow> desc_idx d' = of_nat (blk_idx (unat (file_pos d')))"
proof -
  note k = file_fd_okD [OF ok d refl]
  have len: "length data = length (fd_content fd s) - fd_pos fd s" "fd_pos fd s \<le> length (fd_content fd s)"
    "length (fd_content fd s) \<le> 4190208"
    using k(7,8,11) data by (simp_all add: inode_ok_def)
  show pos: "unat (file_pos d') = fd_pos fd s + min len (length data)"
    using len unat_of_nat_addr [of "fd_pos fd s + min len (length data)"]
    by (auto simp: d' read_desc_def k(10) min_def)
  have blk: "blk_idx (fd_pos fd s + len) < 4096" if "len \<le> length data"
    using that len by (auto simp: blk_idx_def less_mult_imp_div_less)
  show "flags d' AND USE_MASK = flags d AND USE_MASK" "flags d' AND TYPE_MASK = flags d AND TYPE_MASK"
    "inode d' = inode d"
    using blk save_idx_flags(2,3) by (auto simp: d' read_desc_def)
  show "desc_idx d' = of_nat (blk_idx (unat (file_pos d')))" if "unat (file_pos d') < length (fd_content fd s)"
  proof -
    have "len \<le> length data" "data \<noteq> []" using that pos len by auto
    then show ?thesis using save_idx_flags(1) [OF blk] pos by (simp add: d' read_desc_def desc_idx_def)
  qed
qed

text \<open>A client that reads the file through a buffer of \<open>len\<close> bytes, apart from the image.\<close>

definition file_access :: "int \<Rightarrow> addr \<Rightarrow> nat \<Rightarrow> 'a fsys_scheme \<Rightarrow> bool" where
  "file_access fd buf len s \<longleftrightarrow> file_fd_ok fd s \<and> buf \<noteq> NULL \<and> len < 2147483648 \<and>
     separate buf len (filesys_ptr s) (image_size (bblk s))"

definition file_client :: "int \<Rightarrow> addr \<Rightarrow> nat \<Rightarrow> 'a fsys_scheme \<Rightarrow> bool" where
  "file_client fd buf len s \<longleftrightarrow> 0 < len \<and> file_access fd buf len s"

definition file_chunk :: "int \<Rightarrow> addr \<Rightarrow> nat \<Rightarrow> 'a fsys_scheme \<Rightarrow> byte list \<times> 'a fsys_scheme" where
  "file_chunk fd buf len s =
     (case file_read fd buf (int len) s of
        Some (r, s') \<Rightarrow> (bytes_at (mem s') buf (nat r), s')
      | None \<Rightarrow> ([], s))"

lemma length_read_bytes: "length (read_bytes len data) \<le> len"
  by (auto simp: read_bytes_def)

lemma file_chunk_eq:
  assumes "file_access fd buf len s" and data: "data = drop (fd_pos fd s) (fd_content fd s)"
    and s': "s' = snd (file_chunk fd buf len s)"
  shows "fst (file_chunk fd buf len s) = take len data" "file_access fd buf len s'"
    "fd_content fd s' = fd_content fd s" "fd_pos fd s' = fd_pos fd s + min len (length data)"
proof -
  have ok: "file_fd_ok fd s" "buf \<noteq> NULL" "len < 2147483648" "separate buf len (filesys_ptr s) (image_size (bblk s))"
    using assms(1) by (simp_all add: file_access_def)
  note d = file_fd_okD [OF ok(1) refl refl]
  define d' where "d' = read_desc len data (fd_pos fd s) (get_fd s (nat fd))"
  note rd = file_read_eq [OF ok data, folded d'_def] and k = read_desc_ok [OF ok(1) data refl d'_def]
  have s'_eq: "s' = set_fd (nat fd) d' (s\<lparr>mem := store_bytes (mem s) buf (read_bytes len data)\<rparr>)"
    by (simp add: s' file_chunk_def rd)
  have sep: "separate buf (length (read_bytes len data)) (filesys_ptr s) (image_size (bblk s))"
    using separate_sub [OF ok(4), of 0 "length (read_bytes len data)" 0 "image_size (bblk s)"]
      length_read_bytes [of len data] by simp
  have lim: "unat (file_pos d') \<le> length (fd_content fd s)"
    using k(4) data d(8,11) by simp
  note keep = file_fd_ok_set [OF ok(1) sep refl k(1-3) lim k(5)]
  show "fd_content fd s' = fd_content fd s" "file_access fd buf len s'"
    using keep assms(1) by (simp_all add: s'_eq file_access_def)
  show "fd_pos fd s' = fd_pos fd s + min len (length data)"
    using k(4) d(2,3) by (simp add: s'_eq fd_pos_def)
  have "bytes_at (store_bytes (mem s) buf (read_bytes len data)) buf (length (read_bytes len data)) = read_bytes len data"
    using length_read_bytes [of len data] ok(3) by (intro bytes_at_store_bytes) simp
  then have "take (min len (length data)) (bytes_at (store_bytes (mem s) buf (read_bytes len data)) buf (length (read_bytes len data)))
      = take len data"
    by (simp add: read_bytes_def min_def)
  then show "fst (file_chunk fd buf len s) = take len data"
    by (simp add: file_chunk_def rd) (simp add: read_bytes_def)
qed

interpretation file_cursor: cursor_reader "file_chunk fd buf len" "file_client fd buf len" "fd_content fd" "fd_pos fd"
  for fd buf len
proof
  fix s :: "'a fsys_scheme"
  assume inv: "file_client fd buf len s"
  then have acc: "file_access fd buf len s" and len: "0 < len" by (simp_all add: file_client_def)
  note c = file_chunk_eq [OF acc refl refl]
  show "file_client fd buf len (snd (file_chunk fd buf len s))" using c(2) len by (simp add: file_client_def)
  show "fd_content fd (snd (file_chunk fd buf len s)) = fd_content fd s" by (rule c(3))
  show "fst (file_chunk fd buf len s) @ drop (fd_pos fd (snd (file_chunk fd buf len s))) (fd_content fd s) =
      drop (fd_pos fd s) (fd_content fd s)"
    unfolding c(1,4) by (rule chunk_and_rest)
  show "fst (file_chunk fd buf len s) \<noteq> []" if "fd_pos fd s < length (fd_content fd s)"
    using len that by (simp add: c(1))
qed

end
