(* ===== verification/Filesys_Dir.thy ===== *)
theory Filesys_Dir
  imports Filesys_Data
begin

text \<open>
  The directory: the names, types and inode numbers the boot block of an image holds, and proofs
  that the lookups by name and by index and the directory driver deliver them.
\<close>

section \<open>The directory of an image\<close>

text \<open>
  Entry \<open>i\<close> starts at byte \<open>64 * (i + 1)\<close>. A name of 32 bytes has no terminating zero: the string
  the code reads there goes on into the type word, so that it has up to 33 bytes; the name is what
  is left of it after 32.
\<close>

definition entry_ptr :: "addr \<Rightarrow> nat \<Rightarrow> addr" where
  "entry_ptr fp i = fp + of_nat (64 * (i + 1))"

definition entry_str :: "addr \<Rightarrow> nat \<Rightarrow> memory \<Rightarrow> byte list" where
  "entry_str fp i m = cprefix m (entry_ptr fp i) 34"

definition entry_name :: "addr \<Rightarrow> nat \<Rightarrow> memory \<Rightarrow> byte list" where
  "entry_name fp i m = take 32 (entry_str fp i m)"

definition entry_type :: "addr \<Rightarrow> nat \<Rightarrow> memory \<Rightarrow> u32" where
  "entry_type fp i m = load32 m (entry_ptr fp i + 32)"

definition entry_inode :: "addr \<Rightarrow> nat \<Rightarrow> memory \<Rightarrow> u32" where
  "entry_inode fp i m = load32 m (entry_ptr fp i + 36)"

definition n_entries :: "'a fsys_scheme \<Rightarrow> nat" where
  "n_entries s = unat (n_dir_entries (bblk s))"

definition dir_names :: "'a fsys_scheme \<Rightarrow> byte list list" where
  "dir_names s = map (\<lambda>i. entry_name (filesys_ptr s) i (mem s)) [0..<n_entries s]"

definition dir_lookup :: "byte list \<Rightarrow> 'a fsys_scheme \<Rightarrow> nat option" where
  "dir_lookup f s = find (\<lambda>i. entry_name (filesys_ptr s) i (mem s) = f) [0..<n_entries s]"

definition dir_ok :: "'a fsys_scheme \<Rightarrow> bool" where
  "dir_ok s \<longleftrightarrow> filesys_ptr s \<noteq> NULL \<and> n_entries s \<le> 63 \<and>
     (\<forall>i \<in> set [0..<n_entries s]. length (entry_str (filesys_ptr s) i (mem s)) \<le> 33) \<and>
     separate (filename_buf s) 34 (filesys_ptr s) 4096 \<and> separate (open_dentry s) 64 (filesys_ptr s) 4096 \<and>
     separate (read_dentry s) 64 (filesys_ptr s) 4096 \<and> separate (filename_buf s) 34 (open_dentry s) 64 \<and>
     open_dentry s \<noteq> NULL \<and> read_dentry s \<noteq> NULL"

section \<open>Copying a name\<close>

lemma cprefix_cstr_at:
  assumes "length (cprefix m a n) < n"
  shows "cstr_at m a (cprefix m a n)"
proof -
  have "bytes_at m a (length (cprefix m a n)) = cprefix m a n"
    by (rule nth_equalityI) (auto simp: cprefix_nth)
  moreover have "0 \<notin> set (cprefix m a n)" by (auto simp: cprefix_def dest: set_takeWhileD)
  ultimately show ?thesis using cprefix_stop [OF assms] by (simp add: cstr_at_def)
qed

lemma cprefix_cong: "bytes_at m a n = bytes_at m' a n \<Longrightarrow> cprefix m a n = cprefix m' a n"
  by (simp add: cprefix_def)

lemma cprefix_store:
  assumes "0 \<notin> set t" "n \<le> 4294967296" "length t < 4294967295"
  shows "length t < n \<Longrightarrow> cprefix (store_bytes m a (t @ [0])) a n = t"
    "n \<le> length t \<Longrightarrow> cprefix (store_bytes m a t) a n = take n t"
proof -
  show "cprefix (store_bytes m a (t @ [0])) a n = t" if "length t < n"
    using cprefix_cstr [OF cstr_at_store_bytes, of t m a n] assms that by simp
  show "cprefix (store_bytes m a t) a n = take n t" if "n \<le> length t"
  proof -
    have "bytes_at (store_bytes m a t) a (length t) = t" using assms by (intro bytes_at_store_bytes) simp
    then have "bytes_at (store_bytes m a t) a n = take n t" using that by (metis take_bytes_at)
    moreover have "0 \<notin> set (take n t)" using assms(1) by (meson in_set_takeD)
    ultimately show ?thesis by (simp add: cprefix_def takeWhile_eq_all_conv) metis
  qed
qed

lemma strncpy_bytes:
  assumes "bytes_at m src (length t) = t" "0 \<notin> set t" "length t < 4294967296" "separate dest (length t) src (length t)"
  shows "strncpy m dest src (of_nat (length t)) = store_bytes m dest t"
proof -
  have "unat (of_nat (length t) :: u32) = length t" using assms(3) by (rule unat_of_nat_addr)
  moreover have "cprefix m src (length t) = t"
    using assms(1,2) by (simp add: cprefix_def takeWhile_eq_all_conv) metis
  ultimately show ?thesis
    using strncpy_list [of dest "of_nat (length t)" src t m] assms(4) by simp
qed

lemma strncpy_cstr:
  "cstr_at m src t \<Longrightarrow> separate dest (length t) src (length t) \<Longrightarrow>
     strncpy m dest src (of_nat (length t)) = store_bytes m dest t"
  using cstr_at_length [of m src t] by (intro strncpy_bytes) (auto simp: cstr_at_def)

lemma copy_name_eq:
  assumes "cstr_at m (fp + DENTRY_SIZE * k) t" "length t \<le> 33"
    and "separate buf 34 (fp + DENTRY_SIZE * k) 34"
  shows "copy_name fp k (of_nat (length t)) buf m = store_bytes m buf (t @ (if length t < 32 then [0] else []))"
    "cprefix (copy_name fp k (of_nat (length t)) buf m) buf 32 = take 32 t"
    "bytes_at (copy_name fp k (of_nat (length t)) buf m) buf (length t) = t"
proof -
  have nz: "0 \<notin> set t" using assms(1) by (simp add: cstr_at_def)
  have sep: "separate buf (length t) (fp + DENTRY_SIZE * k) (length t)"
    using separate_sub [OF assms(3), of 0 "length t" 0 "length t"] assms(2) by simp
  have "(of_nat (length t) :: u32) < of_nat NAME_LEN \<longleftrightarrow> length t < 32"
    using assms(2) by (simp add: word_less_nat_alt unat_of_nat_addr NAME_LEN_def)
  then show eq: "copy_name fp k (of_nat (length t)) buf m = store_bytes m buf (t @ (if length t < 32 then [0] else []))"
    using strncpy_cstr [OF assms(1) sep] store_bytes_snoc [of t m buf 0] assms(2)
    by (simp add: copy_name_def Let_def)
  show "cprefix (copy_name fp k (of_nat (length t)) buf m) buf 32 = take 32 t"
    unfolding eq using cprefix_store [OF nz, of 32 m buf] assms(2) by auto
  show "bytes_at (copy_name fp k (of_nat (length t)) buf m) buf (length t) = t"
    unfolding eq using assms(2) by (intro bytes_at_store_prefix) auto
qed

section \<open>The search\<close>

text \<open>Writes to \<open>filename_buf\<close> leave the directory as it is.\<close>

definition fs_frame :: "'a fsys_scheme \<Rightarrow> memory \<Rightarrow> bool" where
  "fs_frame s m \<longleftrightarrow> (\<forall>x. in_region (filesys_ptr s) 4096 x \<longrightarrow> m x = mem s x)"

lemma entry_region:
  assumes "i < 63" "in_region (entry_ptr fp i + of_nat k) n x" "k + n \<le> 64"
  shows "in_region fp 4096 x"
proof -
  have "entry_ptr fp i + of_nat k = fp + of_nat (64 * (i + 1) + k)"
    by (simp add: entry_ptr_def algebra_simps)
  then show ?thesis using in_region_shift [of "64 * (i + 1) + k" n 4096 fp x] assms by (simp del: of_nat_add)
qed

lemma separate_entry:
  assumes "separate a n fp 4096" "i < 63" "k + l \<le> 64"
  shows "separate a n (entry_ptr fp i + of_nat k) l"
proof -
  have "entry_ptr fp i + of_nat k = fp + of_nat (64 * (i + 1) + k)"
    by (simp add: entry_ptr_def algebra_simps)
  then show ?thesis using separate_sub [OF assms(1), of 0 n "64 * (i + 1) + k" l] assms(2,3) by (simp del: of_nat_add)
qed

lemma entry_frame:
  assumes "fs_frame s m" "i < 63"
  shows "entry_str (filesys_ptr s) i m = entry_str (filesys_ptr s) i (mem s)"
    "entry_type (filesys_ptr s) i m = entry_type (filesys_ptr s) i (mem s)"
    "entry_inode (filesys_ptr s) i m = entry_inode (filesys_ptr s) i (mem s)"
proof -
  have reg: "m x = mem s x" if "in_region (entry_ptr (filesys_ptr s) i + of_nat k) n x" "k + n \<le> 64" for k n x
    using assms that entry_region unfolding fs_frame_def by blast
  show "entry_str (filesys_ptr s) i m = entry_str (filesys_ptr s) i (mem s)"
    unfolding entry_str_def by (intro cprefix_cong bytes_at_cong) (use reg [of 0 34] in auto)
  show "entry_type (filesys_ptr s) i m = entry_type (filesys_ptr s) i (mem s)"
    unfolding entry_type_def by (intro load32_cong) (use reg [of 32 4] in auto)
  show "entry_inode (filesys_ptr s) i m = entry_inode (filesys_ptr s) i (mem s)"
    unfolding entry_inode_def by (intro load32_cong) (use reg [of 36 4] in auto)
qed

lemma entry_strlen:
  assumes "dir_ok s" "fs_frame s m" "i < n_entries s" "t = entry_str (filesys_ptr s) i (mem s)"
  shows "cstr_at m (entry_ptr (filesys_ptr s) i) t" "length t \<le> 33"
    "strlen m (entry_ptr (filesys_ptr s) i) = Some (of_nat (length t))"
proof -
  show len: "length t \<le> 33" using assms(1,3,4) by (simp add: dir_ok_def)
  have i: "i < 63" using assms(1,3) by (simp add: dir_ok_def)
  show c: "cstr_at m (entry_ptr (filesys_ptr s) i) t"
    using cprefix_cstr_at [of m "entry_ptr (filesys_ptr s) i" 34] len entry_frame(1) [OF assms(2) i]
    by (simp add: assms(4) entry_str_def)
  then show "strlen m (entry_ptr (filesys_ptr s) i) = Some (of_nat (length t))" by (rule strlen_cstr)
qed

lemma fs_frame_out:
  assumes "fs_frame s m" "frame_out rs m m'" "\<And>a n. (a, n) \<in> set rs \<Longrightarrow> separate a n (filesys_ptr s) 4096"
  shows "fs_frame s m'"
  using assms frame_outD unfolding fs_frame_def by metis

lemma search_step:
  assumes ok: "dir_ok s" and fr: "fs_frame s m" and i: "i < n_entries s" and f: "cstr_at m fname f" "length f \<le> 32"
    and sep: "separate (filename_buf s) 34 fname (Suc (length f))" and t: "t = entry_str (filesys_ptr s) i (mem s)"
    and m': "m' = copy_name (filesys_ptr s) (of_nat (i + 1)) (of_nat (length t)) (filename_buf s) m"
  shows "frame_out [(filename_buf s, 34)] m m'" "fs_frame s m'" "cstr_at m' fname f"
    "strncmp m' fname (filename_buf s) (of_nat NAME_LEN) = 0 \<longleftrightarrow> take 32 t = f"
    "bytes_at m' (filename_buf s) (length t) = t"
proof -
  have i63: "i < 63" using ok i by (simp add: dir_ok_def)
  have ptr: "filesys_ptr s + DENTRY_SIZE * of_nat (i + 1) = entry_ptr (filesys_ptr s) i"
    by (simp add: DENTRY_SIZE_def entry_ptr_def)
  note e = entry_strlen [OF ok fr i t]
  have fp: "separate (filename_buf s) 34 (filesys_ptr s) 4096" using ok by (simp add: dir_ok_def)
  have "separate (filename_buf s) 34 (filesys_ptr s + DENTRY_SIZE * of_nat (i + 1)) 34"
    unfolding ptr using separate_entry [OF fp i63, of 0 34] by simp
  note c = copy_name_eq [OF e(1) [folded ptr] e(2) this, folded m']
  show "frame_out [(filename_buf s, 34)] m m'" unfolding c(1) using e(2) by (intro frame_out_store_bytes) auto
  then show "fs_frame s m'" "cstr_at m' fname f"
    using fr f(1) fp sep by (auto intro: fs_frame_out cstr_at_frame)
  then have "cprefix m' fname 32 = f" using cprefix_cstr f(2) by fastforce
  then show "strncmp m' fname (filename_buf s) (of_nat NAME_LEN) = 0 \<longleftrightarrow> take 32 t = f"
    using c(2) by (auto simp: strncmp_0_iff NAME_LEN_def)
  show "bytes_at m' (filename_buf s) (length t) = t" by (rule c(3))
qed

lemma entry_in_range:
  assumes "dir_ok s" "i \<le> n_entries s"
  shows "(of_nat (i + 1) :: u32) \<le> n_dir_entries (bblk s) \<longleftrightarrow> i < n_entries s"
proof -
  have "unat (of_nat (i + 1) :: u32) = i + 1" using assms by (intro unat_of_nat_addr) (simp add: dir_ok_def)
  then show ?thesis unfolding word_le_nat_alt n_entries_def by linarith
qed

text \<open>
  From entry \<open>i\<close> on the loop stops at the first entry with the name, or behind the last entry.
\<close>

lemma dentry_search_from:
  assumes ok: "dir_ok s" and f: "length f \<le> 32" and sep: "separate (filename_buf s) 34 fname (Suc (length f))"
  shows "i \<le> n_entries s \<Longrightarrow> fs_frame s m \<Longrightarrow> cstr_at m fname f \<Longrightarrow>
     \<exists>l m'. frame_out [(filename_buf s, 34)] m m' \<and>
       (case find (\<lambda>j. entry_name (filesys_ptr s) j (mem s) = f) [i..<n_entries s] of
          None \<Rightarrow> dentry_search (filesys_ptr s) (n_dir_entries (bblk s)) (filename_buf s) fname (of_nat (i + 1)) sl m
                    = Some (of_nat (n_entries s + 1), l, m')
        | Some j \<Rightarrow> dentry_search (filesys_ptr s) (n_dir_entries (bblk s)) (filename_buf s) fname (of_nat (i + 1)) sl m
                    = Some (of_nat (j + 1), of_nat (length (entry_str (filesys_ptr s) j (mem s))), m') \<and>
                  bytes_at m' (filename_buf s) (length (entry_str (filesys_ptr s) j (mem s)))
                    = entry_str (filesys_ptr s) j (mem s))"
proof (induction "n_entries s - i" arbitrary: i m sl)
  case 0
  then have i: "i = n_entries s" by simp
  have "\<not> of_nat (n_entries s + 1) \<le> n_dir_entries (bblk s)"
    using entry_in_range [OF ok, of "n_entries s"] by simp
  then have "dentry_search (filesys_ptr s) (n_dir_entries (bblk s)) (filename_buf s) fname (of_nat (i + 1)) sl m =
      Some (of_nat (n_entries s + 1), sl, m)"
    by (subst dentry_search.simps) (simp add: i del: of_nat_add)
  then show ?case using i by (auto simp del: of_nat_add)
next
  case (Suc k)
  then have i: "i < n_entries s" by simp
  define t where "t = entry_str (filesys_ptr s) i (mem s)"
  define m1 where "m1 = copy_name (filesys_ptr s) (of_nat (i + 1)) (of_nat (length t)) (filename_buf s) m"
  note st = search_step [OF ok Suc.prems(2) i Suc.prems(3) f sep t_def m1_def]
  define u :: u32 where "u = of_nat (i + 1)"
  have u: "u \<le> n_dir_entries (bblk s)" "filesys_ptr s + DENTRY_SIZE * u = entry_ptr (filesys_ptr s) i"
    "u + 1 = of_nat (Suc i + 1)" "m1 = copy_name (filesys_ptr s) u (of_nat (length t)) (filename_buf s) m"
    using entry_in_range [OF ok, of i] i by (simp_all add: u_def DENTRY_SIZE_def entry_ptr_def m1_def)
  have step: "dentry_search (filesys_ptr s) (n_dir_entries (bblk s)) (filename_buf s) fname u sl m =
      (if take 32 t = f then Some (u, of_nat (length t), m1)
       else dentry_search (filesys_ptr s) (n_dir_entries (bblk s)) (filename_buf s) fname (u + 1) (of_nat (length t)) m1)"
    using u(1,2) entry_strlen(3) [OF ok Suc.prems(2) i t_def] st(4) u(4) [symmetric]
    by (subst dentry_search.simps) simp
  have find: "find (\<lambda>j. entry_name (filesys_ptr s) j (mem s) = f) [i..<n_entries s] =
      (if take 32 t = f then Some i else find (\<lambda>j. entry_name (filesys_ptr s) j (mem s) = f) [Suc i..<n_entries s])"
    using i by (simp add: upt_conv_Cons entry_name_def t_def)
  show ?case
  proof (cases "take 32 t = f")
    case True
    then show ?thesis unfolding u_def [symmetric] step find using st(1,5) t_def u_def by auto
  next
    case False
    have fr: "frame_out [(filename_buf s, 34)] m m'" if "frame_out [(filename_buf s, 34)] m1 m'" for m'
      using frame_out_weaken [OF frame_out_trans [OF st(1) that]] by simp
    have "k = n_entries s - Suc i" "Suc i \<le> n_entries s" using Suc.hyps(2) by simp_all
    from Suc.hyps(1) [OF this st(2,3), of "of_nat (length t)"] show ?thesis
      unfolding u_def [symmetric] step find u(3) using False fr by (simp del: of_nat_add of_nat_Suc) blast
  qed
qed

section \<open>Filling a directory entry\<close>

lemma zero_pad_eq:
  "zero_pad d (int k) m = (if k < 32 then store_bytes m (d + of_nat k) (replicate (32 - k) 0) else m)"
proof (induction "32 - k" arbitrary: k m)
  case 0
  then show ?case by (subst zero_pad.simps) (simp add: NAME_LEN_def)
next
  case (Suc n)
  then have k: "k < 32" and n: "n = 32 - Suc k" by simp_all
  have "zero_pad d (int k) m = zero_pad d (int (Suc k)) (m(d + of_nat k := 0))"
    using k by (subst zero_pad.simps) (simp add: NAME_LEN_def add.commute)
  also have "\<dots> = store_bytes (store_bytes m (d + of_nat k) [0]) (d + of_nat k + of_nat 1) (replicate (32 - Suc k) 0)"
    using Suc.hyps(1) [OF n, of "m(d + of_nat k := 0)"] store_bytes_snoc [of "[]" m "d + of_nat k" 0] k
    by (auto simp: algebra_simps)
  also have "\<dots> = store_bytes m (d + of_nat k) ([0] @ replicate (32 - Suc k) 0)"
    using store_bytes_append [of "[0]" "replicate (32 - Suc k) 0" m "d + of_nat k"] by simp
  also have "[0] @ replicate (32 - Suc k) 0 = replicate (32 - k) (0 :: byte)"
    using k by (simp add: Suc_diff_Suc flip: replicate_Suc)
  finally show ?case using k by simp
qed

lemma frame_out_store32: "k + 4 \<le> n \<Longrightarrow> frame_out [(a, n)] m (store32 m (a + of_nat k) v)"
  unfolding store32_def by (rule frame_out_store_at) simp

lemma separate_fields:
  assumes "k + n \<le> j" "j + l \<le> 64" "k < j"
  shows "separate (d + of_nat k) n (d + of_nat j) l"
proof -
  have "d + of_nat j - (d + of_nat k) = (of_nat (j - k) :: addr)"
    using assms by (simp add: of_nat_diff)
  then have 1: "unat (d + of_nat j - (d + of_nat k)) = j - k" using assms by (simp only: unat_of_nat_addr)
  then have "d + of_nat j \<noteq> d + of_nat k" using assms(3) by fastforce
  from unat_diff_swap [OF this] 1 have "unat (d + of_nat k - (d + of_nat j)) = 4294967296 - (j - k)" by simp
  with 1 show ?thesis using assms unfolding separate_def by linarith
qed

lemma fill_dentry_frame:
  assumes "l \<le> 33"
  shows "frame_out [(d, 64)] m (fill_dentry p d (of_nat l) m)"
proof -
  have w: "frame_out [(d, 64)] m (store32 m (filetype_at d) v)" "frame_out [(d, 64)] m (store32 m (inode_num_at d) v)" for m v
    using frame_out_store32 [of 32 64 d m v] frame_out_store32 [of 36 64 d m v]
    by (simp_all add: filetype_at_def inode_num_at_def)
  have z: "frame_out [(d, 64)] m (zero_pad d (int l) m)"
    using frame_out_store_at [of l "replicate (32 - l) 0" 64 d m] by (simp add: zero_pad_eq)
  have trans: "frame_out [(d, 64)] m m2" if "frame_out [(d, 64)] m m1" "frame_out [(d, 64)] m1 m2" for m m1 m2
    using frame_out_weaken [OF frame_out_trans [OF that]] by simp
  have "sint (of_nat l :: u32) = int l" using assms by (intro sint_of_nat_u32) simp
  then show ?thesis
    unfolding fill_dentry_def Let_def using trans [OF trans [OF z w(1)] w(2)] by simp
qed

lemma fill_dentry_fields:
  fixes m :: memory
  assumes l: "l \<le> 33" and sep: "separate d 64 p 64"
  defines "m' \<equiv> fill_dentry p d (of_nat l) m"
  shows "load32 m' (filetype_at d) = load32 m (p + 32)"
    "load32 m' (inode_num_at d) = (if load32 m (p + 32) = REG_FILE then load32 m (p + 36) else 0)"
    "bytes_at m' d 32 = bytes_at (zero_pad d (int l) m) d 32"
proof -
  define m1 where "m1 = zero_pad d (int l) m"
  define m2 where "m2 = store32 m1 (filetype_at d) (load32 m1 (p + 32))"
  have len: "sint (of_nat l :: u32) = int l" using l by (intro sint_of_nat_u32) simp
  have m': "m' = store32 m2 (inode_num_at d) (if load32 m2 (filetype_at d) = REG_FILE then load32 m2 (p + 36) else 0)"
    by (simp add: m'_def fill_dentry_def Let_def len m1_def [symmetric] m2_def FN_OFFSET_def FT_OFFSET_def)
  have z: "frame_out [(d, 64)] m m1"
    using frame_out_store_at [of l "replicate (32 - l) 0" 64 d m] by (simp add: m1_def zero_pad_eq)
  have f2: "frame_out [(d, 64)] m m2"
    using frame_out_weaken [OF frame_out_trans [OF z frame_out_store32 [of 32 64 d m1 "load32 m1 (p + 32)"]], of "[(d, 64)]"]
    by (simp add: m2_def filetype_at_def)
  have src: "separate d 64 (p + 32) 4" "separate d 64 (p + 36) 4"
    using separate_sub [OF sep, of 0 64 32 4] separate_sub [OF sep, of 0 64 36 4] by simp_all
  have ld: "load32 m1 (p + 32) = load32 m (p + 32)" "load32 m2 (p + 36) = load32 m (p + 36)"
    using load32_frame [OF z, of "p + 32"] load32_frame [OF f2, of "p + 36"] src by auto
  have ft: "load32 m2 (filetype_at d) = load32 m (p + 32)" by (simp add: m2_def load32_store32 ld)
  have apart: "separate (inode_num_at d) 4 (filetype_at d) 4" "separate d 32 (filetype_at d) 4" "separate d 32 (inode_num_at d) 4"
    using separate_fields [of 32 4 36 4 d] separate_fields [of 0 32 32 4 d] separate_fields [of 0 32 36 4 d]
    by (simp_all add: filetype_at_def inode_num_at_def separate_sym)
  show "load32 m' (filetype_at d) = load32 m (p + 32)" using apart(1) ft by (simp add: m' load32_store32_other)
  show "load32 m' (inode_num_at d) = (if load32 m (p + 32) = REG_FILE then load32 m (p + 36) else 0)"
    by (simp add: m' load32_store32 ft ld)
  show "bytes_at m' d 32 = bytes_at (zero_pad d (int l) m) d 32"
    using apart(2,3) by (simp add: m' m2_def store32_def bytes_at_store_bytes_other separate_sym m1_def)
qed

section \<open>read_dentry_by_name\<close>

text \<open>What the caller provides: the name as a string and an entry to fill, apart from the directory.\<close>

definition name_arg :: "addr \<Rightarrow> byte list \<Rightarrow> 'a fsys_scheme \<Rightarrow> bool" where
  "name_arg fname f s \<longleftrightarrow> fname \<noteq> NULL \<and> cstr_at (mem s) fname f \<and> separate (filename_buf s) 34 fname (Suc (length f))"

definition dentry_arg :: "addr \<Rightarrow> 'a fsys_scheme \<Rightarrow> bool" where
  "dentry_arg d s \<longleftrightarrow> d \<noteq> NULL \<and> separate d 64 (filesys_ptr s) 4096"

lemma name_too_long:
  assumes "name_arg fname f s" "32 < length f" "dentry \<noteq> NULL"
  shows "read_dentry_by_name fname dentry s = Some (-1, s)"
proof -
  have "cstr_at (mem s) fname f" using assms(1) by (simp add: name_arg_def)
  then have "strlen (mem s) fname = Some (of_nat (length f))" "length f < 4294967296"
    by (auto simp: strlen_cstr cstr_at_length)
  moreover have "of_nat NAME_LEN < (of_nat (length f) :: u32)"
    using assms(2) calculation(2) by (simp add: word_less_nat_alt unat_of_nat_addr NAME_LEN_def)
  ultimately show ?thesis using assms by (simp add: read_dentry_by_name_def name_arg_def)
qed

lemma by_name_unfold:
  assumes "name_arg fname f s" "length f \<le> 32" "dentry \<noteq> NULL" "filesys_ptr s \<noteq> NULL"
  shows "read_dentry_by_name fname dentry s = do {
     (dir_it, l, m) \<leftarrow> dentry_search (filesys_ptr s) (n_dir_entries (bblk s)) (filename_buf s) fname 1 0 (mem s);
     if n_dir_entries (bblk s) < dir_it then Some (-1, s\<lparr>mem := m\<rparr>)
     else Some (0, s\<lparr>mem := fill_dentry (filesys_ptr s + 64 * dir_it) dentry l
            (strncpy m (open_dentry s) (filename_buf s) l)\<rparr>) }"
proof -
  have "cstr_at (mem s) fname f" using assms(1) by (simp add: name_arg_def)
  then have "strlen (mem s) fname = Some (of_nat (length f))" by (rule strlen_cstr)
  moreover have "\<not> of_nat NAME_LEN < (of_nat (length f) :: u32)"
    using assms(2) by (simp add: word_less_nat_alt unat_of_nat_addr NAME_LEN_def)
  moreover have "DENTRY_SIZE div 4 = 16" unfolding DENTRY_SIZE_def by code_simp
  ultimately show ?thesis using assms unfolding read_dentry_by_name_def by (simp add: name_arg_def cong: if_cong)
qed

lemma dentry_search_lookup:
  assumes ok: "dir_ok s" and f: "name_arg fname f s" "length f \<le> 32"
  obtains l m where "frame_out [(filename_buf s, 34)] (mem s) m"
    "case dir_lookup f s of
       None \<Rightarrow> dentry_search (filesys_ptr s) (n_dir_entries (bblk s)) (filename_buf s) fname 1 0 (mem s)
                 = Some (of_nat (n_entries s + 1), l, m)
     | Some j \<Rightarrow> dentry_search (filesys_ptr s) (n_dir_entries (bblk s)) (filename_buf s) fname 1 0 (mem s)
                 = Some (of_nat (j + 1), of_nat (length (entry_str (filesys_ptr s) j (mem s))), m) \<and>
               bytes_at m (filename_buf s) (length (entry_str (filesys_ptr s) j (mem s)))
                 = entry_str (filesys_ptr s) j (mem s)"
proof -
  have one: "of_nat (0 + 1) = (1 :: u32)" by simp
  have "separate (filename_buf s) 34 fname (Suc (length f))" "cstr_at (mem s) fname f" "fs_frame s (mem s)"
    using f(1) by (simp_all add: name_arg_def fs_frame_def)
  from dentry_search_from [OF ok f(2) this(1) le0 this(3,2), unfolded one, folded dir_lookup_def] that
  show thesis by blast
qed

lemma dir_lookup_less: "dir_lookup f s = Some j \<Longrightarrow> j < n_entries s \<and> entry_name (filesys_ptr s) j (mem s) = f"
  by (auto simp: dir_lookup_def find_Some_iff)

lemma by_name_missing:
  assumes ok: "dir_ok s" and f: "name_arg fname f s" and d: "dentry \<noteq> NULL" and no: "f \<notin> set (dir_names s)"
  obtains m where "read_dentry_by_name fname dentry s = Some (-1, s\<lparr>mem := m\<rparr>)" "frame_out [(filename_buf s, 34)] (mem s) m"
proof (cases "length f \<le> 32")
  case True
  have fp: "filesys_ptr s \<noteq> NULL" using ok by (simp add: dir_ok_def)
  have none: "dir_lookup f s = None" using no by (auto simp: dir_lookup_def find_None_iff dir_names_def)
  moreover have "n_dir_entries (bblk s) < of_nat (n_entries s + 1)"
    using entry_in_range [OF ok, of "n_entries s"] by (simp add: linorder_not_le)
  moreover obtain l m where "frame_out [(filename_buf s, 34)] (mem s) m"
      "dentry_search (filesys_ptr s) (n_dir_entries (bblk s)) (filename_buf s) fname 1 0 (mem s)
         = Some (of_nat (n_entries s + 1), l, m)"
    using dentry_search_lookup [OF ok f True] unfolding none option.case by blast
  ultimately show thesis
    using that [of m] unfolding by_name_unfold [OF f True d fp] by (simp del: of_nat_add)
next
  case False
  then show thesis using name_too_long [OF f _ d] that [of "mem s"] by simp
qed

lemma by_name_found:
  assumes ok: "dir_ok s" and f: "name_arg fname f s" and d: "dentry_arg dentry s" and j: "dir_lookup f s = Some j"
  obtains m where "read_dentry_by_name fname dentry s = Some (0, s\<lparr>mem := m\<rparr>)"
    "frame_out [(filename_buf s, 34), (open_dentry s, 64), (dentry, 64)] (mem s) m"
    "load32 m (filetype_at dentry) = entry_type (filesys_ptr s) j (mem s)"
    "load32 m (inode_num_at dentry) =
       (if entry_type (filesys_ptr s) j (mem s) = REG_FILE then entry_inode (filesys_ptr s) j (mem s) else 0)"
proof -
  define t where "t = entry_str (filesys_ptr s) j (mem s)"
  have jn: "j < n_entries s" "take 32 t = f" using dir_lookup_less [OF j] by (simp_all add: t_def entry_name_def)
  then have len: "length f \<le> 32" and j63: "j < 63" using ok by (auto simp: dir_ok_def)
  have fp: "filesys_ptr s \<noteq> NULL" "dentry \<noteq> NULL" using ok d by (simp_all add: dir_ok_def dentry_arg_def)
  have tlen: "length t \<le> 33" "cstr_at (mem s) (entry_ptr (filesys_ptr s) j) t"
    using entry_strlen [OF ok _ jn(1) t_def, of "mem s"] by (simp_all add: fs_frame_def)
  obtain l m1 where fr: "frame_out [(filename_buf s, 34)] (mem s) m1"
    and search: "dentry_search (filesys_ptr s) (n_dir_entries (bblk s)) (filename_buf s) fname 1 0 (mem s) =
        Some (of_nat (j + 1), of_nat (length t), m1)"
    and nm: "bytes_at m1 (filename_buf s) (length t) = t"
    using dentry_search_lookup [OF ok f len] unfolding j t_def option.case by metis
  define m2 where "m2 = strncpy m1 (open_dentry s) (filename_buf s) (of_nat (length t))"
  define m3 where "m3 = fill_dentry (entry_ptr (filesys_ptr s) j) dentry (of_nat (length t)) m2"
  have "\<not> n_dir_entries (bblk s) < of_nat (j + 1)" using entry_in_range [OF ok, of j] jn(1) by simp
  moreover have "filesys_ptr s + 64 * of_nat (j + 1) = entry_ptr (filesys_ptr s) j" by (simp add: entry_ptr_def)
  ultimately have res: "read_dentry_by_name fname dentry s = Some (0, s\<lparr>mem := m3\<rparr>)"
    unfolding by_name_unfold [OF f len fp(2,1)] search m3_def m2_def by (simp del: of_nat_add)
  have cp: "m2 = store_bytes m1 (open_dentry s) t"
  proof -
    have "separate (filename_buf s) 34 (open_dentry s) 64" using ok by (simp add: dir_ok_def)
    from separate_sub [OF this, of 0 "length t" 0 "length t"] tlen show ?thesis
      unfolding m2_def using nm by (intro strncpy_bytes) (auto simp: cstr_at_def separate_sym)
  qed
  have fs2: "frame_out [(filename_buf s, 34), (open_dentry s, 64)] (mem s) m2"
    using frame_out_trans [OF fr frame_out_store_bytes [of t 64 "open_dentry s" m1]] tlen(1) by (simp add: cp)
  have e: "entry_type (filesys_ptr s) j m2 = entry_type (filesys_ptr s) j (mem s)"
    "entry_inode (filesys_ptr s) j m2 = entry_inode (filesys_ptr s) j (mem s)"
    using ok by (intro entry_frame fs_frame_out [OF _ fs2] j63; auto simp: fs_frame_def dir_ok_def)+
  have sep: "separate dentry 64 (entry_ptr (filesys_ptr s) j) 64"
    using separate_entry [of dentry 64 "filesys_ptr s" j 0 64] d j63 by (simp add: dentry_arg_def)
  show thesis
    using that [OF res] frame_out_trans [OF fs2 fill_dentry_frame [OF tlen(1)], of dentry "entry_ptr (filesys_ptr s) j"]
      fill_dentry_fields(1,2) [OF tlen(1) sep, of m2] e
    by (simp add: m3_def entry_type_def entry_inode_def)
qed

section \<open>read_dentry_by_index and dir_read\<close>

lemma store_pad_name:
  assumes "length t \<le> 33"
  shows "bytes_at (zero_pad d (int (length t)) (store_bytes m d t)) d 32 = take 32 t @ replicate (32 - length t) 0"
proof (cases "length t < 32")
  case True
  then have "zero_pad d (int (length t)) (store_bytes m d t) = store_bytes m d (t @ replicate (32 - length t) 0)"
    using store_bytes_append [of t "replicate (32 - length t) 0" m d] by (simp add: zero_pad_eq)
  then show ?thesis using True bytes_at_store_bytes [of "t @ replicate (32 - length t) 0" m d] by simp
next
  case False
  then have "bytes_at (store_bytes m d (take 32 t @ drop 32 t)) d (length (take 32 t)) = take 32 t"
    using assms by (intro bytes_at_store_prefix) simp
  then show ?thesis using False by (simp add: zero_pad_eq)
qed

lemma cprefix_padded:
  assumes "bytes_at m d 32 = t @ replicate k 0" "0 \<notin> set t"
  shows "cprefix m d 32 = t"
proof -
  have "takeWhile (\<lambda>b. b \<noteq> 0) (t @ replicate k 0) = t"
    using assms(2) by (subst takeWhile_append2) (auto simp: takeWhile_replicate)
  then show ?thesis unfolding cprefix_def assms(1) .
qed

lemma by_index:
  assumes ok: "dir_ok s" and d: "dentry_arg dentry s" and j: "j < n_entries s"
  obtains m where "read_dentry_by_index (of_nat j) dentry s = Some (0, s\<lparr>mem := m\<rparr>)"
    "frame_out [(dentry, 64)] (mem s) m"
    "cprefix m dentry 32 = entry_name (filesys_ptr s) j (mem s)"
    "load32 m (filetype_at dentry) = entry_type (filesys_ptr s) j (mem s)"
proof -
  define t where "t = entry_str (filesys_ptr s) j (mem s)"
  have j63: "j < 63" using ok j by (simp add: dir_ok_def)
  have e: "cstr_at (mem s) (entry_ptr (filesys_ptr s) j) t" "length t \<le> 33"
    "strlen (mem s) (entry_ptr (filesys_ptr s) j) = Some (of_nat (length t))"
    using entry_strlen [OF ok _ j t_def, of "mem s"] by (simp_all add: fs_frame_def)
  have sep: "separate dentry 64 (entry_ptr (filesys_ptr s) j) 64"
    using separate_entry [of dentry 64 "filesys_ptr s" j 0 64] d j63 by (simp add: dentry_arg_def)
  then have cp: "strncpy (mem s) dentry (entry_ptr (filesys_ptr s) j) (of_nat (length t)) = store_bytes (mem s) dentry t"
    using separate_sub [OF sep, of 0 "length t" 0 "length t"] e(2) by (intro strncpy_cstr [OF e(1)]) simp
  define m where "m = fill_dentry (entry_ptr (filesys_ptr s) j) dentry (of_nat (length t)) (store_bytes (mem s) dentry t)"
  note fd = fill_dentry_fields [OF e(2) sep, of "store_bytes (mem s) dentry t", folded m_def]
  have fr: "frame_out [(dentry, 64)] (mem s) (store_bytes (mem s) dentry t)"
    using e(2) by (intro frame_out_store_bytes) simp
  have sz: "DENTRY_SIZE div 4 = 16" unfolding DENTRY_SIZE_def by code_simp
  have "filesys_ptr s + 64 * (of_nat j + 1) = entry_ptr (filesys_ptr s) j" by (simp add: entry_ptr_def algebra_simps)
  moreover have "\<not> n_dir_entries (bblk s) \<le> of_nat j"
    using j j63 by (simp add: word_le_nat_alt unat_of_nat_addr n_entries_def)
  moreover have "dentry \<noteq> NULL" using d by (simp add: dentry_arg_def)
  ultimately have res: "read_dentry_by_index (of_nat j) dentry s = Some (0, s\<lparr>mem := m\<rparr>)"
    unfolding read_dentry_by_index_def sz by (simp add: DENTRY_SIZE_def e(3) cp m_def)
  have "0 \<notin> set (take 32 t)" using e(1) by (meson cstr_at_def in_set_takeD)
  then have "cprefix m dentry 32 = take 32 t"
    using fd(3) store_pad_name [OF e(2)] by (intro cprefix_padded) auto
  moreover have "frame_out [(dentry, 64)] (mem s) m"
    using frame_out_weaken [OF frame_out_trans [OF fr fill_dentry_frame [OF e(2)]]] by (simp add: m_def)
  moreover have "load32 m (filetype_at dentry) = entry_type (filesys_ptr s) j (mem s)"
    using load32_frame [OF fr, of "entry_ptr (filesys_ptr s) j + 32"] separate_sub [OF sep, of 0 64 32 4] fd(1)
    by (simp add: entry_type_def)
  ultimately show thesis using that [OF res] by (simp add: entry_name_def t_def)
qed

lemma dir_copy_eq:
  assumes sep: "separate buf 33 rd 32" and nm: "nm = cprefix m rd 32" and k: "k = min n (length nm)"
  shows "i \<le> k \<Longrightarrow> dir_copy rd buf (int n) (int i) i (store_bytes m buf (take i nm)) = (int k, k, store_bytes m buf (take k nm))"
proof (induction "k - i" arbitrary: i)
  case 0
  then have i: "i = k" by simp
  have nl: "length nm \<le> 32" using length_cprefix_le [of m rd 32] by (simp add: nm)
  have "store_bytes m buf (take k nm) (rd + of_nat k) = 0" if "k < n" "k < 32"
  proof -
    have "k = length nm" using that k by simp
    then have "m (rd + of_nat k) = 0" using cprefix_stop [of m rd 32] that nm by simp
    moreover have "in_region rd 32 (rd + of_nat k)" using that by (simp add: in_region_offset)
    moreover have "separate buf (length (take k nm)) rd 32"
      using separate_sub [OF sep, of 0 "length (take k nm)" 0 32] nl by simp
    ultimately show ?thesis using store_bytes_other by metis
  qed
  then show ?case using i by (subst dir_copy.simps) (auto simp: NAME_LEN_def)
next
  case (Suc d)
  then have i: "i < k" "i < n" "i < length nm" using k by auto
  have nl: "length nm \<le> 32" using length_cprefix_le [of m rd 32] by (simp add: nm)
  have "in_region rd 32 (rd + of_nat i)" using i nl by (simp add: in_region_offset)
  moreover have "separate buf (length (take i nm)) rd 32"
    using separate_sub [OF sep, of 0 "length (take i nm)" 0 32] nl by simp
  ultimately have b: "store_bytes m buf (take i nm) (rd + of_nat i) = nm ! i" "nm ! i \<noteq> 0"
    using store_bytes_other cprefix_nth [of i m rd 32] i nm by (metis, metis)
  have upd: "(store_bytes m buf (take i nm))(buf + of_nat i := nm ! i) = store_bytes m buf (take (Suc i) nm)"
    using store_bytes_snoc [of "take i nm" m buf "nm ! i"] i nl by (simp add: take_Suc_conv_app_nth)
  have "dir_copy rd buf (int n) (int i) i (store_bytes m buf (take i nm)) =
      dir_copy rd buf (int n) (int (Suc i)) (Suc i) (store_bytes m buf (take (Suc i) nm))"
    using i nl b by (subst dir_copy.simps) (simp add: NAME_LEN_def upd add.commute)
  also have "\<dots> = (int k, k, store_bytes m buf (take k nm))"
    using Suc.hyps i by (intro Suc.hyps(1)) auto
  finally show ?case .
qed

lemma dir_frame:
  assumes "dir_ok s" "fs_frame s m"
  shows "dir_ok (set_fd i d (s\<lparr>mem := m\<rparr>))" "dir_names (set_fd i d (s\<lparr>mem := m\<rparr>)) = dir_names s"
    "dir_ok (s\<lparr>mem := m\<rparr>)" "dir_lookup f (s\<lparr>mem := m\<rparr>) = dir_lookup f s" "n_entries (set_fd i d (s\<lparr>mem := m\<rparr>)) = n_entries s"
proof -
  have e: "entry_str (filesys_ptr s) i m = entry_str (filesys_ptr s) i (mem s)" if "i < n_entries s" for i
    using entry_frame(1) [OF assms(2), of i] that assms(1) by (simp add: dir_ok_def)
  show "n_entries (set_fd i d (s\<lparr>mem := m\<rparr>)) = n_entries s" by (simp add: n_entries_def)
  show "dir_ok (set_fd i d (s\<lparr>mem := m\<rparr>))" "dir_ok (s\<lparr>mem := m\<rparr>)"
    using assms(1) e by (simp_all add: dir_ok_def n_entries_def)
  show "dir_names (set_fd i d (s\<lparr>mem := m\<rparr>)) = dir_names s"
    using e by (simp add: dir_names_def n_entries_def entry_name_def)
  show "dir_lookup f (s\<lparr>mem := m\<rparr>) = dir_lookup f s"
    using e by (auto simp: dir_lookup_def n_entries_def entry_name_def intro!: find_cong)
qed

definition dir_fd_ok :: "int \<Rightarrow> 'a fsys_scheme \<Rightarrow> bool" where
  "dir_fd_ok fd s \<longleftrightarrow> 2 \<le> fd \<and> fd < 8 \<and> files_ok s \<and> dir_ok s \<and>
     flags (get_fd s (nat fd)) AND USE_MASK \<noteq> 0 \<and> drop_bit 1 (flags (get_fd s (nat fd))) mod 2 \<noteq> 0"

definition dir_buf_ok :: "addr \<Rightarrow> 'a fsys_scheme \<Rightarrow> bool" where
  "dir_buf_ok buf s \<longleftrightarrow> buf \<noteq> NULL \<and> separate buf 33 (filesys_ptr s) 4096 \<and> separate buf 33 (read_dentry s) 64"

lemma dir_read_end:
  assumes "dir_fd_ok fd s" "buf \<noteq> NULL" "n_entries s \<le> fd_pos fd s"
  shows "dir_read fd buf n s = Some (0, s)"
  using assms by (simp add: dir_read_def Let_def dir_fd_ok_def n_entries_def fd_pos_def word_le_nat_alt)

lemma dir_copy_end:
  assumes sep: "separate buf 33 rd 32" and nm: "nm = cprefix m rd 32" and k: "k \<le> length nm"
  shows "NAME_LEN \<le> k \<or> store_bytes m buf (take k nm) (rd + of_nat k) = 0 \<longleftrightarrow> k = length nm"
proof -
  have nl: "length nm \<le> 32" using length_cprefix_le [of m rd 32] by (simp add: nm)
  have rd: "store_bytes m buf (take k nm) (rd + of_nat k) = m (rd + of_nat k)" if "k < 32"
  proof -
    have "in_region rd 32 (rd + of_nat k)" using that by (simp add: in_region_offset)
    moreover have "separate buf (length (take k nm)) rd 32"
      using separate_sub [OF sep, of 0 "length (take k nm)" 0 32] nl by simp
    ultimately show ?thesis using store_bytes_other by metis
  qed
  show ?thesis
  proof (cases "k = length nm")
    case True
    then show ?thesis using rd cprefix_stop [of m rd 32] nm by (cases "k < 32") (auto simp: NAME_LEN_def)
  next
    case False
    then have "k < length nm" "k < 32" using k nl by auto
    then show ?thesis using False rd cprefix_nth(2) [of k m rd 32] nm by (simp add: NAME_LEN_def)
  qed
qed

lemma dir_copy_mem:
  assumes sep: "separate buf 33 rd 32" and nm: "nm = cprefix m rd 32" and k: "k = min n (length nm)"
  shows "dir_copy rd buf (int n) 0 0 m = (int k, k, store_bytes m buf (take k nm))"
    "(if NAME_LEN \<le> k \<or> store_bytes m buf (take k nm) (rd + of_nat k) = 0
      then (store_bytes m buf (take k nm))(buf + of_nat k := 0) else store_bytes m buf (take k nm))
     = store_bytes m buf (take k nm @ (if k = length nm then [0] else []))"
proof -
  show "dir_copy rd buf (int n) 0 0 m = (int k, k, store_bytes m buf (take k nm))"
    using dir_copy_eq [OF assms, of 0] by simp
  have len: "length (take k nm) = k" "k \<le> length nm" "k \<le> 32"
    using k length_cprefix_le [of m rd 32] by (simp_all add: nm)
  have snoc: "(store_bytes m buf (take k nm))(buf + of_nat k := 0) = store_bytes m buf (take k nm @ [0])"
    using store_bytes_snoc [of "take k nm" m buf 0] len(1,3) by simp
  show "(if NAME_LEN \<le> k \<or> store_bytes m buf (take k nm) (rd + of_nat k) = 0
      then (store_bytes m buf (take k nm))(buf + of_nat k := 0) else store_bytes m buf (take k nm))
     = store_bytes m buf (take k nm @ (if k = length nm then [0] else []))"
    unfolding dir_copy_end [OF sep nm len(2)] snoc by (cases "k = length nm") simp_all
qed

text \<open>One call delivers the next name, cut to \<open>n\<close> bytes, with a terminating zero when it is complete.\<close>

lemma dir_read_name:
  assumes ok: "dir_fd_ok fd s" and buf: "dir_buf_ok buf s" and p: "fd_pos fd s < n_entries s"
    and nm: "nm = dir_names s ! fd_pos fd s" and k: "k = min n (length nm)"
  obtains m1 where "dir_read fd buf (int n) s = Some (int k,
      set_fd (nat fd) ((get_fd s (nat fd))\<lparr>file_pos := file_pos (get_fd s (nat fd)) + 1\<rparr>)
        (s\<lparr>mem := store_bytes m1 buf (take k nm @ (if k = length nm then [0] else []))\<rparr>))"
    "frame_out [(read_dentry s, 64)] (mem s) m1" "length nm \<le> 32" "0 \<notin> set nm"
proof -
  have fd: "\<not> (fd \<le> 1 \<or> 8 \<le> fd)" "dir_ok s" "buf \<noteq> NULL"
    "\<not> (flags (get_fd s (nat fd)) AND USE_MASK = 0 \<or> drop_bit 1 (flags (get_fd s (nat fd))) mod 2 = 0)"
    using ok buf by (simp_all add: dir_fd_ok_def dir_buf_ok_def)
  have pos: "file_pos (get_fd s (nat fd)) = of_nat (fd_pos fd s)" "\<not> n_dir_entries (bblk s) \<le> file_pos (get_fd s (nat fd))"
    using p by (simp_all add: fd_pos_def word_le_nat_alt n_entries_def)
  have arg: "dentry_arg (read_dentry s) s" using fd(2) by (simp add: dir_ok_def dentry_arg_def)
  have "nm = entry_name (filesys_ptr s) (fd_pos fd s) (mem s)" using p by (simp add: nm dir_names_def)
  then obtain m1 where m1: "read_dentry_by_index (file_pos (get_fd s (nat fd))) (read_dentry s) s = Some (0, s\<lparr>mem := m1\<rparr>)"
    "frame_out [(read_dentry s, 64)] (mem s) m1" "nm = cprefix m1 (read_dentry s) 32"
    using by_index [OF fd(2) arg p] unfolding pos(1) by metis
  have nl: "length nm \<le> 32" "0 \<notin> set nm"
    using length_cprefix_le [of m1 "read_dentry s" 32] m1(3) by (auto simp: cprefix_def dest: set_takeWhileD)
  have sep: "separate buf 33 (read_dentry s) 32"
    using buf separate_sub [of buf 33 "read_dentry s" 64 0 33 0 32] by (simp add: dir_buf_ok_def)
  note cp = dir_copy_mem [OF sep m1(3) k]
  have "dir_read fd buf (int n) s = Some (int k,
      set_fd (nat fd) ((get_fd s (nat fd))\<lparr>file_pos := file_pos (get_fd s (nat fd)) + 1\<rparr>)
        (s\<lparr>mem := store_bytes m1 buf (take k nm @ (if k = length nm then [0] else []))\<rparr>))"
    unfolding dir_read_def Let_def if_not_P [OF fd(1)] if_not_P [OF fd(3)] if_not_P [OF fd(4)] if_not_P [OF pos(2)] m1(1)
    by (simp add: cp del: append.simps)
  from that [OF this m1(2) nl] show thesis .
qed

text \<open>A client that lists the directory through a buffer of at least 33 bytes; no name is empty.\<close>

definition dir_client :: "int \<Rightarrow> addr \<Rightarrow> nat \<Rightarrow> 'a fsys_scheme \<Rightarrow> bool" where
  "dir_client fd buf n s \<longleftrightarrow> dir_fd_ok fd s \<and> dir_buf_ok buf s \<and> 32 \<le> n \<and> [] \<notin> set (dir_names s)"

definition dir_chunk :: "int \<Rightarrow> addr \<Rightarrow> nat \<Rightarrow> 'a fsys_scheme \<Rightarrow> byte list list \<times> 'a fsys_scheme" where
  "dir_chunk fd buf n s =
     (case dir_read fd buf (int n) s of
        Some (r, s') \<Rightarrow> (if 0 < r then [bytes_at (mem s') buf (nat r)] else [], s')
      | None \<Rightarrow> ([], s))"

lemma dir_chunk_end:
  assumes "dir_client fd buf n s" "n_entries s \<le> fd_pos fd s"
  shows "dir_chunk fd buf n s = ([], s)"
  using assms dir_read_end [of fd s buf "int n"] by (simp add: dir_chunk_def dir_client_def dir_buf_ok_def)

lemma dir_chunk_name:
  assumes c: "dir_client fd buf n s" and p: "fd_pos fd s < n_entries s" and s': "s' = snd (dir_chunk fd buf n s)"
  shows "fst (dir_chunk fd buf n s) = [dir_names s ! fd_pos fd s]" "dir_client fd buf n s'"
    "dir_names s' = dir_names s" "fd_pos fd s' = Suc (fd_pos fd s)"
proof -
  define nm where "nm = dir_names s ! fd_pos fd s"
  have ok: "dir_fd_ok fd s" "dir_buf_ok buf s" "32 \<le> n" using c by (simp_all add: dir_client_def)
  then have d: "dir_ok s" "files_ok s" "2 \<le> fd" "fd < 8" by (simp_all add: dir_fd_ok_def)
  have "nm \<in> set (dir_names s)" using p by (simp add: nm_def dir_names_def)
  then have ne: "nm \<noteq> []" using c by (auto simp: dir_client_def)
  obtain m1 where rd: "dir_read fd buf (int n) s = Some (int (min n (length nm)),
      set_fd (nat fd) ((get_fd s (nat fd))\<lparr>file_pos := file_pos (get_fd s (nat fd)) + 1\<rparr>)
        (s\<lparr>mem := store_bytes m1 buf (take (min n (length nm)) nm @ (if min n (length nm) = length nm then [0] else []))\<rparr>))"
    and fr: "frame_out [(read_dentry s, 64)] (mem s) m1" and nl: "length nm \<le> 32"
    using dir_read_name [OF ok(1,2) p nm_def refl] by blast
  define m where "m = store_bytes m1 buf (nm @ [0])"
  define d' where "d' = (get_fd s (nat fd))\<lparr>file_pos := file_pos (get_fd s (nat fd)) + 1\<rparr>"
  have k: "min n (length nm) = length nm" using nl ok(3) by simp
  have rd': "dir_read fd buf (int n) s = Some (int (length nm), set_fd (nat fd) d' (s\<lparr>mem := m\<rparr>))"
    using rd unfolding k d'_def m_def by simp
  then have chunk: "dir_chunk fd buf n s = ([bytes_at m buf (length nm)], set_fd (nat fd) d' (s\<lparr>mem := m\<rparr>))"
    using ne by (simp add: dir_chunk_def)
  have "bytes_at m buf (length nm) = nm" unfolding m_def using nl by (intro bytes_at_store_prefix) simp
  then show "fst (dir_chunk fd buf n s) = [dir_names s ! fd_pos fd s]" by (simp add: chunk nm_def)
  have "frame_out [(read_dentry s, 64), (buf, 33)] (mem s) m"
    using frame_out_trans [OF fr frame_out_store_bytes [of "nm @ [0]" 33 buf m1]] nl by (simp add: m_def)
  from fs_frame_out [OF _ this, of s] d(1) ok(2) have fs: "fs_frame s m"
    by (auto simp: fs_frame_def dir_ok_def dir_buf_ok_def)
  note df = dir_frame [OF d(1) fs]
  show names: "dir_names s' = dir_names s" by (simp add: s' chunk df)
  have get: "get_fd s' (nat fd) = d'" using d by (simp add: s' chunk)
  then show "dir_client fd buf n s'"
    using c df(1) names d by (simp add: dir_client_def dir_fd_ok_def dir_buf_ok_def s' chunk d'_def)
  have "Suc (unat (file_pos (get_fd s (nat fd)))) < 4294967296"
    using p d(1) by (simp add: fd_pos_def dir_ok_def)
  then show "fd_pos fd s' = Suc (fd_pos fd s)"
    by (simp add: fd_pos_def get d'_def unat_word_ariths)
qed

interpretation dir_cursor: cursor_reader "dir_chunk fd buf n" "dir_client fd buf n" dir_names "fd_pos fd"
  for fd buf n
proof
  fix s :: "'a fsys_scheme"
  assume inv: "dir_client fd buf n s"
  have len: "length (dir_names s) = n_entries s" by (simp add: dir_names_def)
  note c = dir_chunk_name [OF inv _ refl] and e = dir_chunk_end [OF inv]
  show "dir_client fd buf n (snd (dir_chunk fd buf n s))" "dir_names (snd (dir_chunk fd buf n s)) = dir_names s"
    using c(2,3) e inv by (metis linorder_not_le snd_conv)+
  show "fst (dir_chunk fd buf n s) @ drop (fd_pos fd (snd (dir_chunk fd buf n s))) (dir_names s) =
      drop (fd_pos fd s) (dir_names s)"
    using c(1,4) e len by (cases "fd_pos fd s < n_entries s") (auto simp: Cons_nth_drop_Suc)
  show "fst (dir_chunk fd buf n s) \<noteq> []" if "fd_pos fd s < length (dir_names s)"
    using c(1) that len by simp
qed

end
