(* ===== verification/Filesys_Open.thy ===== *)
theory Filesys_Open
  imports Filesys_Dir
begin

text \<open>
  Opening and closing files and directories: the two file system drivers meet the contract
  \<open>fd_driver\<close>, and a descriptor that \<open>file_open\<close> or \<open>dir_open\<close> sets up is one that the readers of
  the other theories accept.
\<close>

section \<open>The drivers meet the contract\<close>

lemma by_name_mem:
  assumes "read_dentry_by_name fname d s = Some (r, s')"
  shows "\<exists>m. s' = s\<lparr>mem := m\<rparr>" "r = 0 \<or> r = -1"
  using assms
  by (auto simp: read_dentry_by_name_def bind_eq_Some_conv split: if_splits intro: exI [of _ "mem s"])

lemma cur_files_mem [simp]: "cur_files (s\<lparr>mem := m\<rparr>) = cur_files s" "first_free (s\<lparr>mem := m\<rparr>) = first_free s"
  by (simp_all add: cur_files_def first_free_def)

lemma file_flags [simp]: "(1 :: u32) OR push_bit TYPE_SHIFT REG_FILE OR 2 ^ I_IDX_SHIFT = 0x105"
  unfolding TYPE_SHIFT_def REG_FILE_def I_IDX_SHIFT_def by code_simp

lemma dir_flags [simp]: "(1 :: u32) OR DIR_FILE * 2 = 3"
  unfolding DIR_FILE_def by code_simp

lemma same_update: "flags d = F \<Longrightarrow> \<exists>d'. flags d' = F \<and> fs[i := d] = fs[i := d']"
  by blast

lemma file_open_cases:
  assumes "file_open filename s = Some (r, s')"
  shows "(r = -1 \<and> cur_files s' = cur_files s) \<or>
     (r = 0 \<and> (\<exists>i d. first_free_from (cur_files s) 2 = Some i \<and> flags d = 0x105 \<and> cur_files s' = (cur_files s)[i := d]))"
proof (cases "first_free s")
  case None
  then show ?thesis using assms by (auto simp: file_open_def)
next
  case (Some i)
  then obtain r1 s1 where rd: "read_dentry_by_name filename (open_dentry s) s = Some (r1, s1)"
    using assms by (auto simp: file_open_def bind_eq_Some_conv)
  then obtain m where "s1 = s\<lparr>mem := m\<rparr>" using by_name_mem(1) by blast
  with rd Some show ?thesis using assms by (auto simp: file_open_def first_free_def split: if_splits intro!: same_update)
qed

lemma dir_open_cases:
  assumes "dir_open filename s = Some (r, s')"
  shows "(r = -1 \<and> cur_files s' = cur_files s) \<or>
     (r = 0 \<and> (\<exists>i d. first_free_from (cur_files s) 2 = Some i \<and> flags d = 3 \<and> cur_files s' = (cur_files s)[i := d]))"
proof (cases "filename = NULL \<or> first_free s = None")
  case True
  then show ?thesis using assms by (auto simp: dir_open_def split: if_splits)
next
  case False
  then obtain i where i: "first_free s = Some i" "filename \<noteq> NULL" by auto
  then obtain r1 s1 where rd: "read_dentry_by_name filename (open_dentry s) s = Some (r1, s1)"
    using assms by (auto simp: dir_open_def bind_eq_Some_conv)
  then obtain m where "s1 = s\<lparr>mem := m\<rparr>" using by_name_mem(1) by blast
  with rd i show ?thesis using assms by (auto simp: dir_open_def first_free_def split: if_splits intro!: same_update)
qed

lemma file_close_cases:
  assumes "file_close fd s = Some (r, s')"
  shows "(r = -1 \<and> s' = s) \<or>
     (r = 0 \<and> 2 \<le> fd \<and> fd < 8 \<and> \<not> fd_free (cur_files s ! nat fd) \<and>
      cur_files s' = (cur_files s)[nat fd := (cur_files s ! nat fd)\<lparr>flags := 0\<rparr>])"
  using assms by (auto simp: file_close_def Let_def fd_free_def get_fd_def split: if_splits)

lemma dir_close_cases:
  assumes "dir_close fd s = Some (r, s')"
  shows "(r = -1 \<and> s' = s) \<or>
     (r = 0 \<and> 2 \<le> fd \<and> fd < 8 \<and> \<not> fd_free (cur_files s ! nat fd) \<and>
      cur_files s' = (cur_files s)[nat fd := (cur_files s ! nat fd)\<lparr>flags := 0\<rparr>])"
  using assms by (auto simp: dir_close_def Let_def fd_free_def get_fd_def split: if_splits)

lemma file_close_open:
  assumes "2 \<le> i" "i < 8" "flags (cur_files s ! i) = 0x105"
  shows "\<exists>s'. file_close (int i) s = Some (0, s')"
  using assms by (simp add: file_close_def get_fd_def Let_def TYPE_MASK_def TYPE_SHIFT_def REG_FILE_def)

lemma dir_close_open:
  assumes "2 \<le> i" "i < 8" "flags (cur_files s ! i) = 3"
  shows "\<exists>s'. dir_close (int i) s = Some (0, s')"
  using assms by (simp add: dir_close_def get_fd_def Let_def TYPE_MASK_def TYPE_SHIFT_def DIR_FILE_def)

interpretation file_driver: fd_driver cur_files "file_open filename" file_close
  for filename
  by (rule fd_driverI [of _ _ "0x105"]) (fact file_open_cases, simp, fact file_close_cases, fact file_close_open)

interpretation dir_driver: fd_driver cur_files "dir_open filename" dir_close
  for filename
  by (rule fd_driverI [of _ _ 3]) (fact dir_open_cases, simp, fact dir_close_cases, fact dir_close_open)

section \<open>Opening by name\<close>

text \<open>The buffers of the lookup and the name lie apart from the whole image.\<close>

definition fs_layout :: "'a fsys_scheme \<Rightarrow> bool" where
  "fs_layout s \<longleftrightarrow> dir_ok s \<and> image_size (bblk s) \<le> 4294967296 \<and>
     separate (filename_buf s) 34 (filesys_ptr s) (image_size (bblk s)) \<and>
     separate (open_dentry s) 64 (filesys_ptr s) (image_size (bblk s))"

lemma file_open_found:
  assumes ok: "dir_ok s" and f: "name_arg filename f s" and j: "dir_lookup f s = Some j" and i: "first_free s = Some i"
    and ty: "entry_type (filesys_ptr s) j (mem s) = REG_FILE"
  obtains m where "file_open filename s = Some (0, set_fd i ((get_fd s i)\<lparr>
      inode := entry_inode (filesys_ptr s) j (mem s), file_pos := 0, flags := 0x105\<rparr>) (s\<lparr>mem := m\<rparr>))"
    "frame_out [(filename_buf s, 34), (open_dentry s, 64)] (mem s) m"
proof -
  have "dentry_arg (open_dentry s) s" using ok by (simp add: dir_ok_def dentry_arg_def)
  then obtain m where m: "read_dentry_by_name filename (open_dentry s) s = Some (0, s\<lparr>mem := m\<rparr>)"
    "frame_out [(filename_buf s, 34), (open_dentry s, 64), (open_dentry s, 64)] (mem s) m"
    "load32 m (filetype_at (open_dentry s)) = REG_FILE"
    "load32 m (inode_num_at (open_dentry s)) = entry_inode (filesys_ptr s) j (mem s)"
    using by_name_found [OF ok f _ j] ty by metis
  have "frame_out [(filename_buf s, 34), (open_dentry s, 64)] (mem s) m"
    using m(2) by (rule frame_out_weaken) simp
  then show thesis using that m i by (simp add: file_open_def)
qed

lemma file_open_wrong_type:
  assumes ok: "dir_ok s" and f: "name_arg filename f s" and j: "dir_lookup f s = Some j" and i: "first_free s = Some i"
    and ty: "entry_type (filesys_ptr s) j (mem s) \<noteq> REG_FILE"
  obtains m where "file_open filename s = Some (-1, s\<lparr>mem := m\<rparr>)"
proof -
  have "dentry_arg (open_dentry s) s" using ok by (simp add: dir_ok_def dentry_arg_def)
  then obtain m where m: "read_dentry_by_name filename (open_dentry s) s = Some (0, s\<lparr>mem := m\<rparr>)"
    "load32 m (filetype_at (open_dentry s)) \<noteq> REG_FILE"
    using by_name_found [OF ok f _ j] ty by metis
  then show thesis using that i by (simp add: file_open_def)
qed

lemma dir_open_found:
  assumes ok: "dir_ok s" and f: "name_arg filename f s" and j: "dir_lookup f s = Some j" and i: "first_free s = Some i"
    and ty: "entry_type (filesys_ptr s) j (mem s) = DIR_FILE"
  obtains m where "dir_open filename s = Some (0, set_fd i ((get_fd s i)\<lparr>inode := 0, file_pos := 0, flags := 3\<rparr>) (s\<lparr>mem := m\<rparr>))"
    "frame_out [(filename_buf s, 34), (open_dentry s, 64)] (mem s) m"
proof -
  have ne: "DIR_FILE \<noteq> REG_FILE" by (simp add: DIR_FILE_def REG_FILE_def)
  have "dentry_arg (open_dentry s) s" using ok by (simp add: dir_ok_def dentry_arg_def)
  then obtain m where m: "read_dentry_by_name filename (open_dentry s) s = Some (0, s\<lparr>mem := m\<rparr>)"
    "frame_out [(filename_buf s, 34), (open_dentry s, 64), (open_dentry s, 64)] (mem s) m"
    "load32 m (filetype_at (open_dentry s)) = DIR_FILE" "load32 m (inode_num_at (open_dentry s)) = 0"
    using by_name_found [OF ok f _ j] ty ne by metis
  have "frame_out [(filename_buf s, 34), (open_dentry s, 64)] (mem s) m"
    using m(2) by (rule frame_out_weaken) simp
  then show thesis using that m i f by (simp add: dir_open_def name_arg_def)
qed

text \<open>A file just opened is at its start and reads as the file of the image the name belongs to.\<close>

lemma file_open_ready:
  assumes lay: "fs_layout s" and fr: "frame_out [(filename_buf s, 34), (open_dentry s, 64)] (mem s) m"
    and ok: "inode_ok (filesys_ptr s) (bblk s) ino (mem s)" and i: "first_free s = Some i" "files_ok s"
    and d: "inode d = ino" "file_pos d = 0" "flags d = 0x105"
    and s': "s' = set_fd i d (s\<lparr>mem := m\<rparr>)"
  shows "file_fd_ok (int i) s'" "fd_content (int i) s' = file_content (filesys_ptr s) (bblk s) ino (mem s)" "fd_pos (int i) s' = 0"
proof -
  have "separate a n (filesys_ptr s) (image_size (bblk s))" if "(a, n) \<in> set [(filename_buf s, 34), (open_dentry s, 64)]" for a n
    using that lay by (auto simp: fs_layout_def)
  then have "m x = mem s x" if "in_region (filesys_ptr s) (image_size (bblk s)) x" for x
    using that by (rule frame_outD [OF fr])
  note agree = image_agree [OF ok this]
  have i8: "2 \<le> i" "i < 8" using i(1) by (simp_all add: first_free_Some_iff)
  have get: "get_fd s' i = d" using i8 i(2) by (simp add: s')
  have idx: "desc_idx d = of_nat (blk_idx 0)" "desc_used d" "desc_type d = REG_FILE"
    by (simp_all add: desc_idx_def desc_used_def desc_type_def d I_IDX_MASK_def I_IDX_SHIFT_def USE_MASK_def
        TYPE_MASK_def TYPE_SHIFT_def REG_FILE_def blk_idx_def)
  show "file_fd_ok (int i) s'"
    using i8 i(2) agree idx d by (simp add: file_fd_ok_def get Let_def) (simp add: s')
  show "fd_content (int i) s' = file_content (filesys_ptr s) (bblk s) ino (mem s)"
    using agree d get by (simp add: fd_content_def) (simp add: s')
  show "fd_pos (int i) s' = 0" using d get by (simp add: fd_pos_def)
qed

section \<open>A concrete image\<close>

text \<open>
  An image at \<^verbatim>\<open>0x100000\<close> with one inode and two data blocks: the directory \<open>.\<close>, the device \<open>rtc\<close>
  and the file \<open>a.txt\<close>, which holds \<open>hello\<close> in data block 1. Descriptor 2 has \<open>a.txt\<close> open after its
  first byte, descriptor 3 the directory after its first entry.
\<close>

definition sample_mem :: memory where
  "sample_mem = fold (\<lambda>(a, bs) m. store_bytes m (0x100000 + a) bs)
     [(0, bytes32 3 @ bytes32 1 @ bytes32 2),
      (64, [46]), (96, bytes32 1),
      (128, [114, 116, 99]),
      (192, [97, 46, 116, 120, 116]), (224, bytes32 2),
      (4096, bytes32 5 @ bytes32 1),
      (12288, [104, 101, 108, 108, 111]),
      (0x100000, [97, 46, 116, 120, 116]), (0x100100, [46]), (0x100200, [110, 111])] (\<lambda>_. 0)"

definition free_desc :: file_desc where
  "free_desc = \<lparr>file_op_ptr = None, inode = 0, file_pos = 0, flags = 0\<rparr>"

definition sample_files :: "file_desc list" where
  "sample_files =
     [\<lparr>file_op_ptr = Some terminal_table, inode = 0, file_pos = 0, flags = 7\<rparr>,
      \<lparr>file_op_ptr = Some terminal_table, inode = 0, file_pos = 0, flags = 7\<rparr>,
      \<lparr>file_op_ptr = Some file_table, inode = 0, file_pos = 1, flags = 0x105\<rparr>,
      \<lparr>file_op_ptr = Some dir_table, inode = 0, file_pos = 1, flags = 3\<rparr>] @ replicate 4 free_desc"

definition sample_pcb :: pcb where
  "sample_pcb = \<lparr>file_array = sample_files, old_pcb_ptr = 0, input = replicate 1024 0,
     old_phys_addr = 0, old_esp0 = 0, old_ebp = 0\<rparr>"

definition sample_fsys :: fsys where
  "sample_fsys = \<lparr>mem = sample_mem, port_log = [], device = \<lambda>_ _. 0, if_flag = True,
     master_mask = 0xFF, slave_mask = 0xFF, screen_x = 0, screen_y = 0,
     cur_pcb = 0x7FE000, pcb_heap = \<lambda>_. sample_pcb,
     filesys_ptr = 0x100000, bblk = \<lparr>n_dir_entries = 3, bb_N = 1, bb_D = 2, bb_reserved = 0\<rparr>,
     open_dentry = 0x210000, read_dentry = 0x211000, filename_buf = 0x212000\<rparr>"

lemmas sample_simps = sample_fsys_def sample_mem_def store_bytes_def in_region_def bytes32_def

lemma upt_3: "[0..<3] = [0, 1, 2 :: nat]"
  by (simp add: upt_rec)

lemma unat_minus_one_u32: "unat (- 1 :: u32) = 4294967295"
  by (simp add: unsigned_minus_1_eq_mask mask_eq_exp_minus_1)

lemma sample_entries:
  "entry_str 0x100000 0 sample_mem = [46]" "entry_str 0x100000 (Suc 0) sample_mem = [114, 116, 99]"
  "entry_str 0x100000 2 sample_mem = [97, 46, 116, 120, 116]"
  by (simp_all add: entry_str_def entry_ptr_def cprefix_def bytes_at_def upt_rec sample_simps unat_minus_one_u32)

lemma sample_frame: "n_entries sample_fsys = 3" "mem sample_fsys = sample_mem" "filesys_ptr sample_fsys = 0x100000"
  "bblk sample_fsys = \<lparr>n_dir_entries = 3, bb_N = 1, bb_D = 2, bb_reserved = 0\<rparr>"
  "image_size (bblk sample_fsys) = 16384"
  by (simp_all add: n_entries_def image_size_def sample_fsys_def)

lemma sample_dir_ok: "dir_ok sample_fsys"
  unfolding dir_ok_def sample_frame
  by (simp add: upt_3 sample_entries del: set_upt) (simp add: separate_def sample_fsys_def)

lemma sample_fs_layout: "fs_layout sample_fsys"
  using sample_dir_ok by (simp add: fs_layout_def sample_frame(5)) (simp add: separate_def sample_fsys_def)

lemma sample_inode: "inode_size 0x100000 0 sample_mem = 5" "inode_word 0x100000 0 1 sample_mem = 1"
  by (simp_all add: inode_size_def inode_word_def load32_def sample_simps)

lemma sample_inode_ok: "inode_ok 0x100000 (bblk sample_fsys) 0 sample_mem"
  by (simp add: inode_ok_def sample_inode sample_frame) (simp add: image_size_def)

lemma sample_file_content: "file_content 0x100000 (bblk sample_fsys) 0 sample_mem = [104, 101, 108, 108, 111]"
  by (simp add: file_content_def sample_inode upt_rec file_byte_def sample_frame) (simp add: block_ptr_def sample_simps)

lemma sample_fds:
  "files_ok sample_fsys" "get_fd sample_fsys 2 = \<lparr>file_op_ptr = Some file_table, inode = 0, file_pos = 1, flags = 0x105\<rparr>"
  "get_fd sample_fsys 3 = \<lparr>file_op_ptr = Some dir_table, inode = 0, file_pos = 1, flags = 3\<rparr>"
  by (simp_all add: files_ok_def get_fd_def cur_files_def sample_fsys_def sample_pcb_def sample_files_def)

lemma sample_file_ok: "file_fd_ok 2 sample_fsys"
  using sample_inode_ok
  by (simp add: file_fd_ok_def Let_def sample_fds sample_frame(2,3) sample_inode)
    (simp add: desc_used_def desc_type_def desc_idx_def USE_MASK_def TYPE_MASK_def TYPE_SHIFT_def REG_FILE_def
      I_IDX_MASK_def I_IDX_SHIFT_def blk_idx_def)

lemma sample_dir_fd_ok: "dir_fd_ok 3 sample_fsys"
  using sample_dir_ok by (simp add: dir_fd_ok_def sample_fds USE_MASK_def)

lemma sample_name_arg: "name_arg 0x200000 [97, 46, 116, 120, 116] sample_fsys" "name_arg 0x200200 [110, 111] sample_fsys"
  unfolding name_arg_def cstr_at_def by (simp_all add: sample_simps bytes_at_def upt_rec separate_def)

lemma sample_lookup:
  "dir_lookup [97, 46, 116, 120, 116] sample_fsys = Some 2" "dir_lookup [110, 111] sample_fsys = None"
  by (simp_all add: dir_lookup_def sample_frame entry_name_def upt_3 sample_entries)

lemma sample_fd_content: "fd_content 2 sample_fsys = [104, 101, 108, 108, 111]" "fd_pos 2 sample_fsys = 1"
  using sample_file_content by (simp_all add: fd_content_def fd_pos_def sample_fds sample_frame(2,3))

section \<open>Properties\<close>

lemma get_fd_other: "k \<noteq> i \<Longrightarrow> get_fd (set_fd i d s) k = get_fd s k"
  by (simp add: get_fd_def)



text \<open>
  C7. \<open>read_dentry_by_name\<close> finds a name exactly when the directory of the image holds it: it returns 0
  and fills in the type of the first entry of that name, with its inode number for a regular file and
  0 otherwise, or returns -1. The search always ends, and it writes to its name buffer, to
  \<open>open_dentry\<close> and to the entry it fills only.
\<close>

theorem read_dentry_by_name_finds:
  assumes "dir_ok s" "name_arg fname f s" "dentry_arg dentry s"
  shows "case dir_lookup f s of
     None \<Rightarrow> \<exists>m. read_dentry_by_name fname dentry s = Some (-1, s\<lparr>mem := m\<rparr>) \<and> frame_out [(filename_buf s, 34)] (mem s) m
   | Some j \<Rightarrow> \<exists>m. read_dentry_by_name fname dentry s = Some (0, s\<lparr>mem := m\<rparr>) \<and>
       frame_out [(filename_buf s, 34), (open_dentry s, 64), (dentry, 64)] (mem s) m \<and>
       load32 m (filetype_at dentry) = entry_type (filesys_ptr s) j (mem s) \<and>
       load32 m (inode_num_at dentry) =
         (if entry_type (filesys_ptr s) j (mem s) = REG_FILE then entry_inode (filesys_ptr s) j (mem s) else 0)"
proof (cases "dir_lookup f s")
  case None
  then have "f \<notin> set (dir_names s)" by (auto simp: dir_lookup_def find_None_iff dir_names_def)
  moreover have "dentry \<noteq> NULL" using assms(3) by (simp add: dentry_arg_def)
  ultimately obtain m where "read_dentry_by_name fname dentry s = Some (-1, s\<lparr>mem := m\<rparr>)"
      "frame_out [(filename_buf s, 34)] (mem s) m"
    using by_name_missing [OF assms(1,2)] by blast
  with None show ?thesis by auto
next
  case (Some j)
  from by_name_found [OF assms Some] show ?thesis unfolding Some option.case by metis
qed

theorem read_dentry_by_name_finds_witness:
  "(\<exists>m. read_dentry_by_name 0x200000 0x213000 sample_fsys = Some (0, sample_fsys\<lparr>mem := m\<rparr>) \<and>
      load32 m (filetype_at 0x213000) = entry_type 0x100000 2 sample_mem) \<and>
   (\<exists>m. read_dentry_by_name 0x200200 0x213000 sample_fsys = Some (-1, sample_fsys\<lparr>mem := m\<rparr>))"
proof -
  have "dentry_arg 0x213000 sample_fsys" by (simp add: dentry_arg_def separate_def sample_fsys_def)
  from read_dentry_by_name_finds [OF sample_dir_ok sample_name_arg(1) this]
    read_dentry_by_name_finds [OF sample_dir_ok sample_name_arg(2) this]
  show ?thesis unfolding sample_lookup option.case sample_frame by blast
qed

text \<open>
  C8. A call of \<open>dir_read\<close> on an open directory delivers the next name, cut to the length asked for, and
  moves on by one entry; past the last entry it returns 0 and changes nothing. A name that fits is
  terminated by a zero, and apart from the 33 bytes of the buffer and \<open>read_dentry\<close> no byte changes.
\<close>

theorem dir_read_delivers_next_name:
  assumes "dir_fd_ok fd s" "dir_buf_ok buf s"
  shows "if fd_pos fd s < n_entries s
     then \<exists>k s'. dir_read fd buf (int n) s = Some (int k, s') \<and>
       bytes_at (mem s') buf k = take n (dir_names s ! fd_pos fd s) \<and>
       k = min n (length (dir_names s ! fd_pos fd s)) \<and> k \<le> 32 \<and>
       (k = length (dir_names s ! fd_pos fd s) \<longrightarrow> cstr_at (mem s') buf (dir_names s ! fd_pos fd s)) \<and>
       fd_pos fd s' = Suc (fd_pos fd s) \<and> frame_out [(read_dentry s, 64), (buf, 33)] (mem s) (mem s')
     else dir_read fd buf (int n) s = Some (0, s)"
proof (cases "fd_pos fd s < n_entries s")
  case True
  define nm k where "nm = dir_names s ! fd_pos fd s" and "k = min n (length nm)"
  obtain m1 where rd: "dir_read fd buf (int n) s = Some (int k,
      set_fd (nat fd) ((get_fd s (nat fd))\<lparr>file_pos := file_pos (get_fd s (nat fd)) + 1\<rparr>)
        (s\<lparr>mem := store_bytes m1 buf (take k nm @ (if k = length nm then [0] else []))\<rparr>))"
    and fr: "frame_out [(read_dentry s, 64)] (mem s) m1" and nl: "length nm \<le> 32" "0 \<notin> set nm"
    using dir_read_name [OF assms True nm_def k_def] .
  define m where "m = store_bytes m1 buf (take k nm @ (if k = length nm then [0] else []))"
  have fd: "files_ok s" "nat fd < 8" "dir_ok s" using assms(1) by (auto simp: dir_fd_ok_def)
  have "bytes_at m buf (length (take k nm)) = take k nm"
    unfolding m_def using nl by (intro bytes_at_store_prefix) (simp add: min_def)
  then have b: "bytes_at m buf k = take n nm" by (simp add: k_def min_def split: if_splits)
  have c: "k = length nm \<longrightarrow> cstr_at m buf nm"
    unfolding m_def using nl cstr_at_store_bytes [of nm m1 buf] by simp
  have fr': "frame_out [(read_dentry s, 64), (buf, 33)] (mem s) m"
  proof -
    have "length (take k nm @ (if k = length nm then [0] else [])) \<le> 33" using nl by (simp add: min_def)
    from frame_out_trans [OF fr frame_out_store_bytes [OF this]] show ?thesis by (simp only: m_def append.simps)
  qed
  have "Suc (unat (file_pos (get_fd s (nat fd)))) < 4294967296" using True fd(3) by (simp add: fd_pos_def dir_ok_def)
  then have "fd_pos fd (set_fd (nat fd) ((get_fd s (nat fd))\<lparr>file_pos := file_pos (get_fd s (nat fd)) + 1\<rparr>) (s\<lparr>mem := m\<rparr>))
      = Suc (fd_pos fd s)"
    using fd by (simp add: fd_pos_def unat_word_ariths)
  moreover have "k \<le> 32" using nl by (simp add: k_def)
  ultimately show ?thesis
    using True rd [folded m_def] b c fr' unfolding nm_def [symmetric] k_def [symmetric] by auto
next
  case False
  then show ?thesis using dir_read_end [OF assms(1)] assms(2) by (simp add: dir_buf_ok_def)
qed

theorem dir_read_delivers_next_name_witness:
  "\<exists>k s'. dir_read 3 0x300000 (int 32) sample_fsys = Some (int k, s') \<and> k = 3 \<and>
     bytes_at (mem s') 0x300000 k = [114, 116, 99] \<and> fd_pos 3 s' = 2"
proof -
  have "dir_buf_ok 0x300000 sample_fsys" by (simp add: dir_buf_ok_def separate_def sample_fsys_def)
  moreover have "fd_pos 3 sample_fsys = 1" by (simp add: fd_pos_def sample_fds)
  moreover have "dir_names sample_fsys ! 1 = [114, 116, 99]"
    by (simp add: dir_names_def sample_frame entry_name_def upt_3 sample_entries)
  ultimately show ?thesis
    using dir_read_delivers_next_name [OF sample_dir_fd_ok, of "0x300000" 32] by (auto simp: sample_frame numeral_3_eq_3)
qed

end
