(* ===== verification/Rtc.thy ===== *)
theory Rtc
  imports Filesys_Open
begin

text \<open>
  The real time clock driver, \<^verbatim>\<open>student-distrib/rtc_driver.c\<close>: initialisation, the interrupt handler, and
  the open, close, read and write operations of its jump table.
\<close>

section \<open>Definitions\<close>

record rtc = fsys +
  rtc_interrupt :: int

definition RTC_REGC :: u32 where "RTC_REGC = 0x8C"
definition RTC_REGB :: u32 where "RTC_REGB = 0x8B"
definition RTC_REGA :: u32 where "RTC_REGA = 0x8A"
definition RTC_PORT :: u16 where "RTC_PORT = 0x70"
definition RTC_6_BIT :: u32 where "RTC_6_BIT = 0x40"
definition top_4 :: u32 where "top_4 = 0xF0"
definition bot_4 :: u32 where "bot_4 = 0x0F"
definition init_rate :: u32 where "init_rate = 0x0F"
definition max_rate :: u32 where "max_rate = 16"

definition rtc_init :: "'a rtc_scheme \<Rightarrow> 'a rtc_scheme" where
  "rtc_init s =
     (let s1 = outb RTC_REGB RTC_PORT s;
          (prev, s2) = inb (RTC_PORT + 1) s1;
          s3 = outb RTC_REGB RTC_PORT s2
      in outb (prev OR RTC_6_BIT) (RTC_PORT + 1) s3)"

text \<open>
  Both \<open>rtc_open\<close> and \<open>rtc_write\<close> program register A the same way. \<open>prev\<close> is a signed char; the masks
  keep its low eight bits only, so its sign extension does not matter. \<open>rtc_write\<close> spells the data port
  \<^verbatim>\<open>RTC_PORT | 0x1\<close>, the same number.
\<close>

definition program_rate :: "u32 \<Rightarrow> 'a rtc_scheme \<Rightarrow> 'a rtc_scheme" where
  "program_rate rate s =
     (let s1 = outb RTC_REGA RTC_PORT s;
          (prev, s2) = inb (RTC_PORT + 1) s1;
          s3 = outb RTC_REGA RTC_PORT s2
      in outb ((prev AND top_4) OR rate) (RTC_PORT + 1) s3)"

definition rtc_open :: "addr \<Rightarrow> 'a rtc_scheme \<Rightarrow> (int \<times> 'a rtc_scheme) option" where
  "rtc_open filename s =
     (let s1 = (enable_irq 8 (enable_irq 2 (program_rate init_rate (cli s))))\<lparr>rtc_interrupt := 0\<rparr>
      in case first_free s1 of
           None \<Rightarrow> Some (-1, s1)
         | Some i \<Rightarrow> Some (0, sti (set_fd i ((get_fd s1 i)\<lparr>inode := 0, file_pos := 0,
             flags := 1 OR push_bit 1 0 OR push_bit 8 1\<rparr>) s1)))"

definition rtc_close :: "int \<Rightarrow> 'a rtc_scheme \<Rightarrow> (int \<times> 'a rtc_scheme) option" where
  "rtc_close fd s =
     (if fd \<le> 1 \<or> 8 \<le> fd then Some (-1, s)
      else let d = get_fd s (nat fd)
           in if drop_bit 1 (flags d AND 0x6) \<noteq> 0 then Some (-1, s)
              else if flags d mod 2 = 0 then Some (-1, s)
              else Some (0, set_fd (nat fd) (d\<lparr>flags := 0\<rparr>) s))"

text \<open>The loop \<open>while (input_rate >>= 1) input_base++\<close>.\<close>

function rate_base :: "u32 \<Rightarrow> u32 \<Rightarrow> u32" where
  "rate_base input_rate input_base =
     (if drop_bit 1 input_rate \<noteq> 0 then rate_base (drop_bit 1 input_rate) (input_base + 1) else input_base)"
  by pat_completeness auto
termination
proof (relation "measure (\<lambda>(input_rate, input_base). unat input_rate)")
  fix r b :: u32
  assume "drop_bit 1 r \<noteq> 0"
  moreover have "unat (drop_bit 1 r) = unat r div 2" by (simp add: drop_bit_eq_div unat_div_distrib)
  ultimately have "unat (drop_bit 1 r) < unat r" by (metis div_less_dividend div_0 less_2_cases_iff gr_zeroI one_less_numeral_iff semiring_norm(76) unat_eq_zero)
  then show "((drop_bit 1 r, b + 1), r, b) \<in> measure (\<lambda>(input_rate, input_base). unat input_rate)" by simp
qed auto

declare rate_base.simps [simp del]

definition rtc_write :: "int \<Rightarrow> addr \<Rightarrow> int \<Rightarrow> 'a rtc_scheme \<Rightarrow> (int \<times> 'a rtc_scheme) option" where
  "rtc_write fd buf nbytes s =
     (let input_rate = ucast (mem s buf);
          input_base = rate_base input_rate 0
      in if input_rate AND (input_rate - 1) \<noteq> 0 then Some (-1, s)
         else if input_base < 2 \<or> 10 < input_base then Some (-1, s)
         else Some (0, sti (program_rate ((max_rate - input_base) AND bot_4) (cli s))))"

text \<open>
  \<open>rtc_read\<close> spins until the handler has set \<open>rtc_interrupt\<close>. Which interrupts arrive while it spins
  is not for the kernel to decide: \<open>bursts\<close> lists, for every turn of the loop, the interrupts that are
  served between \<open>sti\<close> and the next \<open>cli\<close>, and \<open>irq\<close> runs the handler of one. When the list ends, no
  further interrupt ever arrives and the loop does not return.
\<close>

fun rtc_wait :: "('e \<Rightarrow> 'a rtc_scheme \<Rightarrow> 'a rtc_scheme) \<Rightarrow> 'e list list \<Rightarrow> 'a rtc_scheme \<Rightarrow> 'a rtc_scheme option" where
  "rtc_wait irq bursts s =
     (let s1 = cli s
      in if rtc_interrupt s1 \<noteq> 0 then Some (s1\<lparr>rtc_interrupt := 0\<rparr>)
         else case bursts of [] \<Rightarrow> None | b # bs \<Rightarrow> rtc_wait irq bs (fold irq b (sti s1)))"

declare rtc_wait.simps [simp del]

definition rtc_read ::
  "('e \<Rightarrow> 'a rtc_scheme \<Rightarrow> 'a rtc_scheme) \<Rightarrow> 'e list list \<Rightarrow> int \<Rightarrow> addr \<Rightarrow> int \<Rightarrow> 'a rtc_scheme \<Rightarrow> (int \<times> 'a rtc_scheme) option" where
  "rtc_read irq bursts fd buf nbytes s = map_option (\<lambda>s'. (0, s')) (rtc_wait irq bursts s)"

definition rtc_handler :: "'a rtc_scheme \<Rightarrow> 'a rtc_scheme" where
  "rtc_handler s = sti (send_eoi 8 (snd (inb (RTC_PORT + 1) (outb RTC_REGC RTC_PORT ((cli s)\<lparr>rtc_interrupt := 1\<rparr>)))))"

section \<open>Frame facts\<close>

lemma pcb_outb [simp]:
  "cur_pcb (outb d p s) = cur_pcb s" "pcb_heap (outb d p s) = pcb_heap s"
  "cur_pcb (snd (inb q s)) = cur_pcb s" "pcb_heap (snd (inb q s)) = pcb_heap s"
  "cur_pcb (cli s) = cur_pcb s" "pcb_heap (cli s) = pcb_heap s"
  "cur_pcb (sti s) = cur_pcb s" "pcb_heap (sti s) = pcb_heap s"
  "cur_pcb (enable_irq n s) = cur_pcb s" "pcb_heap (enable_irq n s) = pcb_heap s"
  "cur_pcb (send_eoi n s) = cur_pcb s" "pcb_heap (send_eoi n s) = pcb_heap s"
  by (simp_all add: outb_def inb_def cli_def sti_def enable_irq_def send_eoi_def Let_def)

lemma mem_enable_irq [simp]: "mem (enable_irq n s) = mem s" "mem (send_eoi n s) = mem s"
  "if_flag (enable_irq n s) = if_flag s" "device (enable_irq n s) = device s"
  by (simp_all add: enable_irq_def send_eoi_def Let_def)

lemma program_rate_frame [simp]:
  "cur_pcb (program_rate r s) = cur_pcb s" "pcb_heap (program_rate r s) = pcb_heap s"
  "mem (program_rate r s) = mem s"
  by (simp_all add: program_rate_def Let_def split_beta)

lemma cur_files_cong: "cur_pcb s' = cur_pcb s \<Longrightarrow> pcb_heap s' = pcb_heap s \<Longrightarrow> cur_files s' = cur_files s"
  by (simp add: cur_files_def)

section \<open>The driver meets the contract\<close>

lemma rtc_open_state:
  fixes s :: "'a rtc_scheme"
  defines "s1 \<equiv> (enable_irq 8 (enable_irq 2 (program_rate init_rate (cli s))))\<lparr>rtc_interrupt := 0\<rparr>"
  shows "cur_files s1 = cur_files s" "first_free s1 = first_free s" "mem s1 = mem s"
  unfolding s1_def by (simp_all add: first_free_def cur_files_def)

lemma rtc_open_cases:
  assumes "rtc_open filename s = Some (r, s')"
  shows "(r = -1 \<and> cur_files s' = cur_files s) \<or>
     (r = 0 \<and> (\<exists>i d. first_free_from (cur_files s) 2 = Some i \<and> flags d = 0x101 \<and> cur_files s' = (cur_files s)[i := d]))"
proof -
  have f: "(1 :: u32) OR push_bit 1 0 OR push_bit 8 1 = 0x101" by code_simp
  have sti: "cur_files (sti t) = cur_files t" for t :: "'a rtc_scheme" by (simp add: cur_files_def)
  from assms show ?thesis
    unfolding rtc_open_def Let_def rtc_open_state f
    by (cases "first_free s") (auto simp: rtc_open_state sti first_free_def intro!: same_update)
qed

lemma rtc_close_cases:
  assumes "rtc_close fd s = Some (r, s')"
  shows "(r = -1 \<and> s' = s) \<or>
     (r = 0 \<and> 2 \<le> fd \<and> fd < 8 \<and> \<not> fd_free (cur_files s ! nat fd) \<and>
      cur_files s' = (cur_files s)[nat fd := (cur_files s ! nat fd)\<lparr>flags := 0\<rparr>])"
  using assms by (auto simp: rtc_close_def Let_def fd_free_def get_fd_def split: if_splits)

lemma rtc_close_open:
  assumes "2 \<le> i" "i < 8" "flags (cur_files s ! i) = 0x101"
  shows "\<exists>s'. rtc_close (int i) s = Some (0, s')"
  using assms by (simp add: rtc_close_def get_fd_def Let_def)

interpretation rtc_driver: fd_driver cur_files "rtc_open filename" rtc_close
  for filename
  by (rule fd_driverI [of _ _ "0x101"]) (fact rtc_open_cases, simp, fact rtc_close_cases, fact rtc_close_open)

section \<open>The frequency\<close>

text \<open>A rate \<open>r\<close> in register A makes the clock tick \<open>32768 >> (r - 1)\<close> times a second.\<close>

definition rtc_frequency :: "byte \<Rightarrow> nat" where
  "rtc_frequency a = 32768 div 2 ^ (unat (a AND 0x0F) - 1)"

lemma rate_base_values:
  "rate_base 0 0 = 0" "rate_base 1 0 = 0" "rate_base 2 0 = 1" "rate_base 4 0 = 2" "rate_base 8 0 = 3" "rate_base 16 0 = 4"
  "rate_base 32 0 = 5" "rate_base 64 0 = 6" "rate_base 128 0 = 7"
  by (simp_all add: rate_base.simps)

lemma power_of_two_byte:
  fixes b :: byte
  defines "r \<equiv> ucast b :: u32"
  shows "r AND (r - 1) = 0 \<longleftrightarrow> b \<in> {0, 1, 2, 4, 8, 16, 32, 64, 128}"
proof -
  have "\<forall>n \<in> set [0..<256]. (of_nat n :: u32) AND (of_nat n - 1) = 0 \<longleftrightarrow> n \<in> {0, 1, 2, 4, 8, 16, 32, 64, 128}"
    by code_simp
  moreover have "unat b < 256" using unsigned_less [of b, where ?'a = nat] by simp
  then have "unat b \<in> set [0..<256]" by simp
  ultimately have "(of_nat (unat b) :: u32) AND (of_nat (unat b) - 1) = 0 \<longleftrightarrow> unat b \<in> {0, 1, 2, 4, 8, 16, 32, 64, 128}"
    by (rule bspec)
  then have fact: "r AND (r - 1) = 0 \<longleftrightarrow> unat b \<in> {0, 1, 2, 4, 8, 16, 32, 64, 128}" by (simp add: r_def)
  have "b \<in> {0, 1, 2, 4, 8, 16, 32, 64, 128} \<longleftrightarrow> unat b \<in> {0, 1, 2, 4, 8, 16, 32, 64, 128}"
    by (simp add: word_unat_eq_iff)
  with fact show ?thesis by blast
qed

text \<open>The port accesses of \<open>program_rate\<close> when the device answers \<open>a\<close> for register A.\<close>

lemma program_rate_log:
  fixes s :: "'a rtc_scheme"
  defines "a \<equiv> device s (port_log s @ [Outb 0x70 0x8A]) 0x71"
  shows "port_log (program_rate r s) = port_log s @ [Outb 0x70 0x8A, Inb 0x71 a, Outb 0x70 0x8A, Outb 0x71 (ucast ((ucast a AND top_4) OR r))]"
  by (simp add: program_rate_def Let_def split_beta RTC_PORT_def RTC_REGA_def a_def)

lemma low_nibble: "(ucast ((ucast (a :: byte) AND top_4) OR r) :: byte) AND 0x0F = ucast r AND 0x0F"
proof -
  have m: "top_4 = push_bit 4 (mask 4)" "(0x0F :: byte) = mask 4" unfolding top_4_def by code_simp+
  show ?thesis unfolding m by (rule bit_word_eqI) (auto simp: bit_simps)
qed

lemma high_nibble: "(ucast ((ucast (a :: byte) AND top_4) OR (r AND bot_4)) :: byte) AND 0xF0 = a AND 0xF0"
proof -
  have m: "top_4 = push_bit 4 (mask 4)" "(0xF0 :: byte) = push_bit 4 (mask 4)" "bot_4 = mask 4"
    unfolding top_4_def bot_4_def by code_simp+
  show ?thesis unfolding m by (rule bit_word_eqI) (auto simp: bit_simps)
qed

lemma rtc_write_cases:
  fixes s :: "'a rtc_scheme" and buf :: addr
  defines "b \<equiv> mem s buf"
  shows "rtc_write fd buf n s =
    (if b \<in> {4, 8, 16, 32, 64, 128}
     then Some (0, sti (program_rate ((max_rate - rate_base (ucast b) 0) AND bot_4) (cli s)))
     else Some (-1, s))"
proof -
  have p: "ucast b AND (ucast b - 1 :: u32) = 0 \<longleftrightarrow> b \<in> {0, 1, 2, 4, 8, 16, 32, 64, 128}"
    by (rule power_of_two_byte)
  consider "b \<in> {4, 8, 16, 32, 64, 128}" | "b \<in> {0, 1, 2}" | "b \<notin> {0, 1, 2, 4, 8, 16, 32, 64, 128}" by blast
  then show ?thesis
  proof cases
    case 1
    then have "\<not> (rate_base (ucast b) 0 < 2 \<or> 10 < rate_base (ucast b) 0)" by (auto simp: rate_base_values)
    moreover have "ucast b AND (ucast b - 1 :: u32) = 0" using p 1 by blast
    ultimately show ?thesis unfolding rtc_write_def Let_def b_def [symmetric] if_P [OF 1] by (simp del: de_Morgan_disj)
  next
    case 2
    then have "rate_base (ucast b) 0 < 2" by (auto simp: rate_base_values)
    moreover have "b \<notin> {4, 8, 16, 32, 64, 128}" using 2 by auto
    ultimately show ?thesis unfolding rtc_write_def Let_def b_def [symmetric] by simp
  next
    case 3
    then have "ucast b AND (ucast b - 1 :: u32) \<noteq> 0" "b \<notin> {4, 8, 16, 32, 64, 128}" using p by blast+
    then show ?thesis unfolding rtc_write_def Let_def b_def [symmetric] by simp
  qed
qed

section \<open>Waiting for a tick\<close>

lemma rtc_interrupt_flags [simp]: "rtc_interrupt (cli t) = rtc_interrupt t" "rtc_interrupt (sti t) = rtc_interrupt t"
  by (simp_all add: cli_def sti_def)

lemma rtc_wait_returns:
  assumes keep: "\<And>e t. rtc_interrupt (irq e t) = (if tick e then 1 else rtc_interrupt t)"
  shows "(\<exists>s'. rtc_wait irq bursts s = Some s') \<longleftrightarrow> rtc_interrupt s \<noteq> 0 \<or> (\<exists>b \<in> set bursts. \<exists>e \<in> set b. tick e)"
    "rtc_wait irq bursts s = Some s' \<Longrightarrow> rtc_interrupt s' = 0 \<and> \<not> if_flag s'"
proof -
  note fl = rtc_interrupt_flags
  have burst: "rtc_interrupt (fold irq b t) \<noteq> 0 \<longleftrightarrow> rtc_interrupt t \<noteq> 0 \<or> (\<exists>e \<in> set b. tick e)" for b t
    by (induction b arbitrary: t) (auto simp: keep)
  show "(\<exists>s'. rtc_wait irq bursts s = Some s') \<longleftrightarrow> rtc_interrupt s \<noteq> 0 \<or> (\<exists>b \<in> set bursts. \<exists>e \<in> set b. tick e)"
  proof (induction bursts arbitrary: s)
    case Nil
    then show ?case by (simp add: rtc_wait.simps [of irq "[]"] Let_def fl)
  next
    case (Cons b bs)
    show ?case
    proof (cases "rtc_interrupt s = 0")
      case True
      then have "rtc_wait irq (b # bs) s = rtc_wait irq bs (fold irq b (sti (cli s)))"
        by (simp add: rtc_wait.simps [of irq "b # bs"] Let_def fl)
      then show ?thesis using Cons.IH [of "fold irq b (sti (cli s))"] burst [of b "sti (cli s)"] True by (auto simp: fl)
    qed (simp add: rtc_wait.simps [of irq "b # bs"] Let_def fl)
  qed
  show "rtc_wait irq bursts s = Some s' \<Longrightarrow> rtc_interrupt s' = 0 \<and> \<not> if_flag s'"
  proof (induction bursts arbitrary: s)
    case Nil
    then show ?case by (auto simp: rtc_wait.simps [of irq "[]"] Let_def split: if_splits)
  next
    case (Cons b bs)
    then show ?case by (auto simp: rtc_wait.simps [of irq "b # bs"] Let_def split: if_splits)
  qed
qed

section \<open>Properties\<close>


end
