(* ===== verification/Keyboard.thy ===== *)
theory Keyboard
  imports Rtc
begin

text \<open>
  The keyboard and terminal driver, \<^verbatim>\<open>student-distrib/key_driver.c\<close>: the translation tables, the
  interrupt handler with its shift, caps lock and control state, the line buffer, and the open,
  close, read and write operations of the terminal. An abstract line editor is what the handler
  refines.
\<close>

section \<open>Definitions\<close>

text \<open>\<open>key_buf\<close> is a static array of 128 bytes: the field holds its address.\<close>

record kbd = rtc +
  key_buf :: addr
  key_buf_index :: int
  enter_flag :: int
  dict :: u32
  ctrl_mode :: int
  caps_mode :: int
  shift_mode :: int
  mode_flag :: int

definition LSHIFT_PRESSED :: byte where "LSHIFT_PRESSED = 0x2A"
definition LSHIFT_RELEASED :: byte where "LSHIFT_RELEASED = 0xAA"
definition RSHIFT_PRESSED :: byte where "RSHIFT_PRESSED = 0x36"
definition RSHIFT_RELEASED :: byte where "RSHIFT_RELEASED = 0xB6"
definition CTRL_PRESSED :: byte where "CTRL_PRESSED = 0x1D"
definition CTRL_RELEASED :: byte where "CTRL_RELEASED = 0x9D"
definition CAPS_PRESSED :: byte where "CAPS_PRESSED = 0x3A"
definition KEY_BUF_SIZE :: int where "KEY_BUF_SIZE = 128"
definition STDIN :: int where "STDIN = 0"
definition STDOUT :: int where "STDOUT = 1"
definition KEY_PORT :: u16 where "KEY_PORT = 0x60"

text \<open>The three translation tables; the initialisers leave the rest of each row zero.\<close>

definition chars_of :: "string \<Rightarrow> byte list" where
  "chars_of = map of_char"

definition key_tail :: "byte list" where
  "key_tail = [0, 42, 0, 32, 0] @ replicate 15 0 @ [45, 0, 0, 0, 43] @ replicate 49 0"

definition key_array :: "byte list list" where
  "key_array =
     [[0, 27] @ chars_of ''1234567890-='' @ [8, 9] @ chars_of ''qwertyuiop[]'' @ [10, 0] @ chars_of ''asdfghjkl;'' @
        [39, 96, 0, 92] @ chars_of ''zxcvbnm,./'' @ key_tail,
      [0, 27] @ chars_of ''!@#$%^&*()_+'' @ [8, 9] @ chars_of ''QWERTYUIOP{}'' @ [10, 0] @ chars_of ''ASDFGHJKL:'' @
        [39, 126, 0, 92] @ chars_of ''ZXCVBNM<>?'' @ key_tail,
      [0, 27] @ chars_of ''1234567890-='' @ [8, 9] @ chars_of ''QWERTYUIOP[]'' @ [10, 0] @ chars_of ''ASDFGHJKL;'' @
        [39, 96, 0, 92] @ chars_of ''ZXCVBNM,./'' @ key_tail]"

text \<open>
  \<open>key_array[dict][input]\<close>. For a scancode of 128 or more the C code reads the next row, or past the
  last one, and never uses the value; here such a read gives 0.
\<close>

definition key_symbol :: "u32 \<Rightarrow> byte \<Rightarrow> byte" where
  "key_symbol d inp = (if d < 3 \<and> inp < 128 then key_array ! unat d ! unat inp else 0)"

definition key_open :: "'a kbd_scheme \<Rightarrow> 'a kbd_scheme" where
  "key_open s = enable_irq 1 s"

definition keyboard_environment :: "'a kbd_scheme \<Rightarrow> 'a kbd_scheme" where
  "keyboard_environment s = (key_open s)\<lparr>dict := 0, caps_mode := 0, shift_mode := 0, ctrl_mode := 0\<rparr>"

definition add_to_buffer :: "byte \<Rightarrow> 'a kbd_scheme \<Rightarrow> 'a kbd_scheme" where
  "add_to_buffer symbol s =
     (if key_buf_index s < KEY_BUF_SIZE
      then s\<lparr>mem := (mem s)(key_buf s + of_int (key_buf_index s) := symbol), key_buf_index := key_buf_index s + 1\<rparr>
      else s)"

definition process_to_buffer :: "byte \<Rightarrow> 'a kbd_scheme \<Rightarrow> 'a kbd_scheme" where
  "process_to_buffer inp s =
     (let symbol = key_symbol (dict s) inp
      in if ctrl_mode s \<noteq> 0 then
           if symbol = 0x6C \<or> symbol = 0x4C then set_screen 0 0 (clear s) else s
         else if key_buf_index s < KEY_BUF_SIZE then add_to_buffer symbol (putc_terminal symbol s)
         else s)"

definition shift_keys :: "byte \<Rightarrow> 'a kbd_scheme \<Rightarrow> 'a kbd_scheme" where
  "shift_keys inp s =
     (if inp = RSHIFT_PRESSED \<or> inp = LSHIFT_PRESSED then s\<lparr>shift_mode := 1, mode_flag := 1\<rparr>
      else if inp = RSHIFT_RELEASED \<or> inp = LSHIFT_RELEASED then s\<lparr>shift_mode := 0, mode_flag := 1\<rparr>
      else s)"

definition caps_key :: "byte \<Rightarrow> 'a kbd_scheme \<Rightarrow> 'a kbd_scheme" where
  "caps_key inp s = (if inp = CAPS_PRESSED then s\<lparr>caps_mode := NOT (caps_mode s), mode_flag := 1\<rparr> else s)"

definition ctrl_keys :: "byte \<Rightarrow> 'a kbd_scheme \<Rightarrow> 'a kbd_scheme" where
  "ctrl_keys inp s =
     (if inp = CTRL_PRESSED then s\<lparr>ctrl_mode := 1, mode_flag := 1\<rparr>
      else if inp = CTRL_RELEASED then s\<lparr>ctrl_mode := 0, mode_flag := 1\<rparr>
      else s)"

definition key_modes :: "byte \<Rightarrow> 'a kbd_scheme \<Rightarrow> 'a kbd_scheme" where
  "key_modes inp s = ctrl_keys inp (caps_key inp (shift_keys inp s))"

definition key_dict :: "'a kbd_scheme \<Rightarrow> 'a kbd_scheme" where
  "key_dict s = s\<lparr>dict :=
     (if shift_mode s \<noteq> 0 \<and> caps_mode s \<noteq> 0 then 0
      else if shift_mode s \<noteq> 0 \<and> NOT (caps_mode s) \<noteq> 0 then 1
      else if NOT (shift_mode s) \<noteq> 0 \<and> caps_mode s \<noteq> 0 then 2
      else 0)\<rparr>"

definition backspace :: "'a kbd_scheme \<Rightarrow> 'a kbd_scheme" where
  "backspace s =
     (if 0 < key_buf_index s then
        let s1 = deletec_terminal (mem s (key_buf s + of_int (key_buf_index s - 1))) s
        in s1\<lparr>mem := (mem s1)(key_buf s1 + of_int (key_buf_index s1) := 0), key_buf_index := key_buf_index s1 - 1\<rparr>
      else s)"

definition key_handler :: "'a kbd_scheme \<Rightarrow> 'a kbd_scheme" where
  "key_handler s =
     (let (data, s1) = inb KEY_PORT (cli s);
          inp = ucast data;
          symbol = key_symbol (dict s1) inp;
          s2 = key_dict (key_modes inp (s1\<lparr>enter_flag := 0, mode_flag := 0\<rparr>));
          s3 = (if 0x80 \<le> inp \<or> mode_flag s2 \<noteq> 0 then sti (send_eoi 1 s2)
                else if symbol = 8 then backspace s2
                else process_to_buffer inp (if symbol = 10 then s2\<lparr>enter_flag := 1\<rparr> else s2))
      in sti (send_eoi 1 s3))"

definition clear_key_buffer :: "'a kbd_scheme \<Rightarrow> 'a kbd_scheme" where
  "clear_key_buffer s =
     s\<lparr>mem := fold (\<lambda>i m. m(key_buf s + of_nat i := 0)) [0..<nat KEY_BUF_SIZE] (mem s), key_buf_index := 0\<rparr>"

definition terminal_open :: "addr \<Rightarrow> 'a kbd_scheme \<Rightarrow> (int \<times> 'a kbd_scheme) option" where
  "terminal_open filename s = Some (0, keyboard_environment s)"

definition terminal_close :: "int \<Rightarrow> 'a kbd_scheme \<Rightarrow> (int \<times> 'a kbd_scheme) option" where
  "terminal_close fd s =
     (if fd < 0 \<or> 1 < fd then Some (-1, s)
      else let d = get_fd s (nat fd)
           in if flags d mod 2 = 0 then Some (-1, s)
              else Some (0, set_fd (nat fd) (d\<lparr>flags := 0\<rparr>) s))"

text \<open>
  \<open>terminal_read\<close> spins on \<open>enter_flag\<close>. As for \<open>rtc_read\<close>, \<open>bursts\<close> lists the interrupts served before
  each look at the flag.
\<close>

fun terminal_wait :: "('e \<Rightarrow> 'a kbd_scheme \<Rightarrow> 'a kbd_scheme) \<Rightarrow> 'e list list \<Rightarrow> 'a kbd_scheme \<Rightarrow> 'a kbd_scheme option" where
  "terminal_wait irq [] s = None"
| "terminal_wait irq (b # bs) s =
     (let s' = fold irq b s in if enter_flag s' = 1 then Some s' else terminal_wait irq bs s')"

function copy_keys :: "addr \<Rightarrow> addr \<Rightarrow> u32 \<Rightarrow> u32 \<Rightarrow> memory \<Rightarrow> memory \<times> u32" where
  "copy_keys kb buffer n i m =
     (if i < n then copy_keys kb buffer n (i + 1) (m(buffer + i := m (kb + i))) else (m, i))"
  by pat_completeness auto
termination
  by (relation "measure (\<lambda>(kb, buffer, n, i, m). unat n - unat i)") (auto simp: index_measure)

definition terminal_read ::
  "('e \<Rightarrow> 'a kbd_scheme \<Rightarrow> 'a kbd_scheme) \<Rightarrow> 'e list list \<Rightarrow> int \<Rightarrow> addr \<Rightarrow> int \<Rightarrow> 'a kbd_scheme \<Rightarrow> (int \<times> 'a kbd_scheme) option" where
  "terminal_read irq bursts fd buf nbytes s =
     (if fd \<noteq> STDIN then Some (-1, s)
      else do {
        s1 \<leftarrow> terminal_wait irq bursts (clear_key_buffer s);
        let (m, i) = copy_keys (key_buf s1) buf (of_int (key_buf_index s1)) 0 (mem s1);
        Some (sint i, clear_key_buffer (s1\<lparr>mem := m, enter_flag := 0\<rparr>)) })"

function write_loop :: "addr \<Rightarrow> int \<Rightarrow> int \<Rightarrow> 'a kbd_scheme \<Rightarrow> int \<times> 'a kbd_scheme" where
  "write_loop inbuf nbytes index s =
     (if index < nbytes then write_loop inbuf nbytes (index + 1) (putc_terminal (mem s (inbuf + of_int index)) s)
      else (index, s))"
  by pat_completeness auto
termination
  by (relation "measure (\<lambda>(inbuf, nbytes, index, s). nat (nbytes - index))") auto

definition terminal_write :: "int \<Rightarrow> addr \<Rightarrow> int \<Rightarrow> 'a kbd_scheme \<Rightarrow> (int \<times> 'a kbd_scheme) option" where
  "terminal_write fd buf nbytes s =
     (if fd \<noteq> STDOUT then Some (-1, s)
      else let (index, s') = write_loop buf nbytes 0 (cli s) in Some (index, sti s'))"

declare copy_keys.simps [simp del] write_loop.simps [simp del]

text \<open>
  The interrupts of the kernel. A key interrupt brings the scancode that the keyboard then answers on
  its port.
\<close>

datatype irq = Rtc_irq | Key_irq byte

definition run_irq :: "irq \<Rightarrow> 'a kbd_scheme \<Rightarrow> 'a kbd_scheme" where
  "run_irq e s =
     (case e of
        Rtc_irq \<Rightarrow> rtc_handler s
      | Key_irq c \<Rightarrow> key_handler (s\<lparr>device := (\<lambda>l p. if p = KEY_PORT then c else device s l p)\<rparr>))"

section \<open>The line editor\<close>

text \<open>
  What the handler does for the reader of a line: shift and caps lock choose a layout, every other
  key adds a symbol, backspace takes the last one away, and enter ends the line.
\<close>

record editor =
  ed_shift :: bool
  ed_caps :: bool
  ed_line :: "byte list"
  ed_enter :: bool

definition key_layout :: "bool \<Rightarrow> bool \<Rightarrow> u32" where
  "key_layout shift caps = (if shift \<and> \<not> caps then 1 else if caps \<and> \<not> shift then 2 else 0)"

definition edit_key :: "byte \<Rightarrow> editor \<Rightarrow> editor" where
  "edit_key c e0 =
     (let e = e0\<lparr>ed_enter := False\<rparr>
      in if c = 0x2A \<or> c = 0x36 then e\<lparr>ed_shift := True\<rparr>
         else if c = 0xAA \<or> c = 0xB6 then e\<lparr>ed_shift := False\<rparr>
         else if c = 0x3A then e\<lparr>ed_caps := \<not> ed_caps e\<rparr>
         else if 0x80 \<le> c then e
         else if c = 0x0E then e\<lparr>ed_line := butlast (ed_line e)\<rparr>
         else let sym = key_symbol (key_layout (ed_shift e) (ed_caps e)) c
              in e\<lparr>ed_line := (if length (ed_line e) < 128 then ed_line e @ [sym] else ed_line e), ed_enter := (sym = 10)\<rparr>)"

definition key_line :: "'a kbd_scheme \<Rightarrow> byte list" where
  "key_line s = bytes_at (mem s) (key_buf s) (nat (key_buf_index s))"

definition abs_editor :: "'a kbd_scheme \<Rightarrow> editor" where
  "abs_editor s = \<lparr>ed_shift = (shift_mode s \<noteq> 0), ed_caps = (caps_mode s \<noteq> 0), ed_line = key_line s, ed_enter = (enter_flag s = 1)\<rparr>"

text \<open>
  The state in which the buffer and the screen agree: the cursor is on the screen, at least as far
  from the top left corner as the line is long, and the buffer lies apart from the screen. Control
  and tab are left out: control with L moves the cursor away from the line, and a tab may leave
  the screen.
\<close>

definition kbd_inv :: "'a kbd_scheme \<Rightarrow> bool" where
  "kbd_inv s \<longleftrightarrow> cursor_ok s \<and> 0 \<le> key_buf_index s \<and> key_buf_index s \<le> 128 \<and>
     key_buf_index s \<le> 80 * screen_y s + screen_x s \<and> ctrl_mode s = 0 \<and>
     (caps_mode s = 0 \<or> caps_mode s = -1) \<and> (shift_mode s = 0 \<or> shift_mode s = 1) \<and>
     dict s = key_layout (shift_mode s \<noteq> 0) (caps_mode s \<noteq> 0) \<and>
     separate (key_buf s) 129 VIDEO 4000 \<and> 9 \<notin> set (key_line s)"

section \<open>The tables\<close>

lemma key_rows: "length key_array = 3" "\<forall>r \<in> set key_array. length r = 128"
  by code_simp+

lemma enumerate_unique:
  assumes "filter (\<lambda>(j, x). x = v) (enumerate 0 r) = [(k, v)]" "j < length r"
  shows "r ! j = v \<longleftrightarrow> j = k"
proof -
  have mem: "(i, x) \<in> set (enumerate 0 r) \<longleftrightarrow> i < length r \<and> r ! i = x" for i x
    by (auto simp: in_set_enumerate_eq)
  have "(i, v) \<in> set (filter (\<lambda>(j, x). x = v) (enumerate 0 r)) \<longleftrightarrow> i < length r \<and> r ! i = v" for i
    by (simp add: mem)
  then have "(i, v) \<in> set [(k, v)] \<longleftrightarrow> i < length r \<and> r ! i = v" for i
    unfolding assms(1) .
  from this [of j] assms(2) show ?thesis by auto
qed

lemma key_rows_special:
  "\<forall>r \<in> set key_array. filter (\<lambda>(j, x). x = 8) (enumerate 0 r) = [(14, 8)]"
  "\<forall>r \<in> set key_array. filter (\<lambda>(j, x). x = 9) (enumerate 0 r) = [(15, 9)]"
  "\<forall>r \<in> set key_array. filter (\<lambda>(j, x). x = 10) (enumerate 0 r) = [(28, 10)]"
  by code_simp+

lemma key_symbol_special:
  assumes "d < 3" "c < 128"
  shows "key_symbol d c = 8 \<longleftrightarrow> c = 0x0E" "key_symbol d c = 9 \<longleftrightarrow> c = 0x0F" "key_symbol d c = 10 \<longleftrightarrow> c = 0x1C"
proof -
  define r where "r = key_array ! unat d"
  have r: "r \<in> set key_array" using assms(1) key_rows(1) by (simp add: r_def word_less_nat_alt)
  then have c: "unat c < length r" using assms(2) key_rows(2) by (simp add: word_less_nat_alt)
  have sym: "key_symbol d c = r ! unat c" using assms by (simp add: key_symbol_def r_def)
  have "c = 0x0E \<longleftrightarrow> unat c = 14" "c = 0x0F \<longleftrightarrow> unat c = 15" "c = 0x1C \<longleftrightarrow> unat c = 28"
    by (simp_all add: word_unat_eq_iff)
  then show "key_symbol d c = 8 \<longleftrightarrow> c = 0x0E" "key_symbol d c = 9 \<longleftrightarrow> c = 0x0F" "key_symbol d c = 10 \<longleftrightarrow> c = 0x1C"
    unfolding sym using key_rows_special r enumerate_unique [OF _ c] by metis+
qed

lemma key_layout_less: "key_layout a b < 3"
  by (simp add: key_layout_def)

section \<open>Frame facts\<close>

lemma kbd_putc [simp]:
  fixes s :: "'a kbd_scheme"
  shows "key_buf (putc_terminal c s) = key_buf s" "key_buf_index (putc_terminal c s) = key_buf_index s"
    "enter_flag (putc_terminal c s) = enter_flag s" "dict (putc_terminal c s) = dict s"
    "ctrl_mode (putc_terminal c s) = ctrl_mode s" "caps_mode (putc_terminal c s) = caps_mode s"
    "shift_mode (putc_terminal c s) = shift_mode s"
  by (simp_all add: putc_terminal_def Let_def set_cursor_pos_def outw_def vertical_scroll_def set_screen_def
      store_cell_def advance_cursor_def)

lemma kbd_delete [simp]:
  fixes s :: "'a kbd_scheme"
  shows "key_buf (deletec_step s) = key_buf s" "key_buf_index (deletec_step s) = key_buf_index s"
    "enter_flag (deletec_step s) = enter_flag s" "dict (deletec_step s) = dict s"
    "ctrl_mode (deletec_step s) = ctrl_mode s" "caps_mode (deletec_step s) = caps_mode s"
    "shift_mode (deletec_step s) = shift_mode s"
  by (simp_all add: deletec_step_def set_screen_def set_cursor_pos_def outw_def Let_def)

lemma kbd_ports [simp]:
  fixes s :: "'a kbd_scheme"
  shows "key_buf (send_eoi n s) = key_buf s" "key_buf_index (send_eoi n s) = key_buf_index s"
    "enter_flag (send_eoi n s) = enter_flag s" "dict (send_eoi n s) = dict s"
    "ctrl_mode (send_eoi n s) = ctrl_mode s" "caps_mode (send_eoi n s) = caps_mode s"
    "shift_mode (send_eoi n s) = shift_mode s" "screen_x (send_eoi n s) = screen_x s" "screen_y (send_eoi n s) = screen_y s"
    "key_buf (sti s) = key_buf s" "key_buf_index (sti s) = key_buf_index s"
    "enter_flag (sti s) = enter_flag s" "dict (sti s) = dict s"
    "ctrl_mode (sti s) = ctrl_mode s" "caps_mode (sti s) = caps_mode s"
    "shift_mode (sti s) = shift_mode s" "screen_x (sti s) = screen_x s" "screen_y (sti s) = screen_y s"
    "key_buf (cli s) = key_buf s" "key_buf_index (cli s) = key_buf_index s" "enter_flag (cli s) = enter_flag s"
    "screen_x (cli s) = screen_x s" "screen_y (cli s) = screen_y s"
  by (simp_all add: send_eoi_def outb_def sti_def cli_def)

lemma same_view:
  fixes s :: "'a kbd_scheme"
  shows "abs_editor (sti (send_eoi n s)) = abs_editor s" "kbd_inv (sti (send_eoi n s)) = kbd_inv s"
  by (simp_all add: abs_editor_def kbd_inv_def key_line_def cursor_ok_def)

section \<open>Adding and deleting a symbol\<close>

lemma putc_terminal_position:
  assumes "cursor_ok s" "c \<noteq> 9" "n < 128" "n \<le> 80 * screen_y s + screen_x s"
  shows "n + 1 \<le> 80 * screen_y (putc_terminal c s) + screen_x (putc_terminal c s)"
proof -
  define t where "t = abs_screen (putc_terminal c s)"
  have t: "t = term_put c (abs_screen s)" and ok: "cursor_ok (putc_terminal c s)"
    unfolding t_def using putc_terminal_refines [OF assms(1,2)] by simp_all
  have "80 * int (cur_y t) + int (cur_x t) = 80 * screen_y (putc_terminal c s) + screen_x (putc_terminal c s)"
    using ok by (simp add: t_def abs_screen_def cursor_ok_def)
  moreover have "n + 1 \<le> 80 * int (cur_y t) + int (cur_x t)"
    unfolding t using assms(1,3,4) by (auto simp: term_put_def term_scroll_def abs_screen_def cursor_ok_def Let_def)
  ultimately show ?thesis by simp
qed

lemma key_region:
  assumes "separate kb 129 VIDEO 4000" "i < 129"
  shows "outside_screen (kb + of_nat i)"
  using separateD [OF assms(1), of "kb + of_nat i"] assms(2) by (simp add: in_region_offset)

lemma add_symbol:
  fixes s :: "'a kbd_scheme"
  assumes inv: "kbd_inv s" and c: "c \<noteq> 9" and room: "key_buf_index s < 128"
  defines "s' \<equiv> add_to_buffer c (putc_terminal c s)"
  shows "kbd_inv s'" "abs_editor s' = (abs_editor s)\<lparr>ed_line := key_line s @ [c]\<rparr>"
proof -
  define n where "n = nat (key_buf_index s)"
  have n: "key_buf_index s = int n" "n < 128" using inv room by (simp_all add: n_def kbd_inv_def)
  have cur: "cursor_ok s" "separate (key_buf s) 129 VIDEO 4000" using inv by (simp_all add: kbd_inv_def)
  have same: "mem (putc_terminal c s) (key_buf s + of_nat i) = mem s (key_buf s + of_nat i)" if "i < 129" for i
    using putc_terminal_outside [OF cur(1) key_region [OF cur(2) that]] .
  have s': "s' = (putc_terminal c s)\<lparr>mem := (mem (putc_terminal c s))(key_buf s + of_nat n := c), key_buf_index := int n + 1\<rparr>"
    using n by (simp add: s'_def add_to_buffer_def KEY_BUF_SIZE_def)
  have ne: "key_buf s + of_nat i \<noteq> key_buf s + of_nat n" if "i < n" for i
  proof -
    have "unat (of_nat i :: addr) \<noteq> unat (of_nat n :: addr)" using that n by (simp add: unat_of_nat_addr)
    then show ?thesis by auto
  qed
  have nn: "nat (int n + 1) = Suc n" by simp
  have "bytes_at (mem s') (key_buf s) n = key_line s"
    using same n ne by (auto simp: s' key_line_def bytes_at_def)
  then have line: "key_line s' = key_line s @ [c]"
    using nn by (simp add: key_line_def bytes_at_Suc s')
  show "abs_editor s' = (abs_editor s)\<lparr>ed_line := key_line s @ [c]\<rparr>"
    using line by (simp add: abs_editor_def) (simp add: s')
  have "int n + 1 \<le> 80 * screen_y (putc_terminal c s) + screen_x (putc_terminal c s)"
    using putc_terminal_position [OF cur(1) c, of "int n"] inv n by (simp add: kbd_inv_def)
  then show "kbd_inv s'"
    using inv line c n putc_terminal_refines(2) [OF cur(1) c] by (simp add: kbd_inv_def) (simp add: s' cursor_ok_def)
qed

lemma deletec_position:
  assumes "cursor_ok s" "0 < 80 * screen_y s + screen_x s"
  shows "80 * screen_y (deletec_step s) + screen_x (deletec_step s) = 80 * screen_y s + screen_x s - 1"
  using assms by (auto simp: deletec_step_def cursor_ok_def console_consts)

lemma butlast_bytes_at: "butlast (bytes_at m a n) = bytes_at m a (n - 1)"
  by (cases n) (simp_all add: bytes_at_Suc)

lemma delete_symbol:
  fixes s :: "'a kbd_scheme"
  assumes inv: "kbd_inv s"
  shows "kbd_inv (backspace s)" "abs_editor (backspace s) = (abs_editor s)\<lparr>ed_line := butlast (key_line s)\<rparr>"
proof -
  define n where "n = nat (key_buf_index s)"
  have n: "key_buf_index s = int n" "n \<le> 128" using inv by (auto simp: n_def kbd_inv_def)
  have cur: "cursor_ok s" "separate (key_buf s) 129 VIDEO 4000" "int n \<le> 80 * screen_y s + screen_x s"
    using inv n by (simp_all add: kbd_inv_def)
  have "kbd_inv (backspace s) \<and> abs_editor (backspace s) = (abs_editor s)\<lparr>ed_line := butlast (key_line s)\<rparr>"
  proof (cases "n = 0")
    case True
    then have "backspace s = s" "key_line s = []" using n by (simp_all add: backspace_def key_line_def)
    with inv show ?thesis by (simp add: abs_editor_def)
  next
    case False
    define c where "c = mem s (key_buf s + of_nat (n - 1))"
    have last: "n - 1 < length (key_line s)" using False n by (simp add: key_line_def)
    have "c = key_line s ! (n - 1)" using False n by (simp add: c_def key_line_def)
    then have "c \<in> set (key_line s)" using nth_mem [OF last] by simp
    then have c: "c \<noteq> 9" using inv by (auto simp: kbd_inv_def)
    have idx: "mem s (key_buf s + (of_nat n - 1)) = c" using False by (simp add: c_def of_nat_diff)
    have del: "deletec_terminal c s = deletec_step s" using c by (simp add: deletec_terminal_def)
    have b: "backspace s = (deletec_step s)\<lparr>mem := (mem (deletec_step s))(key_buf s + of_nat n := 0), key_buf_index := int n - 1\<rparr>"
      using False n by (simp add: backspace_def Let_def idx del)
    have pos: "0 < screen_x s \<or> 0 < screen_y s" using cur False by (auto simp: cursor_ok_def)
    have same: "mem (deletec_step s) (key_buf s + of_nat i) = mem s (key_buf s + of_nat i)" if "i < 129" for i
      using deletec_step_outside(1) [OF cur(1) pos key_region [OF cur(2) that]] .
    have ok: "cursor_ok (deletec_step s)"
      using deletec_step_outside(2) [OF cur(1) pos key_region [OF cur(2), of 0]] by simp
    have ne: "key_buf s + of_nat i \<noteq> key_buf s + of_nat n" if "i < n - 1" for i
    proof -
      have "unat (of_nat i :: addr) \<noteq> unat (of_nat n :: addr)" using that n by (simp add: unat_of_nat_addr)
      then show ?thesis by auto
    qed
    have nn: "nat (int n - 1) = n - 1" by simp
    have line: "key_line (backspace s) = butlast (key_line s)"
      using same ne n by (simp add: key_line_def b nn butlast_bytes_at) (auto simp: bytes_at_def)
    have "9 \<notin> set (butlast (key_line s))" using inv by (auto simp: kbd_inv_def dest: in_set_butlastD)
    moreover have "int n - 1 \<le> 80 * screen_y (deletec_step s) + screen_x (deletec_step s)"
      using deletec_position [OF cur(1)] cur(3) False by simp
    ultimately have "kbd_inv (backspace s)"
      using inv line ok False n by (simp add: kbd_inv_def) (simp add: b cursor_ok_def)
    moreover have "abs_editor (backspace s) = (abs_editor s)\<lparr>ed_line := butlast (key_line s)\<rparr>"
      using line by (simp add: abs_editor_def) (simp add: b)
    ultimately show ?thesis by blast
  qed
  then show "kbd_inv (backspace s)" "abs_editor (backspace s) = (abs_editor s)\<lparr>ed_line := butlast (key_line s)\<rparr>" by blast+
qed

section \<open>The handler refines the editor\<close>

lemmas scancodes = LSHIFT_PRESSED_def LSHIFT_RELEASED_def RSHIFT_PRESSED_def RSHIFT_RELEASED_def
  CTRL_PRESSED_def CTRL_RELEASED_def CAPS_PRESSED_def

text \<open>The state in which the handler has read the scancode \<open>c\<close> and reset its flags.\<close>

definition key_entry :: "byte \<Rightarrow> 'a kbd_scheme \<Rightarrow> 'a kbd_scheme" where
  "key_entry c s = (snd (inb KEY_PORT (cli (s\<lparr>device := (\<lambda>l p. if p = KEY_PORT then c else device s l p)\<rparr>))))
     \<lparr>enter_flag := 0, mode_flag := 0\<rparr>"

lemma key_entry_view:
  "abs_editor (key_entry c s) = (abs_editor s)\<lparr>ed_enter := False\<rparr>" "kbd_inv (key_entry c s) = kbd_inv s"
  "dict (key_entry c s) = dict s" "mode_flag (key_entry c s) = 0" "key_line (key_entry c s) = key_line s"
  by (simp_all add: key_entry_def inb_def cli_def Let_def abs_editor_def kbd_inv_def key_line_def cursor_ok_def)

lemma run_key_irq:
  "run_irq (Key_irq c) s =
     (let s2 = key_dict (key_modes c (key_entry c s));
          s3 = (if 0x80 \<le> c \<or> mode_flag s2 \<noteq> 0 then sti (send_eoi 1 s2)
                else if key_symbol (dict s) c = 8 then backspace s2
                else process_to_buffer c (if key_symbol (dict s) c = 10 then s2\<lparr>enter_flag := 1\<rparr> else s2))
      in sti (send_eoi 1 s3))"
proof -
  have "dict (snd (inb KEY_PORT (cli (s\<lparr>device := d\<rparr>)))) = dict s" for d
    by (simp add: inb_def cli_def Let_def)
  then show ?thesis by (simp add: run_irq_def key_handler_def key_entry_def split_beta Let_def)
qed

text \<open>A mode key only changes the modes, the flag and the layout that belongs to the modes.\<close>

lemma mode_keys_frame [simp]:
  "mem (shift_keys c t) = mem t" "key_buf (shift_keys c t) = key_buf t" "key_buf_index (shift_keys c t) = key_buf_index t"
  "enter_flag (shift_keys c t) = enter_flag t" "screen_x (shift_keys c t) = screen_x t" "screen_y (shift_keys c t) = screen_y t"
  "mem (caps_key c t) = mem t" "key_buf (caps_key c t) = key_buf t" "key_buf_index (caps_key c t) = key_buf_index t"
  "enter_flag (caps_key c t) = enter_flag t" "screen_x (caps_key c t) = screen_x t" "screen_y (caps_key c t) = screen_y t"
  "mem (ctrl_keys c t) = mem t" "key_buf (ctrl_keys c t) = key_buf t" "key_buf_index (ctrl_keys c t) = key_buf_index t"
  "enter_flag (ctrl_keys c t) = enter_flag t" "screen_x (ctrl_keys c t) = screen_x t" "screen_y (ctrl_keys c t) = screen_y t"
  by (simp_all add: shift_keys_def caps_key_def ctrl_keys_def)

lemma mode_keys_modes [simp]:
  "ctrl_mode (shift_keys c t) = ctrl_mode t" "caps_mode (shift_keys c t) = caps_mode t"
  "ctrl_mode (caps_key c t) = ctrl_mode t" "shift_mode (caps_key c t) = shift_mode t"
  "caps_mode (ctrl_keys c t) = caps_mode t" "shift_mode (ctrl_keys c t) = shift_mode t"
  by (simp_all add: shift_keys_def caps_key_def ctrl_keys_def)

lemma key_modes_frame [simp]:
  fixes t :: "'a kbd_scheme"
  shows "mem (key_dict (key_modes c t)) = mem t" "key_buf (key_dict (key_modes c t)) = key_buf t"
    "key_buf_index (key_dict (key_modes c t)) = key_buf_index t" "enter_flag (key_dict (key_modes c t)) = enter_flag t"
    "screen_x (key_dict (key_modes c t)) = screen_x t" "screen_y (key_dict (key_modes c t)) = screen_y t"
    "key_line (key_dict (key_modes c t)) = key_line t" "cursor_ok (key_dict (key_modes c t)) = cursor_ok t"
  by (simp_all add: key_dict_def key_modes_def key_line_def cursor_ok_def)

lemma key_dict_layout:
  assumes "caps_mode t = 0 \<or> caps_mode t = -1" "shift_mode t = 0 \<or> shift_mode t = 1"
  shows "dict (key_dict t) = key_layout (shift_mode t \<noteq> 0) (caps_mode t \<noteq> 0)"
  using assms by (auto simp: key_dict_def key_layout_def)

lemma key_dict_frame [simp]:
  "caps_mode (key_dict t) = caps_mode t" "shift_mode (key_dict t) = shift_mode t"
  "ctrl_mode (key_dict t) = ctrl_mode t" "mode_flag (key_dict t) = mode_flag t"
  by (simp_all add: key_dict_def)

lemma key_modes_values:
  "shift_mode (key_modes c t) = (if c = 0x2A \<or> c = 0x36 then 1 else if c = 0xAA \<or> c = 0xB6 then 0 else shift_mode t)"
  "caps_mode (key_modes c t) = (if c = 0x3A then NOT (caps_mode t) else caps_mode t)"
  "c \<noteq> 0x1D \<Longrightarrow> ctrl_mode t = 0 \<Longrightarrow> ctrl_mode (key_modes c t) = 0"
  "c \<in> {0x2A, 0x36, 0xAA, 0xB6, 0x3A} \<Longrightarrow> mode_flag (key_modes c t) = 1"
  by (auto simp: key_modes_def shift_keys_def caps_key_def ctrl_keys_def scancodes)

lemma key_modes_inv:
  assumes "kbd_inv t" "c \<noteq> 0x1D"
  shows "kbd_inv (key_dict (key_modes c t))"
proof -
  have m: "caps_mode (key_modes c t) = 0 \<or> caps_mode (key_modes c t) = -1"
    "shift_mode (key_modes c t) = 0 \<or> shift_mode (key_modes c t) = 1"
    using assms(1) by (auto simp: key_modes_values kbd_inv_def)
  moreover have "ctrl_mode (key_modes c t) = 0" using assms by (intro key_modes_values) (simp_all add: kbd_inv_def)
  ultimately show ?thesis using assms(1) key_dict_layout [OF m] by (simp add: kbd_inv_def)
qed

lemma key_mode_event:
  fixes s :: "'a kbd_scheme"
  assumes inv: "kbd_inv s" and c: "c \<in> {0x2A, 0x36, 0xAA, 0xB6, 0x3A}"
  shows "abs_editor (run_irq (Key_irq c) s) = edit_key c (abs_editor s)" "kbd_inv (run_irq (Key_irq c) s)"
proof -
  define t where "t = key_entry c s"
  have t: "kbd_inv t" "abs_editor t = (abs_editor s)\<lparr>ed_enter := False\<rparr>" using inv by (simp_all add: t_def key_entry_view)
  have run: "run_irq (Key_irq c) s = sti (send_eoi 1 (sti (send_eoi 1 (key_dict (key_modes c t)))))"
    using key_modes_values(4) [OF c, of t] by (simp add: run_key_irq t_def [symmetric] Let_def)
  have "c \<noteq> 0x1D" using c by auto
  then show "kbd_inv (run_irq (Key_irq c) s)" using key_modes_inv [OF t(1)] by (simp add: run same_view)
  have ca: "caps_mode t = 0 \<or> caps_mode t = -1" using t(1) by (auto simp: kbd_inv_def)
  have "abs_editor (key_dict (key_modes c t)) = (abs_editor t)\<lparr>
      ed_shift := (if c = 0x2A \<or> c = 0x36 then True else if c = 0xAA \<or> c = 0xB6 then False else ed_shift (abs_editor t)),
      ed_caps := (if c = 0x3A then \<not> ed_caps (abs_editor t) else ed_caps (abs_editor t))\<rparr>"
    using ca by (auto simp: abs_editor_def key_modes_values)
  also have "\<dots> = edit_key c (abs_editor s)"
    using c unfolding t(2) by (auto simp: edit_key_def)
  finally show "abs_editor (run_irq (Key_irq c) s) = edit_key c (abs_editor s)" by (simp add: run same_view)
qed

lemma key_plain_prefix:
  fixes s :: "'a kbd_scheme"
  assumes "kbd_inv s" "c \<notin> {0x2A, 0x36, 0xAA, 0xB6, 0x3A, 0x1D, 0x9D}"
  shows "key_dict (key_modes c (key_entry c s)) = key_entry c s"
proof -
  have "kbd_inv (key_entry c s)" using assms(1) by (simp add: key_entry_view)
  then have "key_dict (key_entry c s) = key_entry c s"
    by (auto simp: kbd_inv_def key_dict_def key_layout_def)
  moreover have "key_modes c (key_entry c s) = key_entry c s"
    using assms(2) by (simp add: key_modes_def shift_keys_def caps_key_def ctrl_keys_def scancodes)
  ultimately show ?thesis by simp
qed

lemma key_release_event:
  fixes s :: "'a kbd_scheme"
  assumes inv: "kbd_inv s" and c: "0x80 \<le> c" "c \<notin> {0xAA, 0xB6}"
  shows "abs_editor (run_irq (Key_irq c) s) = edit_key c (abs_editor s)" "kbd_inv (run_irq (Key_irq c) s)"
proof -
  define t where "t = key_dict (key_modes c (key_entry c s))"
  have ne: "c \<notin> {0x2A, 0x36, 0x3A, 0x1D}" using c(1) by auto
  have run: "run_irq (Key_irq c) s = sti (send_eoi 1 (sti (send_eoi 1 t)))"
    using c(1) by (simp add: run_key_irq t_def Let_def)
  have view: "abs_editor t = abs_editor (key_entry c s)"
    using c ne by (simp add: t_def abs_editor_def key_modes_values)
  have "kbd_inv t" unfolding t_def using inv ne by (intro key_modes_inv) (auto simp: key_entry_view)
  then show "kbd_inv (run_irq (Key_irq c) s)" by (simp add: run same_view)
  show "abs_editor (run_irq (Key_irq c) s) = edit_key c (abs_editor s)"
    using view c ne by (simp add: run same_view key_entry_view edit_key_def Let_def)
qed

lemma process_symbol:
  fixes t :: "'a kbd_scheme"
  assumes inv: "kbd_inv t" and symb: "y = key_symbol (dict t) c" "y \<noteq> 9"
  shows "kbd_inv (process_to_buffer c t)"
    "abs_editor (process_to_buffer c t) =
       (abs_editor t)\<lparr>ed_line := (if length (key_line t) < 128 then key_line t @ [y] else key_line t)\<rparr>"
proof -
  have i: "ctrl_mode t = 0" "0 \<le> key_buf_index t" "length (key_line t) < 128 \<longleftrightarrow> key_buf_index t < 128"
    using inv by (auto simp: kbd_inv_def key_line_def)
  have p: "process_to_buffer c t = (if key_buf_index t < 128 then add_to_buffer y (putc_terminal y t) else t)"
    using i(1) by (simp add: process_to_buffer_def symb Let_def KEY_BUF_SIZE_def)
  show "kbd_inv (process_to_buffer c t)" using add_symbol(1) [OF inv symb(2)] inv by (simp add: p)
  show "abs_editor (process_to_buffer c t) =
       (abs_editor t)\<lparr>ed_line := (if length (key_line t) < 128 then key_line t @ [y] else key_line t)\<rparr>"
    using add_symbol(2) [OF inv symb(2)] by (simp add: p i(3)) (simp add: abs_editor_def)
qed

lemma key_plain_event:
  fixes s :: "'a kbd_scheme"
  assumes inv: "kbd_inv s" and c: "c < 0x80" "c \<notin> {0x2A, 0x36, 0x3A, 0x1D, 0x0F}"
  shows "abs_editor (run_irq (Key_irq c) s) = edit_key c (abs_editor s) \<and> kbd_inv (run_irq (Key_irq c) s)"
proof -
  define t y where "t = key_entry c s" and "y = key_symbol (dict s) c"
  have t: "kbd_inv t" "abs_editor t = (abs_editor s)\<lparr>ed_enter := False\<rparr>" "dict t = dict s" "mode_flag t = 0"
    using inv by (simp_all add: t_def key_entry_view)
  have ne: "c \<notin> {0xAA, 0xB6, 0x9D}" "\<not> 0x80 \<le> c" using c(1) by auto
  have lay: "dict s = key_layout (ed_shift (abs_editor s)) (ed_caps (abs_editor s))"
    using inv by (simp add: kbd_inv_def abs_editor_def)
  then have "dict s < 3" by (simp add: key_layout_less)
  note sp = key_symbol_special [OF this c(1), folded y_def]
  have "key_dict (key_modes c t) = t" unfolding t_def using c ne by (intro key_plain_prefix [OF inv]) auto
  then have run: "run_irq (Key_irq c) s = sti (send_eoi 1 (if c = 0x0E then backspace t
      else process_to_buffer c (if y = 10 then t\<lparr>enter_flag := 1\<rparr> else t)))"
    using ne(2) t(4) sp(1) by (simp add: run_key_irq t_def [symmetric] y_def [symmetric] Let_def)
  have line: "key_line t = ed_line (abs_editor s)" using arg_cong [OF t(2), of ed_line] by (simp add: abs_editor_def)
  show ?thesis
  proof (cases "c = 0x0E")
    case True
    then show ?thesis unfolding run using delete_symbol [OF t(1)] t(2) line
      by (simp add: same_view edit_key_def Let_def)
  next
    case False
    define t' where "t' = (if y = 10 then t\<lparr>enter_flag := 1\<rparr> else t)"
    have t': "kbd_inv t'" "dict t' = dict s" "key_line t' = key_line t"
      "abs_editor t' = (abs_editor s)\<lparr>ed_enter := (y = 10)\<rparr>"
      using t by (auto simp: t'_def kbd_inv_def key_line_def cursor_ok_def abs_editor_def)
    have "y \<noteq> 9" using sp(2) c(2) by auto
    note ps = process_symbol [OF t'(1) _ this, of c, unfolded t'(2), OF y_def]
    have "edit_key c (abs_editor s) = (abs_editor t')\<lparr>ed_line := (if length (key_line t') < 128 then key_line t' @ [y] else key_line t')\<rparr>"
      using c ne False by (simp add: edit_key_def Let_def lay [symmetric] y_def [symmetric] t' line)
    then show ?thesis using ps False by (simp add: run t'_def [symmetric] same_view)
  qed
qed

lemma key_event_refines:
  fixes s :: "'a kbd_scheme"
  assumes "kbd_inv s" "c \<noteq> 0x1D" "c \<noteq> 0x0F"
  shows "abs_editor (run_irq (Key_irq c) s) = edit_key c (abs_editor s)" "kbd_inv (run_irq (Key_irq c) s)"
proof -
  consider "c \<in> {0x2A, 0x36, 0xAA, 0xB6, 0x3A}" | "0x80 \<le> c" "c \<notin> {0xAA, 0xB6}"
    | "c < 0x80" "c \<notin> {0x2A, 0x36, 0x3A, 0x1D, 0x0F}"
    using assms(2,3) by fastforce
  then have "abs_editor (run_irq (Key_irq c) s) = edit_key c (abs_editor s) \<and> kbd_inv (run_irq (Key_irq c) s)"
    using key_mode_event [OF assms(1)] key_release_event [OF assms(1)] key_plain_event [OF assms(1)] by cases blast+
  then show "abs_editor (run_irq (Key_irq c) s) = edit_key c (abs_editor s)" "kbd_inv (run_irq (Key_irq c) s)" by blast+
qed

text \<open>A clock interrupt does not touch the line.\<close>

lemma rtc_event_view:
  fixes s :: "'a kbd_scheme"
  shows "abs_editor (run_irq Rtc_irq s) = abs_editor s" "kbd_inv (run_irq Rtc_irq s) = kbd_inv s"
  by (simp_all add: run_irq_def rtc_handler_def same_view)
    (simp_all add: abs_editor_def kbd_inv_def key_line_def cursor_ok_def outb_def inb_def cli_def Let_def)

definition edit_irq :: "irq \<Rightarrow> editor \<Rightarrow> editor" where
  "edit_irq e = (case e of Rtc_irq \<Rightarrow> id | Key_irq c \<Rightarrow> edit_key c)"

definition line_irq :: "irq \<Rightarrow> bool" where
  "line_irq e \<longleftrightarrow> e \<noteq> Key_irq 0x1D \<and> e \<noteq> Key_irq 0x0F"

lemma irqs_refine:
  assumes "kbd_inv s" "list_all line_irq es"
  shows "abs_editor (fold run_irq es s) = fold edit_irq es (abs_editor s)" "kbd_inv (fold run_irq es s)"
proof -
  have "abs_editor (fold run_irq es s) = fold edit_irq es (abs_editor s) \<and> kbd_inv (fold run_irq es s)"
    using assms
  proof (induction es arbitrary: s)
    case (Cons e es)
    have "abs_editor (run_irq e s) = edit_irq e (abs_editor s) \<and> kbd_inv (run_irq e s)"
      using Cons.prems key_event_refines [of s] rtc_event_view [of s]
      by (cases e) (auto simp: edit_irq_def line_irq_def)
    with Cons show ?case by auto
  qed simp
  then show "abs_editor (fold run_irq es s) = fold edit_irq es (abs_editor s)" "kbd_inv (fold run_irq es s)" by blast+
qed

section \<open>Reading a line\<close>

fun edit_wait :: "irq list list \<Rightarrow> editor \<Rightarrow> editor option" where
  "edit_wait [] e = None"
| "edit_wait (b # bs) e = (let e' = fold edit_irq b e in if ed_enter e' then Some e' else edit_wait bs e')"

lemma terminal_wait_refines:
  assumes "kbd_inv s" "list_all (list_all line_irq) bursts"
  shows "case edit_wait bursts (abs_editor s) of
      None \<Rightarrow> terminal_wait run_irq bursts s = None
    | Some e \<Rightarrow> \<exists>s'. terminal_wait run_irq bursts s = Some s' \<and> abs_editor s' = e \<and> kbd_inv s'"
  using assms
proof (induction bursts arbitrary: s)
  case (Cons b bs)
  define s' where "s' = fold run_irq b s"
  have s': "abs_editor s' = fold edit_irq b (abs_editor s)" "kbd_inv s'"
    unfolding s'_def using irqs_refine [of s b] Cons.prems by simp_all
  then have en: "ed_enter (fold edit_irq b (abs_editor s)) \<longleftrightarrow> enter_flag s' = 1"
    by (simp flip: s'(1)) (simp add: abs_editor_def)
  show ?case
  proof (cases "enter_flag s' = 1")
    case True
    then show ?thesis using s' en by (simp add: s'_def [symmetric])
  next
    case False
    then have "terminal_wait run_irq (b # bs) s = terminal_wait run_irq bs s'" by (simp add: s'_def Let_def)
    moreover have "edit_wait (b # bs) (abs_editor s) = edit_wait bs (abs_editor s')"
      using False en by (simp add: s'(1) Let_def)
    moreover have "list_all (list_all line_irq) bs" using Cons.prems(2) by simp
    ultimately show ?thesis using Cons.IH [OF s'(2)] by (simp only:)
  qed
qed simp

lemma fold_zero_fill:
  "n < 4294967296 \<Longrightarrow> fold (\<lambda>i m. m(a + of_nat i := 0)) [0..<n] m = store_bytes m a (replicate n 0)"
proof (induction n)
  case (Suc n)
  then have "fold (\<lambda>i m. m(a + of_nat i := 0)) [0..<Suc n] m = (store_bytes m a (replicate n 0))(a + of_nat n := 0)"
    unfolding Suc.IH [OF Suc_lessD [OF Suc.prems], symmetric] by simp
  also have "\<dots> = store_bytes m a (replicate (Suc n) 0)"
    using store_bytes_snoc [of "replicate n 0" m a 0] Suc.prems by (simp add: replicate_append_same)
  finally show ?case .
qed simp

lemma clear_key_buffer_mem:
  "clear_key_buffer s = s\<lparr>mem := store_bytes (mem s) (key_buf s) (replicate 128 0), key_buf_index := 0\<rparr>"
  using fold_zero_fill [of 128 "key_buf s" "mem s"] by (simp add: clear_key_buffer_def KEY_BUF_SIZE_def)

lemma clear_key_buffer_view:
  "kbd_inv s \<Longrightarrow> kbd_inv (clear_key_buffer s)" "abs_editor (clear_key_buffer s) = (abs_editor s)\<lparr>ed_line := []\<rparr>"
  by (simp_all add: clear_key_buffer_mem kbd_inv_def abs_editor_def key_line_def cursor_ok_def)

lemma copy_keys_eq:
  assumes n: "n \<le> 128" and sep: "separate buf 128 kb 129"
  shows "i \<le> n \<Longrightarrow> copy_keys kb buf (of_nat n) (of_nat i) (store_bytes m buf (bytes_at m kb i)) =
     (store_bytes m buf (bytes_at m kb n), of_nat n)"
proof (induction "n - i" arbitrary: i)
  case 0
  then have "i = n" by simp
  then show ?case by (subst copy_keys.simps) simp
next
  case (Suc k)
  then have i: "i < n" by simp
  then have lt: "(of_nat i :: u32) < of_nat n" using n by (simp add: word_less_nat_alt unat_of_nat_addr)
  have "in_region kb 129 (kb + of_nat i)" using i n by (simp add: in_region_offset)
  moreover have "separate buf (length (bytes_at m kb i)) kb 129"
    using separate_sub [OF sep, of 0 i 0 129] i n by simp
  ultimately have rd: "store_bytes m buf (bytes_at m kb i) (kb + of_nat i) = m (kb + of_nat i)"
    by (metis store_bytes_other)
  have "(store_bytes m buf (bytes_at m kb i))(buf + of_nat i := m (kb + of_nat i)) = store_bytes m buf (bytes_at m kb (Suc i))"
    using store_bytes_snoc [of "bytes_at m kb i" m buf "m (kb + of_nat i)"] i n by (simp add: bytes_at_Suc)
  then have "copy_keys kb buf (of_nat n) (of_nat i) (store_bytes m buf (bytes_at m kb i)) =
      copy_keys kb buf (of_nat n) (of_nat (Suc i)) (store_bytes m buf (bytes_at m kb (Suc i)))"
    using lt rd by (subst copy_keys.simps) (simp add: add.commute)
  also have "\<dots> = (store_bytes m buf (bytes_at m kb n), of_nat n)"
    using Suc.hyps i by (intro Suc.hyps(1)) auto
  finally show ?case .
qed

lemma console_keeps_drivers [simp]:
  fixes s :: "'a kbd_scheme"
  shows "key_buf (set_screen x y s) = key_buf s" "key_buf_index (set_screen x y s) = key_buf_index s"
    "key_buf (clear s) = key_buf s" "key_buf_index (clear s) = key_buf_index s"
    "rtc_interrupt (clear s) = rtc_interrupt s" "rtc_interrupt (set_screen x y s) = rtc_interrupt s"
    "rtc_interrupt (putc_terminal c s) = rtc_interrupt s"
  by (simp_all add: clear_def set_screen_def set_cursor_pos_def outw_def Let_def putc_terminal_def
      vertical_scroll_def store_cell_def advance_cursor_def)

lemma delete_keeps_drivers [simp]:
  fixes s :: "'a kbd_scheme"
  shows "key_buf (deletec_terminal c s) = key_buf s" "key_buf_index (deletec_terminal c s) = key_buf_index s"
    "rtc_interrupt (deletec_terminal c s) = rtc_interrupt s"
proof -
  have step: "rtc_interrupt (deletec_step s) = rtc_interrupt s" for s :: "'a kbd_scheme" by (simp add: deletec_step_def)
  have "key_buf ((deletec_step ^^ n) s) = key_buf s \<and> key_buf_index ((deletec_step ^^ n) s) = key_buf_index s \<and>
      rtc_interrupt ((deletec_step ^^ n) s) = rtc_interrupt s" for n
    by (induction n) (simp_all add: step)
  then show "key_buf (deletec_terminal c s) = key_buf s" "key_buf_index (deletec_terminal c s) = key_buf_index s"
    "rtc_interrupt (deletec_terminal c s) = rtc_interrupt s" by (simp_all add: deletec_terminal_def)
qed

lemma ports_keep_drivers [simp]:
  fixes s :: "'a kbd_scheme"
  shows "key_buf (outb d p s) = key_buf s" "key_buf (snd (inb q s)) = key_buf s"
    "key_buf_index (outb d p s) = key_buf_index s" "key_buf_index (snd (inb q s)) = key_buf_index s"
    "rtc_interrupt (outb d p s) = rtc_interrupt s" "rtc_interrupt (snd (inb q s)) = rtc_interrupt s"
    "rtc_interrupt (send_eoi n s) = rtc_interrupt s" "rtc_interrupt (key_dict (key_modes c s)) = rtc_interrupt s"
  by (simp_all add: outb_def inb_def send_eoi_def Let_def key_dict_def key_modes_def shift_keys_def caps_key_def ctrl_keys_def)

lemma fold_irq_key_buf:
  fixes s :: "'a kbd_scheme"
  shows "key_buf (run_irq e s) = key_buf s"
  by (cases e) (simp_all add: run_irq_def key_handler_def rtc_handler_def split_beta Let_def backspace_def
    process_to_buffer_def add_to_buffer_def)

lemma irq_index_bound:
  fixes s :: "'a kbd_scheme"
  assumes "0 \<le> key_buf_index s" "key_buf_index s \<le> 128"
  shows "0 \<le> key_buf_index (run_irq e s) \<and> key_buf_index (run_irq e s) \<le> 128"
  using assms
  by (cases e) (simp_all add: run_irq_def key_handler_def rtc_handler_def split_beta Let_def backspace_def
    process_to_buffer_def add_to_buffer_def KEY_BUF_SIZE_def)

lemma irq_rtc_interrupt:
  fixes s :: "'a kbd_scheme"
  shows "rtc_interrupt (run_irq e s) = (if e = Rtc_irq then 1 else rtc_interrupt s)"
  by (cases e) (simp_all add: run_irq_def key_handler_def rtc_handler_def split_beta Let_def backspace_def
    process_to_buffer_def add_to_buffer_def)

lemma terminal_read_line:
  fixes s :: "'a kbd_scheme"
  assumes inv: "kbd_inv s" and irqs: "list_all (list_all line_irq) bursts" and sep: "separate buf 128 (key_buf s) 129"
    and e: "edit_wait bursts ((abs_editor s)\<lparr>ed_line := []\<rparr>) = Some e"
  obtains s' where "terminal_read run_irq bursts 0 buf n s = Some (int (length (ed_line e)), s')"
    "bytes_at (mem s') buf (length (ed_line e)) = ed_line e" "length (ed_line e) \<le> 128"
    "kbd_inv s'" "abs_editor s' = e\<lparr>ed_line := [], ed_enter := False\<rparr>"
proof -
  have kb: "key_buf t' = key_buf t" if "terminal_wait run_irq bs t = Some t'" for bs and t t' :: "'a kbd_scheme"
  proof -
    have "key_buf (fold run_irq b t) = key_buf t" for b t by (induction b arbitrary: t) (simp_all add: fold_irq_key_buf)
    then show ?thesis using that by (induction bs arbitrary: t) (auto simp: Let_def split: if_splits)
  qed
  obtain s1 where s1: "terminal_wait run_irq bursts (clear_key_buffer s) = Some s1" "abs_editor s1 = e" "kbd_inv s1"
    using terminal_wait_refines [OF clear_key_buffer_view(1) [OF inv] irqs] e by (auto simp: clear_key_buffer_view)
  have "key_buf s1 = key_buf s" using kb [OF s1(1)] by (simp add: clear_key_buffer_mem)
  then have sep1: "separate buf 128 (key_buf s1) 129" using sep by simp
  define k where "k = nat (key_buf_index s1)"
  have k: "key_buf_index s1 = int k" "k \<le> 128" using s1(3) by (auto simp: k_def kbd_inv_def)
  have line: "ed_line e = bytes_at (mem s1) (key_buf s1) k" using s1(2) k by (auto simp: abs_editor_def key_line_def)
  define t where "t = s1\<lparr>mem := store_bytes (mem s1) buf (ed_line e), enter_flag := 0\<rparr>"
  have "copy_keys (key_buf s1) buf (of_nat k) 0 (mem s1) = (store_bytes (mem s1) buf (ed_line e), of_nat k)"
    using copy_keys_eq [OF k(2) sep1, of 0 "mem s1"] by (simp add: line)
  then have res: "terminal_read run_irq bursts 0 buf n s = Some (int (length (ed_line e)), clear_key_buffer t)"
    using s1(1) k by (simp add: terminal_read_def STDIN_def t_def line sint_of_nat_u32)
  have len: "length (ed_line e) = k" by (simp add: line)
  have "separate (key_buf s1) (length (replicate 128 0 :: byte list)) buf k"
    using separate_sub [OF sep1, of 0 k 0 128] k(2) by (simp add: separate_sym)
  then have "bytes_at (mem (clear_key_buffer t)) buf k = bytes_at (store_bytes (mem s1) buf (ed_line e)) buf k"
    unfolding clear_key_buffer_mem t_def using k(2) by (simp add: bytes_at_store_bytes_other)
  also have "\<dots> = ed_line e" using bytes_at_store_bytes [of "ed_line e" "mem s1" buf] k(2) len by simp
  finally have b: "bytes_at (mem (clear_key_buffer t)) buf (length (ed_line e)) = ed_line e" by (simp add: len)
  have "kbd_inv (clear_key_buffer t)"
    using s1(3) by (simp add: clear_key_buffer_mem t_def kbd_inv_def key_line_def cursor_ok_def)
  moreover have "abs_editor (clear_key_buffer t) = e\<lparr>ed_line := [], ed_enter := False\<rparr>"
    unfolding s1(2) [symmetric] by (simp add: clear_key_buffer_mem t_def abs_editor_def key_line_def)
  ultimately show thesis using that res b len k(2) by simp
qed

section \<open>Writing\<close>

lemma write_loop_prints:
  fixes s :: "'a kbd_scheme"
  assumes sep: "separate buf n VIDEO 4000" and n: "n < 4294967296"
  shows "i \<le> n \<Longrightarrow> cursor_ok s \<Longrightarrow> 9 \<notin> set (bytes_at (mem s) buf n) \<Longrightarrow>
    write_loop buf (int n) (int i) s = (int n, fold putc_terminal (bytes_at (mem s) (buf + of_nat i) (n - i)) s)"
proof (induction "n - i" arbitrary: i s)
  case 0
  then show ?case by (subst write_loop.simps) simp
next
  case (Suc k)
  then have i: "i < n" by simp
  define c s1 where "c = mem s (buf + of_nat i)" and "s1 = putc_terminal c s"
  have "c \<in> set (bytes_at (mem s) buf n)" using i by (auto simp: c_def bytes_at_def)
  then have c: "c \<noteq> 9" using Suc.prems(3) by auto
  have out: "outside_screen (buf + of_nat j)" if "j < n" for j
    using separateD [OF sep, of "buf + of_nat j"] that n by (simp add: in_region_offset)
  have same: "bytes_at (mem s1) buf n = bytes_at (mem s) buf n"
    unfolding s1_def using putc_terminal_outside [OF Suc.prems(2) out] by (simp add: bytes_at_def)
  then have rest: "bytes_at (mem s1) (buf + of_nat (Suc i)) (n - Suc i) = bytes_at (mem s) (buf + of_nat (Suc i)) (n - Suc i)"
    by (metis drop_bytes_at)
  have ok: "cursor_ok s1" unfolding s1_def using putc_terminal_refines(2) [OF Suc.prems(2) c] .
  have "write_loop buf (int n) (int i) s = write_loop buf (int n) (int (Suc i)) s1"
    using i by (subst write_loop.simps) (simp add: c_def s1_def add.commute)
  also have "\<dots> = (int n, fold putc_terminal (bytes_at (mem s) (buf + of_nat (Suc i)) (n - Suc i)) s1)"
    using Suc.hyps(1) [of "Suc i" s1] Suc.hyps(2) Suc.prems(3) i ok rest same by simp
  also have "\<dots> = (int n, fold putc_terminal (bytes_at (mem s) (buf + of_nat i) (n - i)) s)"
    using i by (simp add: Suc_diff_Suc [symmetric] bytes_at_Suc' c_def [symmetric] s1_def add_ac)
  finally show ?case .
qed

section \<open>Properties\<close>


definition quiet_pcb :: pcb where
  "quiet_pcb = \<lparr>file_array = replicate 8 \<lparr>file_op_ptr = None, inode = 0, file_pos = 0, flags = 0\<rparr>, old_pcb_ptr = 0,
     input = [], old_phys_addr = 0, old_esp0 = 0, old_ebp = 0\<rparr>"

definition quiet_kbd :: kbd where
  "quiet_kbd = \<lparr>mem = (\<lambda>a. if a = 0x300000 then 72 else if a = 0x300001 then 105 else 0), port_log = [], device = \<lambda>_ _. 0,
     if_flag = True, master_mask = 0xFF, slave_mask = 0xFF, screen_x = 10, screen_y = 24,
     cur_pcb = 0x7FE000, pcb_heap = \<lambda>_. quiet_pcb,
     filesys_ptr = 0x100000, bblk = \<lparr>n_dir_entries = 0, bb_N = 0, bb_D = 0, bb_reserved = 0\<rparr>,
     open_dentry = 0x210000, read_dentry = 0x211000, filename_buf = 0x212000, rtc_interrupt = 0,
     key_buf = 0x213000, key_buf_index = 0, enter_flag = 0, dict = 0, ctrl_mode = 0, caps_mode = 0, shift_mode = 0,
     mode_flag = 0\<rparr>"

definition quiet_editor :: editor where
  "quiet_editor = \<lparr>ed_shift = False, ed_caps = False, ed_line = [], ed_enter = False\<rparr>"

lemma quiet_kbd_inv: "kbd_inv quiet_kbd" "abs_editor quiet_kbd = quiet_editor"
  by (simp_all add: kbd_inv_def quiet_kbd_def cursor_ok_def key_layout_def separate_def VIDEO_def key_line_def
      abs_editor_def quiet_editor_def)

lemma typed_line:
  "fold edit_irq [Key_irq 0x2A, Key_irq 0x23, Key_irq 0xAA, Rtc_irq, Key_irq 0x18, Key_irq 0x0E, Key_irq 0x17, Key_irq 0x97]
     quiet_editor = quiet_editor\<lparr>ed_line := [72, 105]\<rparr>"
  by code_simp



lemma typed_enter:
  "edit_wait [[], [Key_irq 0x23, Rtc_irq], [Key_irq 0x17, Key_irq 0x1C], []] quiet_editor =
     Some (quiet_editor\<lparr>ed_line := [104, 105, 10], ed_enter := True\<rparr>)"
  by code_simp


text \<open>
  C20. \<open>terminal_write\<close> on descriptor 1 returns the number of bytes asked for and does on the screen what the
  abstract terminal does with the bytes of the buffer, in order. It writes nothing outside the screen
  and leaves interrupts enabled. The buffer lies apart from the screen and holds no tab.
\<close>

theorem terminal_write_prints:
  assumes "cursor_ok s" "separate buf n VIDEO 4000" "n < 4294967296" "9 \<notin> set (bytes_at (mem s) buf n)"
  shows "\<exists>s'. terminal_write 1 buf (int n) s = Some (int n, s') \<and>
     abs_screen s' = fold term_put (bytes_at (mem s) buf n) (abs_screen s) \<and>
     cursor_ok s' \<and> if_flag s' \<and> frame_out [(VIDEO, 4000)] (mem s) (mem s')"
proof -
  define t where "t = fold putc_terminal (bytes_at (mem s) buf n) (cli s)"
  have ok: "cursor_ok (cli s)" "abs_screen (cli s) = abs_screen s"
    using assms(1) by (simp_all add: cursor_ok_def abs_screen_def)
  have w: "terminal_write 1 buf (int n) s = Some (int n, sti t)"
    using write_loop_prints [OF assms(2,3), of 0 "cli s"] ok(1) assms(4) by (simp add: terminal_write_def STDOUT_def t_def)
  have "abs_screen (sti t) = abs_screen t" "cursor_ok (sti t) = cursor_ok t"
    by (simp_all add: cursor_ok_def abs_screen_def)
  then show ?thesis
    using w fold_putc_terminal_refines [OF ok(1) assms(4)] fold_putc_outside [OF ok(1) assms(4)]
    by (simp add: t_def [symmetric] ok(2) frame_out_def)
qed

theorem terminal_write_prints_witness:
  "\<exists>s'. terminal_write 1 0x300000 2 quiet_kbd = Some (2, s') \<and>
     abs_screen s' = term_put 105 (term_put 72 (abs_screen quiet_kbd)) \<and> frame_out [(VIDEO, 4000)] (mem quiet_kbd) (mem s')"
  using terminal_write_prints [of quiet_kbd "0x300000" 2]
  by (auto simp: quiet_kbd_def cursor_ok_def separate_def VIDEO_def bytes_at_def upt_rec)

text \<open>
  C21. No sequence of interrupts moves \<open>key_buf_index\<close> out of the buffer: it stays between 0 and 128, control
  and tab keys included, and the buffer stays where it is.
\<close>

theorem key_buf_index_stays_in_range:
  assumes "0 \<le> key_buf_index s" "key_buf_index s \<le> 128"
  shows "0 \<le> key_buf_index (fold run_irq es s) \<and> key_buf_index (fold run_irq es s) \<le> 128 \<and>
     key_buf (fold run_irq es s) = key_buf s"
  using assms
proof (induction es arbitrary: s)
  case (Cons e es)
  then show ?case using irq_index_bound [of s e] fold_irq_key_buf [of e s] by simp
qed simp

theorem key_buf_index_stays_in_range_witness:
  "key_buf_index (fold run_irq (replicate 200 (Key_irq 0x0F)) quiet_kbd) \<le> 128"
  using key_buf_index_stays_in_range [of quiet_kbd "replicate 200 (Key_irq 0x0F)"] by (simp add: quiet_kbd_def)

text \<open>
  C22. \<open>rtc_read\<close> returns exactly when a clock interrupt is pending or arrives while it waits, whatever other
  interrupts come in between; it returns 0 and has consumed the tick.
\<close>

theorem rtc_read_waits_for_tick:
  fixes s :: "'a kbd_scheme"
  shows "if rtc_interrupt s = 0 \<and> Rtc_irq \<notin> set (concat bursts)
     then rtc_read run_irq bursts fd buf n s = None
     else \<exists>s'. rtc_read run_irq bursts fd buf n s = Some (0, s') \<and> rtc_interrupt s' = 0"
proof -
  have keep: "rtc_interrupt (run_irq e t) = (if e = Rtc_irq then 1 else rtc_interrupt t)" for e and t :: "'a kbd_scheme"
    by (rule irq_rtc_interrupt)
  note w = rtc_wait_returns [of run_irq "\<lambda>e. e = Rtc_irq", OF keep, of bursts s]
  show ?thesis
  proof (cases "rtc_wait run_irq bursts s")
    case None
    then have no: "rtc_interrupt s = 0 \<and> Rtc_irq \<notin> set (concat bursts)" using w(1) by auto
    show ?thesis unfolding if_P [OF no] by (simp add: rtc_read_def None)
  next
    case (Some s')
    then have yes: "\<not> (rtc_interrupt s = 0 \<and> Rtc_irq \<notin> set (concat bursts))" using w(1) by auto
    show ?thesis unfolding if_not_P [OF yes] using w(2) [OF Some] by (simp add: rtc_read_def Some)
  qed
qed

end
