(* ===== verification/Paging.thy ===== *)
theory Paging
  imports Keyboard
begin

text \<open>
  Paging, \<^verbatim>\<open>student-distrib/paging_c.c\<close> and \<^verbatim>\<open>paging.S\<close>: the bit fields of directory and table entries,
  the directory that \<open>init_paging\<close> builds, the control registers, and the lookups that the system
  calls use. \<open>page_walk\<close> is the translation the processor performs on such a directory; what the boot
  directory maps is stated with it.
\<close>

section \<open>Definitions\<close>

subsection \<open>Entries\<close>

text \<open>
  A bit field of \<open>w\<close> bits is a \<open>w\<close>-bit word: assigning to it drops the upper bits. \<open>pack\<close> lays the
  fields out from the least significant bit on, in the order of their declaration. The field names
  carry the name of their struct, since several structs share them.
\<close>

record pd_entry_smallPage =
  sp_present :: "1 word"
  sp_rw_enable :: "1 word"
  sp_user_super :: "1 word"
  sp_write_through :: "1 word"
  sp_cache_disabled :: "1 word"
  sp_accessed :: "1 word"
  sp_reserved :: "1 word"
  sp_page_size :: "1 word"
  sp_global_page :: "1 word"
  sp_available :: "3 word"
  sp_page_table_base_addr :: "20 word"

record pd_entry_bigPage =
  bp_present :: "1 word"
  bp_rw_enable :: "1 word"
  bp_user_super :: "1 word"
  bp_write_through :: "1 word"
  bp_cache_disabled :: "1 word"
  bp_accessed :: "1 word"
  bp_dirty :: "1 word"
  bp_page_size :: "1 word"
  bp_global_page :: "1 word"
  bp_available :: "3 word"
  bp_pat_idx :: "1 word"
  bp_reserved :: "9 word"
  bp_page_base_addr :: "10 word"

record pt_entry =
  pt_present :: "1 word"
  pt_rw_enable :: "1 word"
  pt_user_super :: "1 word"
  pt_write_through :: "1 word"
  pt_cache_disabled :: "1 word"
  pt_accessed :: "1 word"
  pt_dirty :: "1 word"
  pt_pat_idx :: "1 word"
  pt_global_page :: "1 word"
  pt_available :: "3 word"
  pt_page_base_addr :: "20 word"

definition pack_small :: "pd_entry_smallPage \<Rightarrow> u32" where
  "pack_small e = ucast (sp_present e) OR push_bit 1 (ucast (sp_rw_enable e)) OR push_bit 2 (ucast (sp_user_super e))
     OR push_bit 3 (ucast (sp_write_through e)) OR push_bit 4 (ucast (sp_cache_disabled e))
     OR push_bit 5 (ucast (sp_accessed e)) OR push_bit 6 (ucast (sp_reserved e)) OR push_bit 7 (ucast (sp_page_size e))
     OR push_bit 8 (ucast (sp_global_page e)) OR push_bit 9 (ucast (sp_available e))
     OR push_bit 12 (ucast (sp_page_table_base_addr e))"

definition unpack_small :: "u32 \<Rightarrow> pd_entry_smallPage" where
  "unpack_small w = \<lparr>sp_present = ucast w, sp_rw_enable = ucast (drop_bit 1 w), sp_user_super = ucast (drop_bit 2 w),
     sp_write_through = ucast (drop_bit 3 w), sp_cache_disabled = ucast (drop_bit 4 w), sp_accessed = ucast (drop_bit 5 w),
     sp_reserved = ucast (drop_bit 6 w), sp_page_size = ucast (drop_bit 7 w), sp_global_page = ucast (drop_bit 8 w),
     sp_available = ucast (drop_bit 9 w), sp_page_table_base_addr = ucast (drop_bit 12 w)\<rparr>"

definition pack_big :: "pd_entry_bigPage \<Rightarrow> u32" where
  "pack_big e = ucast (bp_present e) OR push_bit 1 (ucast (bp_rw_enable e)) OR push_bit 2 (ucast (bp_user_super e))
     OR push_bit 3 (ucast (bp_write_through e)) OR push_bit 4 (ucast (bp_cache_disabled e))
     OR push_bit 5 (ucast (bp_accessed e)) OR push_bit 6 (ucast (bp_dirty e)) OR push_bit 7 (ucast (bp_page_size e))
     OR push_bit 8 (ucast (bp_global_page e)) OR push_bit 9 (ucast (bp_available e)) OR push_bit 12 (ucast (bp_pat_idx e))
     OR push_bit 13 (ucast (bp_reserved e)) OR push_bit 22 (ucast (bp_page_base_addr e))"

definition unpack_big :: "u32 \<Rightarrow> pd_entry_bigPage" where
  "unpack_big w = \<lparr>bp_present = ucast w, bp_rw_enable = ucast (drop_bit 1 w), bp_user_super = ucast (drop_bit 2 w),
     bp_write_through = ucast (drop_bit 3 w), bp_cache_disabled = ucast (drop_bit 4 w), bp_accessed = ucast (drop_bit 5 w),
     bp_dirty = ucast (drop_bit 6 w), bp_page_size = ucast (drop_bit 7 w), bp_global_page = ucast (drop_bit 8 w),
     bp_available = ucast (drop_bit 9 w), bp_pat_idx = ucast (drop_bit 12 w), bp_reserved = ucast (drop_bit 13 w),
     bp_page_base_addr = ucast (drop_bit 22 w)\<rparr>"

definition pack_pt :: "pt_entry \<Rightarrow> u32" where
  "pack_pt e = ucast (pt_present e) OR push_bit 1 (ucast (pt_rw_enable e)) OR push_bit 2 (ucast (pt_user_super e))
     OR push_bit 3 (ucast (pt_write_through e)) OR push_bit 4 (ucast (pt_cache_disabled e))
     OR push_bit 5 (ucast (pt_accessed e)) OR push_bit 6 (ucast (pt_dirty e)) OR push_bit 7 (ucast (pt_pat_idx e))
     OR push_bit 8 (ucast (pt_global_page e)) OR push_bit 9 (ucast (pt_available e))
     OR push_bit 12 (ucast (pt_page_base_addr e))"

definition unpack_pt :: "u32 \<Rightarrow> pt_entry" where
  "unpack_pt w = \<lparr>pt_present = ucast w, pt_rw_enable = ucast (drop_bit 1 w), pt_user_super = ucast (drop_bit 2 w),
     pt_write_through = ucast (drop_bit 3 w), pt_cache_disabled = ucast (drop_bit 4 w), pt_accessed = ucast (drop_bit 5 w),
     pt_dirty = ucast (drop_bit 6 w), pt_pat_idx = ucast (drop_bit 7 w), pt_global_page = ucast (drop_bit 8 w),
     pt_available = ucast (drop_bit 9 w), pt_page_base_addr = ucast (drop_bit 12 w)\<rparr>"

definition FOUR_MB :: u32 where "FOUR_MB = 0x00400000"
definition EIGHT_KB :: u32 where "EIGHT_KB = 0x00002000"
definition EIGHT_MB :: u32 where "EIGHT_MB = 0x00800000"
definition VID_ADDR :: u32 where "VID_ADDR = 0x000B8000"
definition TWENTY_MSB :: u32 where "TWENTY_MSB = 0xFFFFF000"
definition KER_ADDR :: u32 where "KER_ADDR = FOUR_MB"
definition TEN_MSB :: u32 where "TEN_MSB = 0xFFC00000"
definition PRO_ADDR :: u32 where "PRO_ADDR = 32"
definition USER_VMEM :: u32 where "USER_VMEM = 33"

subsection \<open>State\<close>

text \<open>
  The static arrays \<open>page_directory\<close>, \<open>page_table_0\<close> and \<open>page_table_1\<close> are at the addresses the linker
  gave them; \<open>mem\<close> is the memory as the kernel addresses it. The only mapping that changes while the kernel
  runs is the 4 MB window of the user program at 128 MB. \<open>prog_frame\<close> is the physical 4 MB frame the
  processor currently shows there and \<open>frames\<close> holds the bytes of the frames that are not shown. Frames 0
  and 1 are also mapped elsewhere, which \<open>frames\<close> does not express; no program runs in them.
\<close>

record paging = kbd +
  page_directory :: addr
  page_table_0 :: addr
  page_table_1 :: addr
  cr0 :: u32
  cr3 :: u32
  cr4 :: u32
  prog_frame :: "10 word"
  frames :: "10 word \<Rightarrow> u32 \<Rightarrow> byte"

definition PROG_WINDOW :: addr where "PROG_WINDOW = 0x08000000"

definition switch_window :: "10 word \<Rightarrow> 'a paging_scheme \<Rightarrow> 'a paging_scheme" where
  "switch_window f s =
     (if f = prog_frame s then s
      else s\<lparr>frames := (frames s)(prog_frame s := (\<lambda>i. mem s (PROG_WINDOW + i))),
             mem := (\<lambda>a. if in_region PROG_WINDOW 0x400000 a then frames s f (a - PROG_WINDOW) else mem s a),
             prog_frame := f\<rparr>)"

subsection \<open>Control registers\<close>

definition ret_dir_ptr :: "'a paging_scheme \<Rightarrow> addr" where
  "ret_dir_ptr s = cr3 s AND 0xFFFFF000"

text \<open>
  When paging is on, a write to \<open>cr3\<close> makes the processor forget its translations, so the window follows
  the directory entry of the program page.
\<close>

definition flush_tlb :: "'a paging_scheme \<Rightarrow> 'a paging_scheme" where
  "flush_tlb s =
     (if cr0 s AND 0x80000000 = 0 then s
      else switch_window (bp_page_base_addr (unpack_big (load32 (mem s) (ret_dir_ptr s + 4 * PRO_ADDR)))) s)"

definition lpdt :: "addr \<Rightarrow> 'a paging_scheme \<Rightarrow> 'a paging_scheme" where
  "lpdt page_dir s = flush_tlb (s\<lparr>cr3 := (page_dir AND 0xFFFFF000) OR (cr3 s AND 0x00000FFF)\<rparr>)"

definition enablePaging :: "'a paging_scheme \<Rightarrow> 'a paging_scheme" where
  "enablePaging s = flush_tlb (s\<lparr>cr0 := cr0 s OR 0x80000000\<rparr>)"

definition enablePSE :: "'a paging_scheme \<Rightarrow> 'a paging_scheme" where
  "enablePSE s = s\<lparr>cr4 := cr4 s OR 0x00000010\<rparr>"

definition enablePGE :: "'a paging_scheme \<Rightarrow> 'a paging_scheme" where
  "enablePGE s = s\<lparr>cr4 := cr4 s OR 0x00000080\<rparr>"

subsection \<open>Initialisation\<close>

definition set_entry :: "addr \<Rightarrow> u32 \<Rightarrow> u32 \<Rightarrow> memory \<Rightarrow> memory" where
  "set_entry table i v m = store32 m (table + 4 * i) v"

definition clear_table :: "addr \<Rightarrow> memory \<Rightarrow> memory" where
  "clear_table table m = fold (\<lambda>it. set_entry table (of_nat it) 0) [0..<1024] m"

definition video_entry :: "1 word \<Rightarrow> pt_entry" where
  "video_entry user = \<lparr>pt_present = 1, pt_rw_enable = 1, pt_user_super = user, pt_write_through = 0, pt_cache_disabled = 0,
     pt_accessed = 0, pt_dirty = 0, pt_pat_idx = 0, pt_global_page = 0, pt_available = 0,
     pt_page_base_addr = ucast (drop_bit 12 (TWENTY_MSB AND VID_ADDR))\<rparr>"

definition table_entry :: "1 word \<Rightarrow> addr \<Rightarrow> pd_entry_smallPage" where
  "table_entry user table = \<lparr>sp_present = 1, sp_rw_enable = 1, sp_user_super = user, sp_write_through = 0,
     sp_cache_disabled = 0, sp_accessed = 0, sp_reserved = 0, sp_page_size = 0, sp_global_page = 0, sp_available = 0,
     sp_page_table_base_addr = ucast (drop_bit 12 (TWENTY_MSB AND table))\<rparr>"

definition kernel_page :: pd_entry_bigPage where
  "kernel_page = \<lparr>bp_present = 1, bp_rw_enable = 1, bp_user_super = 0, bp_write_through = 0, bp_cache_disabled = 1,
     bp_accessed = 0, bp_dirty = 0, bp_page_size = 1, bp_global_page = 1, bp_available = 0, bp_pat_idx = 0,
     bp_reserved = 0, bp_page_base_addr = ucast (drop_bit 22 (TEN_MSB AND KER_ADDR))\<rparr>"

definition program_page :: pd_entry_bigPage where
  "program_page = \<lparr>bp_present = 1, bp_rw_enable = 1, bp_user_super = 1, bp_write_through = 0, bp_cache_disabled = 1,
     bp_accessed = 0, bp_dirty = 0, bp_page_size = 1, bp_global_page = 0, bp_available = 0, bp_pat_idx = 0,
     bp_reserved = 0, bp_page_base_addr = 0\<rparr>"

text \<open>The stores of \<open>init_paging\<close> in the order of the code; entry 0 is stored twice.\<close>

definition build_tables :: "addr \<Rightarrow> addr \<Rightarrow> addr \<Rightarrow> memory \<Rightarrow> memory" where
  "build_tables pd pt0 pt1 m =
     (let m1 = clear_table pt0 (clear_table pd m);
          m2 = set_entry pt0 (drop_bit 12 (TWENTY_MSB AND VID_ADDR)) (pack_pt (video_entry 0)) m1;
          m3 = set_entry pd 0 (pack_small (table_entry 0 pt0)) m2;
          m4 = set_entry pd 1 (pack_big kernel_page) m3;
          m5 = set_entry pd PRO_ADDR (pack_big program_page) m4;
          m6 = set_entry pt1 (drop_bit 12 (TWENTY_MSB AND VID_ADDR)) (pack_pt (video_entry 1)) m5;
          m7 = set_entry pd USER_VMEM (pack_small (table_entry 1 pt1)) m6
      in set_entry pd 0 (pack_small (table_entry 0 pt0)) m7)"

definition init_paging :: "'a paging_scheme \<Rightarrow> 'a paging_scheme" where
  "init_paging s =
     enablePaging (enablePGE (enablePSE (lpdt (page_directory s)
       (s\<lparr>mem := build_tables (page_directory s) (page_table_0 s) (page_table_1 s) (mem s)\<rparr>))))"

subsection \<open>Lookups\<close>

definition get_pageTable_entry :: "u32 \<Rightarrow> u32 \<Rightarrow> 'a paging_scheme \<Rightarrow> addr" where
  "get_pageTable_entry dir_idx table_idx s =
     (if 1024 \<le> dir_idx then NULL
      else if 1024 \<le> table_idx then NULL
      else let smallPage = unpack_small (load32 (mem s) (ret_dir_ptr s + 4 * dir_idx))
           in if sp_present smallPage AND 1 = 0 then NULL
              else let pt = push_bit 12 (ucast (sp_page_table_base_addr smallPage)) + 4 * table_idx
                   in if pt_present (unpack_pt (load32 (mem s) pt)) AND 1 = 0 then NULL else pt)"

definition get_bigPage :: "u32 \<Rightarrow> 'a paging_scheme \<Rightarrow> addr" where
  "get_bigPage dir_idx s =
     (if 1024 \<le> dir_idx then NULL
      else let bigPage = unpack_big (load32 (mem s) (ret_dir_ptr s + 4 * dir_idx))
           in if bp_present bigPage AND 1 = 0 then NULL else ret_dir_ptr s + 4 * dir_idx)"

text \<open>The assignment \<open>entry->page_base_addr = p\<close> through a pointer to a 4 MB entry.\<close>

definition set_page_base :: "addr \<Rightarrow> u32 \<Rightarrow> memory \<Rightarrow> memory" where
  "set_page_base entry p m = store32 m entry (pack_big ((unpack_big (load32 m entry))\<lparr>bp_page_base_addr := ucast p\<rparr>))"

section \<open>Bit fields\<close>

lemma bit_field_beyond: "LENGTH('a) \<le> n \<Longrightarrow> \<not> bit (w :: 'a :: len word) n"
  by (auto dest: bit_imp_le_length)

lemma bit_above: "bit (w :: 1 word) n \<Longrightarrow> n = 0" "bit (v :: 3 word) n \<Longrightarrow> n < 3" "bit (x :: 9 word) n \<Longrightarrow> n < 9"
  "bit (y :: 10 word) n \<Longrightarrow> n < 10" "bit (z :: 20 word) n \<Longrightarrow> n < 20"
  by (auto dest: bit_imp_le_length)

lemma field_bit:
  "bit (push_bit k (ucast (ucast (drop_bit k (w :: u32)) :: 'l :: len word)) :: u32) n \<longleftrightarrow> n < 32 \<and> k \<le> n \<and> n < k + LENGTH('l) \<and> bit w n"
  "bit (ucast (ucast w :: 'l word) :: u32) n \<longleftrightarrow> n < 32 \<and> n < LENGTH('l) \<and> bit w n"
  by (auto simp: bit_simps)

lemma pack_unpack_big: "pack_big (unpack_big w) = w"
proof (rule bit_word_eqI)
  fix n assume n: "n < LENGTH(32)"
  show "bit (pack_big (unpack_big w)) n = bit w n"
  proof (cases "bit w n")
    case True
    with n show ?thesis by (simp add: pack_big_def unpack_big_def bit_or_iff field_bit del: One_nat_def) linarith
  next
    case False
    then show ?thesis by (simp add: pack_big_def unpack_big_def bit_or_iff field_bit del: One_nat_def)
  qed
qed

lemma pack_unpack_small: "pack_small (unpack_small w) = w"
proof (rule bit_word_eqI)
  fix n assume n: "n < LENGTH(32)"
  show "bit (pack_small (unpack_small w)) n = bit w n"
  proof (cases "bit w n")
    case True
    with n show ?thesis by (simp add: pack_small_def unpack_small_def bit_or_iff field_bit del: One_nat_def) linarith
  next
    case False
    then show ?thesis by (simp add: pack_small_def unpack_small_def bit_or_iff field_bit del: One_nat_def)
  qed
qed

lemma pack_unpack_pt: "pack_pt (unpack_pt w) = w"
proof (rule bit_word_eqI)
  fix n assume n: "n < LENGTH(32)"
  show "bit (pack_pt (unpack_pt w)) n = bit w n"
  proof (cases "bit w n")
    case True
    with n show ?thesis by (simp add: pack_pt_def unpack_pt_def bit_or_iff field_bit del: One_nat_def) linarith
  next
    case False
    then show ?thesis by (simp add: pack_pt_def unpack_pt_def bit_or_iff field_bit del: One_nat_def)
  qed
qed

lemma unpack_pack_big: "unpack_big (pack_big e) = e"
  by (cases e, simp add: unpack_big_def pack_big_def del: One_nat_def, intro conjI; rule bit_word_eqI)
    (auto simp: bit_simps simp del: One_nat_def dest: bit_above)

lemma unpack_pack_small: "unpack_small (pack_small e) = e"
  by (cases e, simp add: unpack_small_def pack_small_def del: One_nat_def, intro conjI; rule bit_word_eqI)
    (auto simp: bit_simps simp del: One_nat_def dest: bit_above)

lemma unpack_pack_pt: "unpack_pt (pack_pt e) = e"
  by (cases e, simp add: unpack_pt_def pack_pt_def del: One_nat_def, intro conjI; rule bit_word_eqI)
    (auto simp: bit_simps simp del: One_nat_def dest: bit_above)

section \<open>Tables in memory\<close>

lemma entry_distance:
  fixes i j :: u32
  assumes "i < 1024" "j < 1024" "i \<noteq> j"
  shows "separate (t + 4 * i) 4 (t + 4 * j) 4"
proof -
  have ord: "4 \<le> unat (4 * (b - a)) \<and> unat (4 * (b - a)) \<le> 4092" if "a < b" "b < 1024" for a b :: u32
  proof -
    have u: "unat (b - a) = unat b - unat a" "unat a < unat b" "unat b < 1024"
      using that unat_sub [of a b] by (simp_all add: word_less_nat_alt word_le_nat_alt)
    then have "unat (4 * (b - a)) = 4 * (unat b - unat a)"
      by (simp add: unat_word_ariths del: right_diff_distrib_numeral)
    with u show ?thesis by linarith
  qed
  have swap: "unat (4 * (i - j)) + unat (4 * (j - i)) = 4294967296"
    using unat_diff_swap [of "4 * i" "4 * j"] ord [of i j] ord [of j i] assms
    by (cases "i < j") (force simp: right_diff_distrib)+
  have "i < j \<or> j < i" using assms(3) by auto
  then have "4 \<le> unat (4 * (j - i)) \<and> 4 \<le> unat (4 * (i - j))"
    using ord [of i j] ord [of j i] assms(1,2) swap by linarith
  then show ?thesis by (simp add: separate_def right_diff_distrib)
qed

lemma entry_same:
  assumes "i < 1024" "j < 1024"
  shows "load32 (set_entry t i v m) (t + 4 * j) = (if i = j then v else load32 m (t + 4 * j))"
  using entry_distance [OF assms] by (simp add: set_entry_def load32_store32 load32_store32_other)

lemma entry_other:
  assumes "separate t 4096 t' 4096" "i < 1024" "j < 1024"
  shows "load32 (set_entry t i v m) (t' + 4 * j) = load32 m (t' + 4 * j)"
proof -
  have "separate (t + of_nat (4 * unat i)) 4 (t' + of_nat (4 * unat j)) 4"
    using assms by (intro separate_sub [OF assms(1)]) (auto simp: word_less_nat_alt)
  then show ?thesis by (simp add: set_entry_def load32_store32_other)
qed

lemma clear_loop:
  assumes "n \<le> 1024" "j < 1024"
  shows "load32 (fold (\<lambda>it. set_entry t (of_nat it) 0) [0..<n] m) (t + 4 * j) = (if unat j < n then 0 else load32 m (t + 4 * j))"
    "separate t 4096 t' 4096 \<Longrightarrow>
      load32 (fold (\<lambda>it. set_entry t (of_nat it) 0) [0..<n] m) (t' + 4 * j) = load32 m (t' + 4 * j)"
proof -
  have lim: "(of_nat k :: u32) < 1024" if "k < 1024" for k using that by (simp add: word_less_nat_alt unat_of_nat_addr)
  have eq: "of_nat k = j \<longleftrightarrow> k = unat j" if "k < 1024" for k using that by (auto simp: unat_of_nat_addr)
  show "load32 (fold (\<lambda>it. set_entry t (of_nat it) 0) [0..<n] m) (t + 4 * j) = (if unat j < n then 0 else load32 m (t + 4 * j))"
    using assms(1)
  proof (induction n)
    case (Suc n)
    then show ?case using lim [of n] eq [of n] assms(2) by (simp add: entry_same)
  qed simp
  show "load32 (fold (\<lambda>it. set_entry t (of_nat it) 0) [0..<n] m) (t' + 4 * j) = load32 m (t' + 4 * j)"
    if "separate t 4096 t' 4096"
    using assms(1)
  proof (induction n)
    case (Suc n)
    then show ?case using lim [of n] assms(2) by (simp add: entry_other [OF that])
  qed simp
qed

lemma clear_table_entries:
  assumes "j < 1024"
  shows "load32 (clear_table t m) (t + 4 * j) = 0"
    "separate t 4096 t' 4096 \<Longrightarrow> load32 (clear_table t m) (t' + 4 * j) = load32 m (t' + 4 * j)"
  using clear_loop(1) [of 1024 j t m] clear_loop(2) [of 1024 j t t' m] assms
  by (simp_all add: clear_table_def word_less_nat_alt)

lemmas paging_consts = FOUR_MB_def EIGHT_KB_def EIGHT_MB_def VID_ADDR_def TWENTY_MSB_def KER_ADDR_def TEN_MSB_def
  PRO_ADDR_def USER_VMEM_def

lemma boot_entries:
  "pack_pt (video_entry 0) = 0xB8003" "pack_pt (video_entry 1) = 0xB8007"
  "pack_big kernel_page = 0x400193" "pack_big program_page = 0x97"
  "drop_bit 12 (TWENTY_MSB AND VID_ADDR) = 0xB8"
  by (simp_all add: pack_pt_def video_entry_def pack_big_def kernel_page_def program_page_def paging_consts)

lemma aligned_bits:
  assumes "(t :: u32) AND 0xFFF = 0" "n < 12"
  shows "\<not> bit t n"
proof
  have m: "(0xFFF :: u32) = mask 12" by code_simp
  assume "bit t n"
  then have "bit (t AND mask 12) n" using assms(2) by (simp add: bit_and_iff bit_mask_iff)
  then show False using assms(1) by (simp add: m)
qed

lemma aligned_mask:
  assumes "(t :: u32) AND 0xFFF = 0"
  shows "t AND 0xFFFFF000 = t"
proof -
  have m: "(0xFFFFF000 :: u32) = NOT (mask 12)" by code_simp
  show ?thesis unfolding m
    by (rule bit_word_eqI) (use aligned_bits [OF assms] in \<open>auto simp: bit_simps linorder_not_less [symmetric]\<close>)
qed

lemma table_entry_word:
  assumes "table AND 0xFFF = 0"
  shows "pack_small (table_entry 0 table) = table OR 3" "pack_small (table_entry 1 table) = table OR 7"
proof -
  have flags: "(1 :: u32) OR 2 = 3" "(3 :: u32) OR 4 = 7" by simp_all
  have m: "TWENTY_MSB = NOT (mask 12)" unfolding TWENTY_MSB_def by code_simp
  note low = aligned_bits [OF assms]
  have "push_bit 12 (ucast (ucast (drop_bit 12 (TWENTY_MSB AND table)) :: 20 word)) = table"
  proof (unfold m, rule bit_word_eqI)
    fix n assume "n < LENGTH(32)"
    then show "bit (push_bit 12 (ucast (ucast (drop_bit 12 (NOT (mask 12) AND table)) :: 20 word)) :: u32) n = bit table n"
      using low [of n] by (cases "n < 12") (auto simp: bit_simps)
  qed
  then show "pack_small (table_entry 0 table) = table OR 3" "pack_small (table_entry 1 table) = table OR 7"
    by (simp_all add: pack_small_def table_entry_def) (metis or.assoc or.commute flags)+
qed

text \<open>The three tables are aligned to 4 kB, as their declarations ask, and apart from each other.\<close>

definition tables_ok :: "addr \<Rightarrow> addr \<Rightarrow> addr \<Rightarrow> bool" where
  "tables_ok pd pt0 pt1 \<longleftrightarrow> pd AND 0xFFF = 0 \<and> pt0 AND 0xFFF = 0 \<and> pt1 AND 0xFFF = 0 \<and>
     separate pd 4096 pt0 4096 \<and> separate pd 4096 pt1 4096 \<and> separate pt0 4096 pt1 4096"

lemma build_tables_entries:
  assumes "tables_ok pd pt0 pt1" "j < 1024"
  shows "load32 (build_tables pd pt0 pt1 m) (pd + 4 * j) =
      (if j = 0 then pt0 OR 3 else if j = 1 then 0x400193 else if j = 32 then 0x97 else if j = 33 then pt1 OR 7 else 0)"
    "load32 (build_tables pd pt0 pt1 m) (pt0 + 4 * j) = (if j = 0xB8 then 0xB8003 else 0)"
    "load32 (build_tables pd pt0 pt1 m) (pt1 + 4 * j) = (if j = 0xB8 then 0xB8007 else load32 m (pt1 + 4 * j))"
proof -
  have sep: "separate pd 4096 pt0 4096" "separate pd 4096 pt1 4096" "separate pt0 4096 pt1 4096"
    "separate pt0 4096 pd 4096" "separate pt1 4096 pd 4096" "separate pt1 4096 pt0 4096"
    using assms(1) by (simp_all add: tables_ok_def separate_sym)
  have lim: "(0 :: u32) < 1024" "(1 :: u32) < 1024" "(32 :: u32) < 1024" "(33 :: u32) < 1024" "(0xB8 :: u32) < 1024" by simp_all
  have w: "pack_small (table_entry 0 pt0) = pt0 OR 3" "pack_small (table_entry 1 pt1) = pt1 OR 7"
    using assms(1) by (simp_all add: tables_ok_def table_entry_word)
  note e = entry_same [OF _ assms(2)] entry_other [OF sep(1) _ assms(2)] entry_other [OF sep(2) _ assms(2)]
    entry_other [OF sep(3) _ assms(2)] entry_other [OF sep(4) _ assms(2)] entry_other [OF sep(5) _ assms(2)]
    entry_other [OF sep(6) _ assms(2)] clear_table_entries(1) [OF assms(2)] clear_table_entries(2) [OF assms(2) sep(1)]
    clear_table_entries(2) [OF assms(2) sep(2)] clear_table_entries(2) [OF assms(2) sep(3)] clear_table_entries(2) [OF assms(2) sep(4)]
  show "load32 (build_tables pd pt0 pt1 m) (pd + 4 * j) =
      (if j = 0 then pt0 OR 3 else if j = 1 then 0x400193 else if j = 32 then 0x97 else if j = 33 then pt1 OR 7 else 0)"
    "load32 (build_tables pd pt0 pt1 m) (pt0 + 4 * j) = (if j = 0xB8 then 0xB8003 else 0)"
    "load32 (build_tables pd pt0 pt1 m) (pt1 + 4 * j) = (if j = 0xB8 then 0xB8007 else load32 m (pt1 + 4 * j))"
    unfolding build_tables_def Let_def boot_entries w PRO_ADDR_def USER_VMEM_def by (simp_all only: e lim) auto
qed

section \<open>The translation of the processor\<close>

text \<open>
  What the processor does with a directory when the page size extension is on, written on the bits of
  the entries: bit 0 is present, bit 2 admits user mode, bit 7 of a directory entry makes a 4 MB page.
\<close>

definition page_walk :: "memory \<Rightarrow> addr \<Rightarrow> bool \<Rightarrow> addr \<Rightarrow> addr option" where
  "page_walk m dir user va =
     (let de = load32 m (dir + 4 * drop_bit 22 va)
      in if \<not> bit de 0 \<or> (user \<and> \<not> bit de 2) then None
         else if bit de 7 then Some ((de AND NOT (mask 22)) OR (va AND mask 22))
         else let te = load32 m ((de AND NOT (mask 12)) + 4 * (drop_bit 12 va AND mask 10))
              in if \<not> bit te 0 \<or> (user \<and> \<not> bit te 2) then None
                 else Some ((te AND NOT (mask 12)) OR (va AND mask 12)))"

text \<open>
  The address space of the kernel while the program window shows frame \<open>f\<close>: the kernel's 4 MB and the video
  page at their own addresses for the kernel only, the program window on the 4 MB of frame \<open>f\<close>, and the
  video page once more at 132 MB for programs.
\<close>

definition kernel_map :: "10 word \<Rightarrow> bool \<Rightarrow> addr \<Rightarrow> addr option" where
  "kernel_map f user va =
     (if 0x400000 \<le> va \<and> va < 0x800000 \<or> 0xB8000 \<le> va \<and> va < 0xB9000 then (if user then None else Some va)
      else if 0x8000000 \<le> va \<and> va < 0x8400000 then Some (push_bit 22 (ucast f) + (va - 0x8000000))
      else if 0x84B8000 \<le> va \<and> va < 0x84B9000 then Some (va - 0x8400000)
      else None)"

lemma or_is_add: "push_bit n (a :: u32) OR (b AND mask n) = push_bit n a + (b AND mask n)"
  by (rule disjunctive_add_eq_or [symmetric], rule bit_eqI) (auto simp: bit_simps)

lemma page_offset: "(va :: u32) AND mask n = va - push_bit n (drop_bit n va)"
  using bits_ident [of n va] by (simp add: take_bit_eq_mask [symmetric] algebra_simps)

lemma unat_drop_bit_u32: "unat (drop_bit n (va :: u32)) = unat va div 2 ^ n"
  by (subst unat_drop_bit_eq) (simp add: drop_bit_eq_div)

lemma page_index:
  fixes va :: u32
  shows "drop_bit 22 va = 1 \<longleftrightarrow> 0x400000 \<le> va \<and> va < 0x800000"
    "drop_bit 22 va = 32 \<longleftrightarrow> 0x8000000 \<le> va \<and> va < 0x8400000"
    "drop_bit 12 va = 0xB8 \<longleftrightarrow> 0xB8000 \<le> va \<and> va < 0xB9000"
    "drop_bit 12 va = 0x84B8 \<longleftrightarrow> 0x84B8000 \<le> va \<and> va < 0x84B9000"
  unfolding word_unat_eq_iff unat_drop_bit_u32 word_le_nat_alt word_less_nat_alt by (simp_all, linarith+)

lemma table_index:
  fixes va :: u32
  shows "drop_bit 12 va = push_bit 10 (drop_bit 22 va) + (drop_bit 12 va AND mask 10)"
  using bits_ident [of 10 "drop_bit 12 va"] by (simp add: take_bit_eq_mask)

lemma kernel_map_index:
  "kernel_map f user va =
     (if drop_bit 22 va = 1 \<or> drop_bit 12 va = 0xB8 then (if user then None else Some va)
      else if drop_bit 22 va = 32 then Some (push_bit 22 (ucast f) + (va - 0x8000000))
      else if drop_bit 12 va = 0x84B8 then Some (va - 0x8400000)
      else None)"
  by (simp add: kernel_map_def page_index)

lemma dir_of_table: "drop_bit 22 (va :: u32) = drop_bit 10 (drop_bit 12 va)"
  by simp

lemma dir_index_less: "drop_bit 22 (va :: u32) < 1024" "(va :: u32) AND mask 10 < 1024"
proof -
  show "drop_bit 22 va < 1024"
    using unat_addr_lt [of va] unfolding word_less_nat_alt unat_drop_bit_u32 by (simp add: less_mult_imp_div_less)
  show "va AND mask 10 < 1024"
    unfolding word_less_nat_alt take_bit_eq_mask [symmetric] unsigned_take_bit_eq using take_bit_nat_less_exp [of 10 "unat va"] by simp
qed

text \<open>An entry that points to an aligned table with its three low flags set.\<close>

lemma table_word_bits:
  assumes "(t :: u32) AND 0xFFF = 0"
  shows "bit (t OR 3) 0" "\<not> bit (t OR 3) 2" "\<not> bit (t OR 3) 7" "(t OR 3) AND NOT (mask 12) = t"
    "bit (t OR 7) 0" "bit (t OR 7) 2" "\<not> bit (t OR 7) 7" "(t OR 7) AND NOT (mask 12) = t"
proof -
  note low = aligned_bits [OF assms]
  have f: "(3 :: u32) = mask 2" "(7 :: u32) = mask 3" by code_simp+
  show "bit (t OR 3) 0" "\<not> bit (t OR 3) 2" "\<not> bit (t OR 3) 7"
    "bit (t OR 7) 0" "bit (t OR 7) 2" "\<not> bit (t OR 7) 7"
    unfolding f using low by (auto simp: bit_simps)
  have "bit ((t OR mask k) AND NOT (mask 12)) n = bit t n" if "k \<le> 12" "n < 32" for k n
    using low [of n] that by (cases "n < 12") (auto simp: bit_simps)
  then show "(t OR 3) AND NOT (mask 12) = t" "(t OR 7) AND NOT (mask 12) = t"
    unfolding f by (auto intro!: bit_word_eqI)
qed

text \<open>The entry of the program page on frame \<open>f\<close>.\<close>

definition prog_entry :: "10 word \<Rightarrow> u32" where
  "prog_entry f = pack_big (program_page\<lparr>bp_page_base_addr := f\<rparr>)"

lemma prog_entry_word: "prog_entry f = 0x97 OR push_bit 22 (ucast f)"
  by (simp add: prog_entry_def pack_big_def program_page_def) (simp add: or.assoc [symmetric])

lemma prog_entry_bits:
  "bit (prog_entry f) 0" "bit (prog_entry f) 2" "bit (prog_entry f) 7" "prog_entry f AND NOT (mask 22) = push_bit 22 (ucast f)"
proof -
  have "bit (0x97 :: u32) 0" "bit (0x97 :: u32) 2" "bit (0x97 :: u32) 7" by code_simp+
  then show "bit (prog_entry f) 0" "bit (prog_entry f) 2" "bit (prog_entry f) 7" by (simp_all add: prog_entry_word bit_or_iff)
  have m: "(0x97 :: u32) AND NOT (mask 22) = 0" by code_simp
  have "prog_entry f AND NOT (mask 22) = (0x97 AND NOT (mask 22)) OR (push_bit 22 (ucast f) AND NOT (mask 22))"
    unfolding prog_entry_word by (rule bit_word_eqI) (auto simp: bit_simps)
  also have "\<dots> = push_bit 22 (ucast f)"
    unfolding m by (rule bit_word_eqI) (auto simp: bit_simps)
  finally show "prog_entry f AND NOT (mask 22) = push_bit 22 (ucast f)" .
qed

lemma page_walk_tables:
  assumes ok: "pt0 AND 0xFFF = 0" "pt1 AND 0xFFF = 0"
    and d: "\<And>j. j < 1024 \<Longrightarrow> load32 m (pd + 4 * j) =
      (if j = 0 then pt0 OR 3 else if j = 1 then 0x400193 else if j = 32 then prog_entry f else if j = 33 then pt1 OR 7 else 0)"
    and t0: "\<And>j. j < 1024 \<Longrightarrow> load32 m (pt0 + 4 * j) = (if j = 0xB8 then 0xB8003 else 0)"
    and t1: "\<And>j. j < 1024 \<Longrightarrow> load32 m (pt1 + 4 * j) = (if j = 0xB8 then 0xB8007 else 0)"
  shows "page_walk m pd user va = kernel_map f user va"
proof -
  define j k where "j = drop_bit 22 va" and "k = drop_bit 12 va AND mask 10"
  have lt: "j < 1024" "k < 1024" by (simp_all add: j_def k_def dir_index_less)
  have p: "drop_bit 12 va = push_bit 10 j + k" unfolding j_def k_def by (rule table_index)
  have off: "va AND mask 22 = va - push_bit 22 j" "va AND mask 12 = va - push_bit 12 (drop_bit 12 va)"
    by (simp_all add: page_offset j_def)
  have dj: "j = drop_bit 10 (drop_bit 12 va)" by (simp add: j_def)
  have far: "drop_bit 12 va = 0xB8 \<Longrightarrow> j = 0" "drop_bit 12 va = 0x84B8 \<Longrightarrow> j = 33" using dj by simp_all
  note walk = page_walk_def [of m pd user va, folded j_def k_def, unfolded d [OF lt(1)]]
  note bm = kernel_map_index [of f user va, folded j_def]
  have c: "(0x400193 :: u32) AND NOT (mask 22) = 0x400000"
    "(0xB8003 :: u32) AND NOT (mask 12) = 0xB8000" "(0xB8007 :: u32) AND NOT (mask 12) = 0xB8000"
    by code_simp+
  have big: "(push_bit 22 1 :: u32) OR (va AND mask 22) = push_bit 22 1 + (va AND mask 22)" by (rule or_is_add)
  have small: "(push_bit 12 0xB8 :: u32) OR (va AND mask 12) = push_bit 12 0xB8 + (va AND mask 12)" by (rule or_is_add)
  consider "j = 0" | "j = 1" | "j = 32" | "j = 33" | "j \<notin> {0, 1, 32, 33}" by blast
  then show ?thesis
  proof cases
    case 1
    then have "drop_bit 12 va = k" using p by simp
    moreover have "page_walk m pd user va = (if user \<or> k \<noteq> 0xB8 then None else Some (0xB8000 OR (va AND mask 12)))"
      using 1 t0 [OF lt(2)] by (cases "k = 0xB8") (simp_all add: walk table_word_bits [OF ok(1)] c Let_def)
    moreover have "k \<noteq> 0x84B8" using lt(2) by auto
    ultimately show ?thesis using 1 small off(2) by (auto simp: bm)
  next
    case 2
    then show ?thesis using big far off(1) by (auto simp: walk bm c)
  next
    case 3
    then show ?thesis using far off(1) or_is_add [of 22 "ucast f" va] by (auto simp: walk bm c prog_entry_bits)
  next
    case 4
    then have "drop_bit 12 va = 0x8400 + k" using p by simp
    moreover from this have "drop_bit 12 va = 0x84B8 \<longleftrightarrow> k = 0xB8" by (auto simp: algebra_simps)
    moreover have "page_walk m pd user va = (if k \<noteq> 0xB8 then None else Some (0xB8000 OR (va AND mask 12)))"
      using 4 t1 [OF lt(2)] by (cases "k = 0xB8") (simp_all add: walk table_word_bits [OF ok(2)] c Let_def)
    ultimately show ?thesis using 4 small far off(2) by (auto simp: bm)
  next
    case 5
    then have "page_walk m pd user va = None" by (simp add: walk)
    then show ?thesis using 5 far by (auto simp: bm)
  qed
qed

section \<open>The tables of the running kernel\<close>

definition table_words :: "memory \<Rightarrow> addr \<Rightarrow> u32 list" where
  "table_words m t = map (\<lambda>i. load32 m (t + 4 * of_nat i)) [0..<1024]"

lemma table_wordsD: "table_words m t = map g [0..<1024] \<Longrightarrow> j < 1024 \<Longrightarrow> load32 m (t + 4 * j) = g (unat j)"
  using arg_cong [of "table_words m t" "map g [0..<1024]" "\<lambda>l. l ! unat j"] by (simp add: table_words_def word_less_nat_alt)

lemma table_words_eqI:
  assumes "\<And>j. j < 1024 \<Longrightarrow> load32 m (t + 4 * j) = g (unat j)"
  shows "table_words m t = map g [0..<1024]"
  unfolding table_words_def
proof (rule map_cong [OF refl])
  fix i assume "i \<in> set [0..<1024]"
  then show "load32 m (t + 4 * of_nat i) = g i"
    using assms [of "of_nat i"] by (simp add: word_less_nat_alt unat_of_nat_addr)
qed

definition dir_word :: "addr \<Rightarrow> addr \<Rightarrow> 10 word \<Rightarrow> nat \<Rightarrow> u32" where
  "dir_word pt0 pt1 f j =
     (if j = 0 then pt0 OR 3 else if j = 1 then 0x400193 else if j = 32 then prog_entry f else if j = 33 then pt1 OR 7 else 0)"

definition vid_word :: "u32 \<Rightarrow> nat \<Rightarrow> u32" where
  "vid_word v j = (if j = 0xB8 then v else 0)"

text \<open>
  The invariant of a kernel that runs with paging: the three tables hold the entries of \<open>kernel_map\<close> for
  the frame the window shows, and lie outside the window.
\<close>

definition tables_outside :: "'a paging_scheme \<Rightarrow> bool" where
  "tables_outside s \<longleftrightarrow> tables_ok (page_directory s) (page_table_0 s) (page_table_1 s) \<and>
     separate (page_directory s) 4096 PROG_WINDOW 0x400000 \<and> separate (page_table_0 s) 4096 PROG_WINDOW 0x400000 \<and>
     separate (page_table_1 s) 4096 PROG_WINDOW 0x400000"

definition paging_inv :: "'a paging_scheme \<Rightarrow> bool" where
  "paging_inv s \<longleftrightarrow> tables_outside s \<and> ret_dir_ptr s = page_directory s \<and> cr0 s AND 0x80000000 \<noteq> 0 \<and>
     table_words (mem s) (page_directory s) = map (dir_word (page_table_0 s) (page_table_1 s) (prog_frame s)) [0..<1024] \<and>
     table_words (mem s) (page_table_0 s) = map (vid_word 0xB8003) [0..<1024] \<and>
     table_words (mem s) (page_table_1 s) = map (vid_word 0xB8007) [0..<1024]"

lemma paging_invD:
  assumes "paging_inv s" "j < 1024"
  shows "load32 (mem s) (page_directory s + 4 * j) =
      (if j = 0 then page_table_0 s OR 3 else if j = 1 then 0x400193 else if j = 32 then prog_entry (prog_frame s)
       else if j = 33 then page_table_1 s OR 7 else 0)"
    "load32 (mem s) (page_table_0 s + 4 * j) = (if j = 0xB8 then 0xB8003 else 0)"
    "load32 (mem s) (page_table_1 s + 4 * j) = (if j = 0xB8 then 0xB8007 else 0)"
proof -
  have u: "unat j = 0 \<longleftrightarrow> j = 0" "unat j = 1 \<longleftrightarrow> j = 1" "unat j = 32 \<longleftrightarrow> j = 32" "unat j = 33 \<longleftrightarrow> j = 33" "unat j = 0xB8 \<longleftrightarrow> j = 0xB8"
    by (simp_all add: word_unat_eq_iff)
  show "load32 (mem s) (page_directory s + 4 * j) =
      (if j = 0 then page_table_0 s OR 3 else if j = 1 then 0x400193 else if j = 32 then prog_entry (prog_frame s)
       else if j = 33 then page_table_1 s OR 7 else 0)"
    "load32 (mem s) (page_table_0 s + 4 * j) = (if j = 0xB8 then 0xB8003 else 0)"
    "load32 (mem s) (page_table_1 s + 4 * j) = (if j = 0xB8 then 0xB8007 else 0)"
    using assms(1) unfolding paging_inv_def u [symmetric] dir_word_def [symmetric] vid_word_def [symmetric]
    by (auto intro: table_wordsD [OF _ assms(2)])
qed

lemma paging_walk:
  assumes "paging_inv s"
  shows "page_walk (mem s) (ret_dir_ptr s) user va = kernel_map (prog_frame s) user va"
proof -
  have "page_table_0 s AND 0xFFF = 0" "page_table_1 s AND 0xFFF = 0" "ret_dir_ptr s = page_directory s"
    using assms by (simp_all add: paging_inv_def tables_outside_def tables_ok_def)
  then show ?thesis using page_walk_tables [OF _ _ paging_invD [OF assms]] by simp
qed

lemma switch_window_frame [simp]:
  "page_directory (switch_window f s) = page_directory s" "page_table_0 (switch_window f s) = page_table_0 s"
  "page_table_1 (switch_window f s) = page_table_1 s" "cr0 (switch_window f s) = cr0 s" "cr3 (switch_window f s) = cr3 s"
  "cr4 (switch_window f s) = cr4 s" "prog_frame (switch_window f s) = f" "ret_dir_ptr (switch_window f s) = ret_dir_ptr s"
  by (simp_all add: switch_window_def ret_dir_ptr_def)

lemma switch_window_outside: "\<not> in_region PROG_WINDOW 0x400000 a \<Longrightarrow> mem (switch_window f s) a = mem s a"
  by (simp add: switch_window_def)

lemma switch_window_words:
  assumes "separate t 4096 PROG_WINDOW 0x400000"
  shows "table_words (mem (switch_window f s)) t = table_words (mem s) t"
  unfolding table_words_def
proof (rule map_cong [OF refl], rule load32_cong)
  fix i x assume i: "i \<in> set [0..<1024]" and x: "in_region (t + 4 * of_nat i) 4 x"
  have "in_region t 4096 x" using in_region_shift [of "4 * i" 4 4096 t x] i x by simp
  then show "mem (switch_window f s) x = mem s x" using separateD [OF assms] switch_window_outside by blast
qed

section \<open>Booting\<close>

text \<open>
  The state in which \<open>init_paging\<close> is called: paging is off and \<open>page_table_1\<close>, which the code does not
  clear, still holds the zeros of the uninitialised data segment.
\<close>

definition boot_ready :: "'a paging_scheme \<Rightarrow> bool" where
  "boot_ready s \<longleftrightarrow> tables_outside s \<and> cr0 s AND 0x80000000 = 0 \<and>
     table_words (mem s) (page_table_1 s) = map (\<lambda>_. 0) [0..<1024]"

lemma dir_or_flags:
  assumes "(pd :: u32) AND 0xFFF = 0"
  shows "((pd AND 0xFFFFF000) OR (c AND 0xFFF)) AND 0xFFFFF000 = pd"
proof -
  have m: "(0xFFFFF000 :: u32) = NOT (mask 12)" "(0xFFF :: u32) = mask 12" by code_simp+
  have "((pd AND NOT (mask 12)) OR (c AND mask 12)) AND NOT (mask 12) = pd AND NOT (mask 12)"
    by (rule bit_word_eqI) (auto simp: bit_simps)
  then show ?thesis using aligned_mask [OF assms] by (simp add: m)
qed

lemma init_paging_eq:
  fixes s :: "'a paging_scheme"
  assumes "boot_ready s"
  defines "t \<equiv> s\<lparr>mem := build_tables (page_directory s) (page_table_0 s) (page_table_1 s) (mem s),
      cr3 := (page_directory s AND 0xFFFFF000) OR (cr3 s AND 0x00000FFF), cr4 := cr4 s OR 0x10 OR 0x80, cr0 := cr0 s OR 0x80000000\<rparr>"
  shows "init_paging s = switch_window 0 t" "ret_dir_ptr t = page_directory s"
proof -
  have al: "page_directory s AND 0xFFF = 0" and ok: "tables_ok (page_directory s) (page_table_0 s) (page_table_1 s)"
    using assms(1) by (simp_all add: boot_ready_def tables_outside_def tables_ok_def)
  show dir: "ret_dir_ptr t = page_directory s" unfolding t_def ret_dir_ptr_def using dir_or_flags [OF al] by simp
  have on: "(cr0 s OR 0x80000000) AND 0x80000000 = 0x80000000"
    by (rule bit_word_eqI) (auto simp: bit_simps)
  have "load32 (mem t) (ret_dir_ptr t + 4 * PRO_ADDR) = 0x97"
    using build_tables_entries(1) [OF ok, of 32 "mem s"] unfolding dir by (simp add: t_def PRO_ADDR_def)
  then have "bp_page_base_addr (unpack_big (load32 (mem t) (ret_dir_ptr t + 4 * PRO_ADDR))) = 0"
    by (simp add: unpack_big_def)
  then have "flush_tlb t = switch_window 0 t" using on by (simp add: flush_tlb_def t_def)
  moreover have "init_paging s = flush_tlb t"
    using assms(1) by (simp add: init_paging_def lpdt_def flush_tlb_def [of "s\<lparr>mem := m, cr3 := c\<rparr>" for m c] enablePSE_def enablePGE_def
      enablePaging_def t_def boot_ready_def or.assoc)
  ultimately show "init_paging s = switch_window 0 t" by simp
qed

lemma init_paging_inv:
  assumes "boot_ready s"
  shows "paging_inv (init_paging s)" "prog_frame (init_paging s) = 0"
    "bit (cr0 (init_paging s)) 31" "bit (cr4 (init_paging s)) 4" "bit (cr4 (init_paging s)) 7"
proof -
  note eq = init_paging_eq [OF assms]
  have ok: "tables_ok (page_directory s) (page_table_0 s) (page_table_1 s)"
    and sep: "separate (page_directory s) 4096 PROG_WINDOW 0x400000" "separate (page_table_0 s) 4096 PROG_WINDOW 0x400000"
      "separate (page_table_1 s) 4096 PROG_WINDOW 0x400000"
    using assms by (simp_all add: boot_ready_def tables_outside_def)
  have u: "unat j = 0 \<longleftrightarrow> j = 0" "unat j = 1 \<longleftrightarrow> j = 1" "unat j = 32 \<longleftrightarrow> j = 32" "unat j = 33 \<longleftrightarrow> j = 33" "unat j = 0xB8 \<longleftrightarrow> j = 0xB8"
    "unat j = Suc 0 \<longleftrightarrow> j = 1" for j :: u32 by (simp_all add: word_unat_eq_iff)
  have z: "load32 (mem s) (page_table_1 s + 4 * j) = 0" if "j < 1024" for j
    using table_wordsD [OF _ that, of "mem s" "page_table_1 s" "\<lambda>_. 0"] assms by (simp add: boot_ready_def)
  have p: "prog_entry 0 = 0x97" by (simp add: prog_entry_word)
  let ?m = "build_tables (page_directory s) (page_table_0 s) (page_table_1 s) (mem s)"
  have words: "table_words ?m (page_directory s) = map (dir_word (page_table_0 s) (page_table_1 s) 0) [0..<1024]"
    "table_words ?m (page_table_0 s) = map (vid_word 0xB8003) [0..<1024]"
    "table_words ?m (page_table_1 s) = map (vid_word 0xB8007) [0..<1024]"
    by (rule table_words_eqI, simp add: build_tables_entries [OF ok] dir_word_def vid_word_def u p z)+
  have "(cr0 s OR 0x80000000) AND 0x80000000 = 0x80000000"
    by (rule bit_word_eqI) (auto simp: bit_simps)
  then show "paging_inv (init_paging s)"
    using words eq(2) assms
    by (simp add: eq(1) paging_inv_def switch_window_words [OF sep(1)] switch_window_words [OF sep(2)]
        switch_window_words [OF sep(3)] boot_ready_def tables_outside_def)
  show "prog_frame (init_paging s) = 0" by (simp add: eq(1))
  have b: "bit (0x80000000 :: u32) 31" "bit (0x10 :: u32) 4" "bit (0x80 :: u32) 7" by code_simp+
  show "bit (cr0 (init_paging s)) 31" "bit (cr4 (init_paging s)) 4" "bit (cr4 (init_paging s)) 7"
    using b by (simp_all add: eq(1) bit_or_iff)
qed

section \<open>Lookups\<close>

lemma first_field: "ucast (w :: u32) AND (1 :: 1 word) = 0 \<longleftrightarrow> \<not> bit w 0"
proof -
  have "ucast w AND (1 :: 1 word) = 0 \<longleftrightarrow> \<not> bit (ucast w :: 1 word) 0"
    by (simp add: and_one_eq odd_iff_mod_2_eq_one even_iff_mod_2_eq_zero bit_0)
  then show ?thesis by (simp add: bit_simps)
qed

lemma get_bigPage_eq:
  "get_bigPage i s = (if i < 1024 \<and> bit (load32 (mem s) (ret_dir_ptr s + 4 * i)) 0 then ret_dir_ptr s + 4 * i else NULL)"
  by (auto simp: get_bigPage_def unpack_big_def Let_def first_field dest: leD)

lemma base_field: "push_bit 12 (ucast (ucast (drop_bit 12 (w :: u32)) :: 20 word)) = w AND NOT (mask 12)"
proof (rule bit_word_eqI)
  fix n assume "n < LENGTH(32)"
  then show "bit (push_bit 12 (ucast (ucast (drop_bit 12 w) :: 20 word)) :: u32) n = bit (w AND NOT (mask 12)) n"
    by (cases "n < 12") (auto simp: bit_simps)
qed

lemma get_pageTable_entry_eq:
  fixes s :: "'a paging_scheme" and i k :: u32
  defines "de \<equiv> load32 (mem s) (ret_dir_ptr s + 4 * i)"
  defines "pt \<equiv> (de AND NOT (mask 12)) + 4 * k"
  shows "get_pageTable_entry i k s = (if i < 1024 \<and> k < 1024 \<and> bit de 0 \<and> bit (load32 (mem s) pt) 0 then pt else NULL)"
  by (auto simp: get_pageTable_entry_def unpack_small_def unpack_pt_def Let_def first_field base_field
      de_def [symmetric] pt_def [symmetric] dest: leD)

section \<open>Moving the program page\<close>

lemma cr3_reload: "((cr3 s AND 0xFFFFF000) AND 0xFFFFF000) OR (cr3 s AND 0xFFF) = cr3 s"
proof -
  have m: "(0xFFFFF000 :: u32) = NOT (mask 12)" "(0xFFF :: u32) = mask 12" by code_simp+
  show ?thesis unfolding m by (rule bit_word_eqI) (auto simp: bit_simps)
qed

lemma program_entry_address:
  assumes "paging_inv s"
  shows "get_bigPage 32 s = page_directory s + 4 * 32" "page_directory s + 4 * 32 \<noteq> 0" "page_table_1 s + 4 * 0xB8 \<noteq> 0"
proof -
  have d: "load32 (mem s) (page_directory s + 4 * 32) = prog_entry (prog_frame s)" "ret_dir_ptr s = page_directory s"
    using paging_invD(1) [OF assms, of 32] assms by (simp_all add: paging_inv_def)
  then show "get_bigPage 32 s = page_directory s + 4 * 32"
    using prog_entry_bits(1) by (simp add: get_bigPage_eq)
  have al: "page_directory s AND 0xFFF = 0" "page_table_1 s AND 0xFFF = 0"
    using assms by (simp_all add: paging_inv_def tables_outside_def tables_ok_def)
  have no: "(- 128 :: u32) AND 0xFFF \<noteq> 0" "(- 736 :: u32) AND 0xFFF \<noteq> 0" by simp_all
  show "page_directory s + 4 * 32 \<noteq> 0" "page_table_1 s + 4 * 0xB8 \<noteq> 0"
    using al no by (auto simp: add_eq_0_iff2)
qed

lemma set_page_base_prog:
  assumes "paging_inv s"
  shows "set_page_base (page_directory s + 4 * 32) p (mem s) = set_entry (page_directory s) 32 (prog_entry (ucast p)) (mem s)"
proof -
  have "load32 (mem s) (page_directory s + 4 * 32) = prog_entry (prog_frame s)"
    using paging_invD(1) [OF assms, of 32] by simp
  then show ?thesis by (simp add: set_page_base_def set_entry_def prog_entry_def unpack_pack_big)
qed

lemma move_program_page:
  fixes s :: "'a paging_scheme" and p :: u32
  assumes inv: "paging_inv s"
  defines "t \<equiv> lpdt (ret_dir_ptr s) (s\<lparr>mem := set_page_base (get_bigPage 32 s) p (mem s)\<rparr>)"
  shows "t = switch_window (ucast p) (s\<lparr>mem := set_entry (page_directory s) 32 (prog_entry (ucast p)) (mem s)\<rparr>)"
    "paging_inv t" "prog_frame t = ucast p"
proof -
  let ?m = "set_entry (page_directory s) 32 (prog_entry (ucast p)) (mem s)"
  have ok: "tables_ok (page_directory s) (page_table_0 s) (page_table_1 s)"
    and sep: "separate (page_directory s) 4096 PROG_WINDOW 0x400000" "separate (page_table_0 s) 4096 PROG_WINDOW 0x400000"
      "separate (page_table_1 s) 4096 PROG_WINDOW 0x400000"
    and dir: "ret_dir_ptr s = page_directory s" and on: "cr0 s AND 0x80000000 \<noteq> 0"
    using inv by (simp_all add: paging_inv_def tables_outside_def)
  have e: "load32 ?m (page_directory s + 4 * 32) = prog_entry (ucast p)" by (simp add: set_entry_def load32_store32)
  have base: "bp_page_base_addr (unpack_big (prog_entry (ucast p))) = ucast p" by (simp add: prog_entry_def unpack_pack_big)
  have m: "set_page_base (get_bigPage 32 s) p (mem s) = ?m"
    unfolding program_entry_address(1) [OF inv] by (rule set_page_base_prog [OF inv])
  have c: "(ret_dir_ptr s AND 0xFFFFF000) OR (cr3 s AND 0xFFF) = cr3 s" unfolding ret_dir_ptr_def by (rule cr3_reload)
  have "t = flush_tlb (s\<lparr>mem := ?m\<rparr>)" unfolding t_def lpdt_def m using c by simp
  also have "\<dots> = switch_window (ucast p) (s\<lparr>mem := ?m\<rparr>)"
    using on e base dir by (simp add: flush_tlb_def PRO_ADDR_def ret_dir_ptr_def)
  finally show eq: "t = switch_window (ucast p) (s\<lparr>mem := ?m\<rparr>)" .
  show "prog_frame t = ucast p" by (simp add: eq)
  have u: "unat j = 32 \<longleftrightarrow> j = 32" "unat j = 0 \<longleftrightarrow> j = 0" "unat j = Suc 0 \<longleftrightarrow> j = 1" "unat j = 33 \<longleftrightarrow> j = 33" "unat j = 0xB8 \<longleftrightarrow> j = 0xB8"
    for j :: u32 by (simp_all add: word_unat_eq_iff)
  have s': "separate (page_directory s) 4096 (page_table_0 s) 4096" "separate (page_directory s) 4096 (page_table_1 s) 4096"
    using ok by (simp_all add: tables_ok_def)
  note rd = entry_same entry_other [OF s'(1)] entry_other [OF s'(2)] paging_invD [OF inv]
  have "table_words ?m (page_directory s) = map (dir_word (page_table_0 s) (page_table_1 s) (ucast p)) [0..<1024]"
    "table_words ?m (page_table_0 s) = map (vid_word 0xB8003) [0..<1024]"
    "table_words ?m (page_table_1 s) = map (vid_word 0xB8007) [0..<1024]"
    using paging_invD(1) [OF inv, of 0] paging_invD(1) [OF inv, of 1]
    by - (rule table_words_eqI, simp add: rd dir_word_def vid_word_def u)+
  then show "paging_inv t"
    using ok sep dir on unfolding eq
    by (simp add: paging_inv_def tables_outside_def switch_window_words [OF sep(1)] switch_window_words [OF sep(2)]
        switch_window_words [OF sep(3)]) (simp add: ret_dir_ptr_def)
qed

text \<open>The byte at offset \<open>i\<close> of a physical frame, shown in the window or not.\<close>

definition frame_byte :: "'a paging_scheme \<Rightarrow> 10 word \<Rightarrow> u32 \<Rightarrow> byte" where
  "frame_byte s g i = (if g = prog_frame s then mem s (PROG_WINDOW + i) else frames s g i)"

lemma switch_window_frame_byte:
  assumes "i < 0x400000"
  shows "frame_byte (switch_window f s) g i = frame_byte s g i"
proof -
  have "in_region PROG_WINDOW 0x400000 (PROG_WINDOW + i)" using assms by (simp add: in_region_def word_less_nat_alt)
  then show ?thesis by (simp add: frame_byte_def switch_window_def)
qed

section \<open>Properties\<close>

text \<open>
  C38. After \<open>init_paging\<close> the processor translates every address, in kernel and in user mode, as
  \<open>kernel_map 0\<close> says: the kernel's 4 MB and the video page are mapped to themselves for the kernel only,
  programs see their window and the video page at 132 MB, and nothing else is mapped. Paging, 4 MB pages
  and global pages are enabled.
\<close>

theorem boot_paging_map:
  assumes "boot_ready s"
  shows "page_walk (mem (init_paging s)) (ret_dir_ptr (init_paging s)) user va = kernel_map 0 user va \<and>
     bit (cr0 (init_paging s)) 31 \<and> bit (cr4 (init_paging s)) 4 \<and> bit (cr4 (init_paging s)) 7"
  using paging_walk [OF init_paging_inv(1) [OF assms]] init_paging_inv(2-5) [OF assms] by simp

definition boot_machine :: paging where
  "boot_machine = (kbd.extend quiet_kbd (paging.fields 0x410000 0x411000 0x412000 0x11 0 0 32 (\<lambda>_ _. 0)))\<lparr>mem := \<lambda>_. 0\<rparr>"

lemma boot_machine_ready: "boot_ready boot_machine"
proof -
  have "table_words (mem boot_machine) (page_table_1 boot_machine) = map (\<lambda>_. 0) [0..<1024]"
    by (rule table_words_eqI) (simp add: boot_machine_def load32_def)
  then show ?thesis
    by (simp add: boot_ready_def tables_outside_def tables_ok_def)
      (simp add: boot_machine_def kbd.defs paging.defs separate_def PROG_WINDOW_def)
qed

theorem boot_paging_map_witness:
  "page_walk (mem (init_paging boot_machine)) (ret_dir_ptr (init_paging boot_machine)) True 0x84B8123 = Some 0xB8123 \<and>
     page_walk (mem (init_paging boot_machine)) (ret_dir_ptr (init_paging boot_machine)) True 0x400000 = None"
  using boot_paging_map [OF boot_machine_ready, of True "0x84B8123"] boot_paging_map [OF boot_machine_ready, of True "0x400000"]
  by (simp add: kernel_map_def)




end
