(* ===== verification/Syscalls.thy ===== *)
theory Syscalls
  imports Paging
begin

text \<open>
  The system calls on descriptors, the arguments of a program and the video map,
  \<^verbatim>\<open>student-distrib/sys_calls.c\<close>. A call goes through the jump table of its descriptor; the tables are
  those of \<^verbatim>\<open>sys_calls.h\<close>. Executing and halting programs is in the theory of processes.
\<close>

section \<open>Definitions\<close>

definition FD_SIZE :: int where "FD_SIZE = 7"

text \<open>
  The four jump tables. A call through a null table pointer does not return. Reading may wait for
  interrupts, so the read entries take the handlers and the bursts of interrupts that arrive.
\<close>

definition read_ptr ::
  "('e \<Rightarrow> 'a kbd_scheme \<Rightarrow> 'a kbd_scheme) \<Rightarrow> 'e list list \<Rightarrow> fd_table \<Rightarrow> int \<Rightarrow> addr \<Rightarrow> int \<Rightarrow> 'a kbd_scheme \<Rightarrow>
     (int \<times> 'a kbd_scheme) option" where
  "read_ptr irq bursts tbl fd buf nbytes s =
     (case tbl of
        rtc_table \<Rightarrow> rtc_read irq bursts fd buf nbytes s
      | dir_table \<Rightarrow> dir_read fd buf nbytes s
      | file_table \<Rightarrow> file_read fd buf nbytes s
      | terminal_table \<Rightarrow> terminal_read irq bursts fd buf nbytes s)"

definition write_ptr :: "fd_table \<Rightarrow> int \<Rightarrow> addr \<Rightarrow> int \<Rightarrow> 'a kbd_scheme \<Rightarrow> (int \<times> 'a kbd_scheme) option" where
  "write_ptr tbl fd buf nbytes s =
     (case tbl of
        rtc_table \<Rightarrow> rtc_write fd buf nbytes s
      | dir_table \<Rightarrow> dir_write fd buf nbytes s
      | file_table \<Rightarrow> file_write fd buf nbytes s
      | terminal_table \<Rightarrow> terminal_write fd buf nbytes s)"

definition open_ptr :: "fd_table \<Rightarrow> addr \<Rightarrow> 'a kbd_scheme \<Rightarrow> (int \<times> 'a kbd_scheme) option" where
  "open_ptr tbl filename s =
     (case tbl of
        rtc_table \<Rightarrow> rtc_open filename s
      | dir_table \<Rightarrow> dir_open filename s
      | file_table \<Rightarrow> file_open filename s
      | terminal_table \<Rightarrow> terminal_open filename s)"

definition close_ptr :: "fd_table \<Rightarrow> int \<Rightarrow> 'a kbd_scheme \<Rightarrow> (int \<times> 'a kbd_scheme) option" where
  "close_ptr tbl fd s =
     (case tbl of
        rtc_table \<Rightarrow> rtc_close fd s
      | dir_table \<Rightarrow> dir_close fd s
      | file_table \<Rightarrow> file_close fd s
      | terminal_table \<Rightarrow> terminal_close fd s)"

definition sys_read_c ::
  "('e \<Rightarrow> 'a kbd_scheme \<Rightarrow> 'a kbd_scheme) \<Rightarrow> 'e list list \<Rightarrow> int \<Rightarrow> addr \<Rightarrow> int \<Rightarrow> 'a kbd_scheme \<Rightarrow> (int \<times> 'a kbd_scheme) option" where
  "sys_read_c irq bursts fd buf nbytes s =
     (if fd < 0 \<or> FD_SIZE < fd then Some (-1, s)
      else if buf = NULL then Some (-1, s)
      else if nbytes < 0 then Some (-1, s)
      else if flags (get_fd s (nat fd)) mod 2 = 0 then Some (-1, s)
      else do { tbl \<leftarrow> file_op_ptr (get_fd s (nat fd)); read_ptr irq bursts tbl fd buf nbytes s })"

definition sys_write_c :: "int \<Rightarrow> addr \<Rightarrow> int \<Rightarrow> 'a kbd_scheme \<Rightarrow> (int \<times> 'a kbd_scheme) option" where
  "sys_write_c fd buf nbytes s =
     (if fd < 0 \<or> FD_SIZE < fd then Some (-1, s)
      else if buf = NULL then Some (-1, s)
      else if nbytes < 0 then Some (-1, s)
      else if flags (get_fd s (nat fd)) mod 2 = 0 then Some (-1, s)
      else do { tbl \<leftarrow> file_op_ptr (get_fd s (nat fd)); write_ptr tbl fd buf nbytes s })"

definition table_of_type :: "u32 \<Rightarrow> fd_table" where
  "table_of_type filetype =
     (if filetype = RTC_FILE then rtc_table
      else if filetype = DIR_FILE then dir_table
      else if filetype = REG_FILE then file_table
      else terminal_table)"

text \<open>\<open>dentry\<close> is the address of the local variable of that name.\<close>

definition sys_open_c :: "addr \<Rightarrow> addr \<Rightarrow> 'a kbd_scheme \<Rightarrow> (int \<times> 'a kbd_scheme) option" where
  "sys_open_c dentry filename s =
     (if filename = NULL then Some (-1, s)
      else do {
        (r, s1) \<leftarrow> read_dentry_by_name filename dentry s;
        if r = -1 then Some (-1, s1)
        else case first_free s1 of
          None \<Rightarrow> Some (-1, s1)
        | Some i \<Rightarrow> do {
            let tbl = table_of_type (load32 (mem s1) (filetype_at dentry));
            (_, s2) \<leftarrow> open_ptr tbl filename (set_fd i ((get_fd s1 i)\<lparr>file_op_ptr := Some tbl\<rparr>) s1);
            Some (int i, s2) } })"

definition sys_close_c :: "int \<Rightarrow> 'a kbd_scheme \<Rightarrow> (int \<times> 'a kbd_scheme) option" where
  "sys_close_c fd s =
     (if fd < 2 \<or> FD_SIZE < fd then Some (-1, s)
      else if flags (get_fd s (nat fd)) mod 2 = 0 then Some (-1, s)
      else do { tbl \<leftarrow> file_op_ptr (get_fd s (nat fd)); close_ptr tbl fd s })"

text \<open>
  \<open>sys_getargs_c\<close> searches \<open>input\<close> for a space and copies what follows. The bound \<open>nbytes - in_idx\<close> is
  computed in unsigned arithmetic. A read beyond the array \<open>input\<close> is outside the model: \<open>None\<close>.
\<close>

function find_space :: "byte list \<Rightarrow> nat \<Rightarrow> nat option" where
  "find_space inp in_idx =
     (if in_idx < length inp then
        if inp ! in_idx \<noteq> 32 then find_space inp (in_idx + 1) else Some in_idx
      else None)"
  by pat_completeness auto
termination
  by (relation "measure (\<lambda>(inp, in_idx). length inp - in_idx)") auto

function copy_args :: "byte list \<Rightarrow> addr \<Rightarrow> u32 \<Rightarrow> nat \<Rightarrow> nat \<Rightarrow> memory \<Rightarrow> (nat \<times> memory) option" where
  "copy_args inp buf nbytes idx in_idx m =
     (if of_nat idx < nbytes - of_nat in_idx then
        if in_idx < length inp then
          let b = inp ! in_idx; m' = m(buf + of_nat idx := b)
          in if b = 0 then Some (idx, m') else copy_args inp buf nbytes (idx + 1) (in_idx + 1) m'
        else None
      else Some (idx, m))"
  by pat_completeness auto
termination
  by (relation "measure (\<lambda>(inp, buf, nbytes, idx, in_idx, m). length inp - in_idx)") auto

declare find_space.simps [simp del] copy_args.simps [simp del]

definition sys_getargs_c :: "addr \<Rightarrow> int \<Rightarrow> 'a kbd_scheme \<Rightarrow> (int \<times> 'a kbd_scheme) option" where
  "sys_getargs_c buf nbytes s =
     do { let inp = input (pcb_heap s (cur_pcb s));
          in_idx \<leftarrow> find_space inp 0;
          (idx, m) \<leftarrow> copy_args inp buf (of_int nbytes) 0 (in_idx + 1) (mem s);
          Some (if idx = 0 then -1 else 0, s\<lparr>mem := m\<rparr>) }"

definition sys_vidmap_c :: "addr \<Rightarrow> 'a paging_scheme \<Rightarrow> int \<times> 'a paging_scheme" where
  "sys_vidmap_c screen_start s =
     (if screen_start = NULL \<or> screen_start \<le> FOUR_MB then (-1, s)
      else if get_pageTable_entry USER_VMEM (drop_bit 12 VID_ADDR) s = NULL then (-1, s)
      else (0, s\<lparr>mem := store32 (mem s) screen_start (push_bit 22 USER_VMEM OR VID_ADDR)\<rparr>))"

definition sys_set_handler_c :: "int \<Rightarrow> addr \<Rightarrow> 'a paging_scheme \<Rightarrow> int \<times> 'a paging_scheme" where
  "sys_set_handler_c signum handler_address s = (-1, s)"

definition sys_sigreturn_c :: "'a paging_scheme \<Rightarrow> int \<times> 'a paging_scheme" where
  "sys_sigreturn_c s = (-1, s)"

section \<open>Argument checks\<close>

definition valid_fd :: "int \<Rightarrow> 'a kbd_scheme \<Rightarrow> bool" where
  "valid_fd fd s \<longleftrightarrow> 0 \<le> fd \<and> fd < 8 \<and> \<not> fd_free (get_fd s (nat fd))"

lemma sys_read_dispatch:
  assumes "valid_fd fd s" "buf \<noteq> NULL" "0 \<le> n" "file_op_ptr (get_fd s (nat fd)) = Some tbl"
  shows "sys_read_c irq bursts fd buf n s = read_ptr irq bursts tbl fd buf n s"
  using assms by (simp add: sys_read_c_def valid_fd_def fd_free_def FD_SIZE_def)

lemma sys_write_dispatch:
  assumes "valid_fd fd s" "buf \<noteq> NULL" "0 \<le> n" "file_op_ptr (get_fd s (nat fd)) = Some tbl"
  shows "sys_write_c fd buf n s = write_ptr tbl fd buf n s"
  using assms by (simp add: sys_write_c_def valid_fd_def fd_free_def FD_SIZE_def)

section \<open>Reading a file through the system call\<close>

text \<open>
  A client of \<open>sys_read_c\<close> that reads a regular file: the descriptor carries the jump table of files
  and keeps the promise of \<open>file_read\<close>.
\<close>

definition sys_client :: "int \<Rightarrow> addr \<Rightarrow> nat \<Rightarrow> 'a kbd_scheme \<Rightarrow> bool" where
  "sys_client fd buf len s \<longleftrightarrow> file_client fd buf len s \<and> file_op_ptr (get_fd s (nat fd)) = Some file_table"

definition sys_chunk :: "int \<Rightarrow> addr \<Rightarrow> nat \<Rightarrow> 'a kbd_scheme \<Rightarrow> byte list \<times> 'a kbd_scheme" where
  "sys_chunk fd buf len s =
     (case sys_read_c run_irq [] fd buf (int len) s of
        Some (r, s') \<Rightarrow> (bytes_at (mem s') buf (nat r), s')
      | None \<Rightarrow> ([], s))"

lemma used_not_free: "desc_used d \<longleftrightarrow> \<not> fd_free d"
proof -
  have "flags d AND 1 = flags d mod 2" by (simp add: and_one_eq)
  then show ?thesis by (simp add: desc_used_def fd_free_def USE_MASK_def)
qed

lemma sys_chunk_eq:
  assumes "sys_client fd buf len s"
  shows "sys_chunk fd buf len s = file_chunk fd buf len s"
    "file_op_ptr (get_fd (snd (file_chunk fd buf len s)) (nat fd)) = Some file_table"
proof -
  have a: "file_fd_ok fd s" "buf \<noteq> NULL" "len < 2147483648" "separate buf len (filesys_ptr s) (image_size (bblk s))"
    and p: "file_op_ptr (get_fd s (nat fd)) = Some file_table"
    using assms by (simp_all add: sys_client_def file_client_def file_access_def)
  then have v: "valid_fd fd s" by (simp add: file_fd_ok_def valid_fd_def Let_def used_not_free)
  show "sys_chunk fd buf len s = file_chunk fd buf len s"
    using sys_read_dispatch [OF v a(2) _ p, of "int len" run_irq "[]"] by (simp add: sys_chunk_def file_chunk_def read_ptr_def)
  have "nat fd < 8" "files_ok s" using file_fd_okD(2,3) [OF a(1) refl refl] by simp_all
  then show "file_op_ptr (get_fd (snd (file_chunk fd buf len s)) (nat fd)) = Some file_table"
    using p by (simp add: file_chunk_def file_read_eq [OF a refl] read_desc_def)
qed

interpretation sys_cursor: cursor_reader "sys_chunk fd buf len" "sys_client fd buf len" "fd_content fd" "fd_pos fd"
  for fd buf len
proof
  fix s :: "'a kbd_scheme"
  assume inv: "sys_client fd buf len s"
  then have c: "file_client fd buf len s" by (simp add: sys_client_def)
  note e = sys_chunk_eq [OF inv]
  show "sys_client fd buf len (snd (sys_chunk fd buf len s))"
    using file_cursor.inv_read [OF c] e by (simp add: sys_client_def)
  show "fd_content fd (snd (sys_chunk fd buf len s)) = fd_content fd s"
    using file_cursor.items_read [OF c] by (simp add: e(1))
  show "fst (sys_chunk fd buf len s) @ drop (fd_pos fd (snd (sys_chunk fd buf len s))) (fd_content fd s) =
      drop (fd_pos fd s) (fd_content fd s)"
    using file_cursor.chunk_read [OF c] by (simp add: e(1))
  show "fst (sys_chunk fd buf len s) \<noteq> []" if "fd_pos fd s < length (fd_content fd s)"
    using file_cursor.progress [OF c that] by (simp add: e(1))
qed

section \<open>Opening through the system call\<close>

text \<open>
  The arguments of \<open>sys_open_c\<close>: a name in memory and the local directory entry, apart from the image,
  the lookup buffers and each other.
\<close>

definition open_args :: "addr \<Rightarrow> addr \<Rightarrow> byte list \<Rightarrow> 'a fsys_scheme \<Rightarrow> bool" where
  "open_args dentry filename f s \<longleftrightarrow> fs_layout s \<and> files_ok s \<and> name_arg filename f s \<and> dentry_arg dentry s \<and>
     separate dentry 64 (filesys_ptr s) (image_size (bblk s)) \<and> separate dentry 64 filename (Suc (length f)) \<and>
     separate (open_dentry s) 64 filename (Suc (length f))"

text \<open>The lookup buffers and the entry: where opening writes.\<close>

definition open_regions :: "addr \<Rightarrow> 'a fsys_scheme \<Rightarrow> (addr \<times> nat) list" where
  "open_regions dentry s = [(filename_buf s, 34), (open_dentry s, 64), (dentry, 64)]"

lemma set_fd_lookup [simp]:
  "dir_lookup f (set_fd i d s) = dir_lookup f s" "n_entries (set_fd i d s) = n_entries s"
  "dir_ok (set_fd i d s) = dir_ok s" "fs_layout (set_fd i d s) = fs_layout s" "name_arg p f (set_fd i d s) = name_arg p f s"
  "dentry_arg p (set_fd i d s) = dentry_arg p s"
  by (simp_all add: dir_lookup_def n_entries_def dir_ok_def fs_layout_def name_arg_def dentry_arg_def)

lemma image_prefix: "4096 \<le> image_size bb" by (simp add: image_size_def)

lemma open_args_frame:
  assumes a: "open_args dentry filename f s" and fr: "frame_out (open_regions dentry s) (mem s) m"
  shows "fs_frame s m" "dir_ok (s\<lparr>mem := m\<rparr>)" "dir_lookup g (s\<lparr>mem := m\<rparr>) = dir_lookup g s" "fs_layout (s\<lparr>mem := m\<rparr>)"
    "name_arg filename f (s\<lparr>mem := m\<rparr>)" "\<And>x. in_region (filesys_ptr s) (image_size (bblk s)) x \<Longrightarrow> m x = mem s x"
proof -
  have sep: "separate b n (filesys_ptr s) (image_size (bblk s)) \<and> separate b n filename (Suc (length f))"
    if "(b, n) \<in> set (open_regions dentry s)" for b n
    using that a by (auto simp: open_regions_def open_args_def fs_layout_def name_arg_def)
  show img: "m x = mem s x" if "in_region (filesys_ptr s) (image_size (bblk s)) x" for x
    using frame_outD [OF fr _ that] sep by blast
  then show fs: "fs_frame s m" unfolding fs_frame_def using in_region_mono [OF _ image_prefix] by blast
  have ok: "dir_ok s" using a by (simp add: open_args_def fs_layout_def)
  note df = dir_frame [OF ok fs]
  show "dir_ok (s\<lparr>mem := m\<rparr>)" "dir_lookup g (s\<lparr>mem := m\<rparr>) = dir_lookup g s" by (rule df)+
  show "fs_layout (s\<lparr>mem := m\<rparr>)" using a df(3) by (simp add: open_args_def fs_layout_def)
  show "name_arg filename f (s\<lparr>mem := m\<rparr>)"
    using a cstr_at_frame [OF fr, of filename f] sep by (auto simp: open_args_def name_arg_def)
qed

lemma first_free_keep:
  assumes "files_ok s" "flags d = flags (get_fd s i)" "first_free s = Some i"
  shows "first_free (set_fd i d s) = Some i"
  using assms unfolding first_free_Some_iff by (auto simp: fd_free_def)

lemma sys_open_lookup:
  assumes a: "open_args dentry filename f s" and j: "dir_lookup f s = Some j" and i: "first_free s = Some i"
  obtains m where "frame_out (open_regions dentry s) (mem s) m"
    "sys_open_c dentry filename s =
       (let tbl = table_of_type (entry_type (filesys_ptr s) j (mem s))
        in do { (_, s2) \<leftarrow> open_ptr tbl filename (set_fd i ((get_fd s i)\<lparr>file_op_ptr := Some tbl\<rparr>) (s\<lparr>mem := m\<rparr>)); Some (int i, s2) })"
proof -
  have b: "dir_ok s" "name_arg filename f s" "dentry_arg dentry s" "filename \<noteq> NULL"
    using a by (simp_all add: open_args_def fs_layout_def name_arg_def)
  obtain m where m: "read_dentry_by_name filename dentry s = Some (0, s\<lparr>mem := m\<rparr>)"
    "frame_out (open_regions dentry s) (mem s) m" "load32 m (filetype_at dentry) = entry_type (filesys_ptr s) j (mem s)"
    unfolding open_regions_def using by_name_found [OF b(1-3) j] by metis
  show thesis using that [OF m(2)] m(1,3) i b(4) by (simp add: sys_open_c_def Let_def)
qed

lemma open_twice:
  fixes s :: "'a kbd_scheme"
  assumes "t = set_fd i d (s\<lparr>mem := m\<rparr>)" "s' = set_fd i d' (t\<lparr>mem := m2\<rparr>)"
    and "frame_out (open_regions dentry s) (mem s) m" "frame_out [(filename_buf t, 34), (open_dentry t, 64)] (mem t) m2"
  shows "s' = set_fd i d' (s\<lparr>mem := mem s'\<rparr>)" "frame_out (open_regions dentry s) (mem s) (mem s')"
proof -
  show "s' = set_fd i d' (s\<lparr>mem := mem s'\<rparr>)" unfolding assms(1,2) by (simp add: set_fd_def Let_def cur_files_def)
  have "frame_out (open_regions dentry s @ [(filename_buf s, 34), (open_dentry s, 64)]) (mem s) m2"
    by (rule frame_out_trans [OF assms(3)]) (use assms(1,4) in simp)
  then show "frame_out (open_regions dentry s) (mem s) (mem s')"
    unfolding assms(2) by (simp, elim frame_out_weaken) (auto simp: open_regions_def)
qed

lemma sys_open_regular:
  fixes s :: "'a kbd_scheme"
  assumes a: "open_args dentry filename f s" and j: "dir_lookup f s = Some j" and i: "first_free s = Some i"
    and ty: "entry_type (filesys_ptr s) j (mem s) = REG_FILE"
    and ok: "inode_ok (filesys_ptr s) (bblk s) (entry_inode (filesys_ptr s) j (mem s)) (mem s)"
  obtains s' d where "sys_open_c dentry filename s = Some (int i, s')" "file_fd_ok (int i) s'" "fd_pos (int i) s' = 0"
    "fd_content (int i) s' = file_content (filesys_ptr s) (bblk s) (entry_inode (filesys_ptr s) j (mem s)) (mem s)"
    "file_op_ptr (get_fd s' i) = Some file_table" "filesys_ptr s' = filesys_ptr s" "bblk s' = bblk s"
    "s' = set_fd i d (s\<lparr>mem := mem s'\<rparr>)" "frame_out (open_regions dentry s) (mem s) (mem s')"
proof -
  have tbl: "table_of_type REG_FILE = file_table"
    by (simp add: table_of_type_def REG_FILE_def RTC_FILE_def DIR_FILE_def)
  obtain m where fr: "frame_out (open_regions dentry s) (mem s) m"
    and op: "sys_open_c dentry filename s = do { (_, s2) \<leftarrow> file_open filename
        (set_fd i ((get_fd s i)\<lparr>file_op_ptr := Some file_table\<rparr>) (s\<lparr>mem := m\<rparr>)); Some (int i, s2) }"
    using sys_open_lookup [OF a j i] by (auto simp: ty tbl open_ptr_def)
  note k = open_args_frame [OF a fr]
  have fk: "files_ok s" "dir_ok s" "2 \<le> i" "i < 8" using a i by (simp_all add: open_args_def fs_layout_def first_free_Some_iff)
  have j63: "j < 63" using dir_lookup_less [OF j] fk(2) by (simp add: dir_ok_def)
  note ent = entry_frame [OF k(1) j63] and agree = image_agree [OF ok k(6)]
  define d where "d = (get_fd s i)\<lparr>file_op_ptr := Some file_table\<rparr>"
  define t where "t = set_fd i d (s\<lparr>mem := m\<rparr>)"
  have ff: "first_free t = Some i" unfolding t_def by (rule first_free_keep) (use fk i in \<open>simp_all add: d_def\<close>)
  obtain m2 where m2: "file_open filename t = Some (0, set_fd i ((get_fd t i)\<lparr>
      inode := entry_inode (filesys_ptr s) j (mem s), file_pos := 0, flags := 0x105\<rparr>) (t\<lparr>mem := m2\<rparr>))"
    "frame_out [(filename_buf t, 34), (open_dentry t, 64)] (mem t) m2"
    using file_open_found [of t filename f j i] k ent ty ff j by (auto simp: t_def)
  define s' where "s' = set_fd i ((get_fd t i)\<lparr>inode := entry_inode (filesys_ptr s) j (mem s), file_pos := 0, flags := 0x105\<rparr>)
    (t\<lparr>mem := m2\<rparr>)"
  have lay: "fs_layout t" "files_ok t" "inode_ok (filesys_ptr t) (bblk t) (entry_inode (filesys_ptr s) j (mem s)) (mem t)"
    using k(4) fk agree by (simp_all add: t_def)
  note rdy = file_open_ready [OF lay(1) m2(2) lay(3) ff lay(2) _ _ _ s'_def]
  show thesis
  proof (rule that [of s'])
    show "sys_open_c dentry filename s = Some (int i, s')"
      unfolding op d_def [symmetric] t_def [symmetric] m2(1) s'_def by simp
    show "file_fd_ok (int i) s'" "fd_pos (int i) s' = 0" using rdy by simp_all
    show "fd_content (int i) s' = file_content (filesys_ptr s) (bblk s) (entry_inode (filesys_ptr s) j (mem s)) (mem s)"
      using rdy(2) agree by (simp add: t_def)
    show "file_op_ptr (get_fd s' i) = Some file_table" "filesys_ptr s' = filesys_ptr s" "bblk s' = bblk s"
      using fk by (simp_all add: s'_def t_def d_def)
    show "s' = set_fd i ((get_fd t i)\<lparr>inode := entry_inode (filesys_ptr s) j (mem s), file_pos := 0, flags := 0x105\<rparr>) (s\<lparr>mem := mem s'\<rparr>)"
      "frame_out (open_regions dentry s) (mem s) (mem s')"
      by (rule open_twice [OF t_def s'_def fr m2(2)])+
  qed
qed

section \<open>Listing a directory through the system call\<close>

definition sys_dir_client :: "int \<Rightarrow> addr \<Rightarrow> nat \<Rightarrow> 'a kbd_scheme \<Rightarrow> bool" where
  "sys_dir_client fd buf n s \<longleftrightarrow> dir_client fd buf n s \<and> file_op_ptr (get_fd s (nat fd)) = Some dir_table"

definition sys_dir_chunk :: "int \<Rightarrow> addr \<Rightarrow> nat \<Rightarrow> 'a kbd_scheme \<Rightarrow> byte list list \<times> 'a kbd_scheme" where
  "sys_dir_chunk fd buf n s =
     (case sys_read_c run_irq [] fd buf (int n) s of
        Some (r, s') \<Rightarrow> (if 0 < r then [bytes_at (mem s') buf (nat r)] else [], s')
      | None \<Rightarrow> ([], s))"

lemma sys_dir_chunk_eq:
  assumes "sys_dir_client fd buf n s"
  shows "sys_dir_chunk fd buf n s = dir_chunk fd buf n s"
    "file_op_ptr (get_fd (snd (dir_chunk fd buf n s)) (nat fd)) = Some dir_table"
proof -
  have c: "dir_client fd buf n s" and p: "file_op_ptr (get_fd s (nat fd)) = Some dir_table"
    using assms by (simp_all add: sys_dir_client_def)
  then have d: "dir_fd_ok fd s" "dir_buf_ok buf s" by (simp_all add: dir_client_def)
  have v: "valid_fd fd s" "buf \<noteq> NULL" "nat fd < 8" "files_ok s"
    using d used_not_free [of "get_fd s (nat fd)"] by (auto simp: valid_fd_def dir_fd_ok_def dir_buf_ok_def desc_used_def)
  show "sys_dir_chunk fd buf n s = dir_chunk fd buf n s"
    using sys_read_dispatch [OF v(1,2) _ p, of "int n" run_irq "[]"] by (simp add: sys_dir_chunk_def dir_chunk_def read_ptr_def)
  show "file_op_ptr (get_fd (snd (dir_chunk fd buf n s)) (nat fd)) = Some dir_table"
  proof (cases "n_entries s \<le> fd_pos fd s")
    case True
    then show ?thesis using p by (simp add: dir_chunk_end [OF c])
  next
    case False
    then have q: "fd_pos fd s < n_entries s" by simp
    obtain m1 where "dir_read fd buf (int n) s = Some (int (min n (length (dir_names s ! fd_pos fd s))),
        set_fd (nat fd) ((get_fd s (nat fd))\<lparr>file_pos := file_pos (get_fd s (nat fd)) + 1\<rparr>) (s\<lparr>mem := m1\<rparr>))"
      using dir_read_name [OF d q refl refl] by blast
    then show ?thesis using p v by (simp add: dir_chunk_def)
  qed
qed

interpretation sys_dir_cursor: cursor_reader "sys_dir_chunk fd buf n" "sys_dir_client fd buf n" dir_names "fd_pos fd"
  for fd buf n
proof
  fix s :: "'a kbd_scheme"
  assume inv: "sys_dir_client fd buf n s"
  then have c: "dir_client fd buf n s" by (simp add: sys_dir_client_def)
  note e = sys_dir_chunk_eq [OF inv]
  show "sys_dir_client fd buf n (snd (sys_dir_chunk fd buf n s))"
    using dir_cursor.inv_read [OF c] e by (simp add: sys_dir_client_def)
  show "dir_names (snd (sys_dir_chunk fd buf n s)) = dir_names s"
    using dir_cursor.items_read [OF c] by (simp add: e(1))
  show "fst (sys_dir_chunk fd buf n s) @ drop (fd_pos fd (snd (sys_dir_chunk fd buf n s))) (dir_names s) =
      drop (fd_pos fd s) (dir_names s)"
    using dir_cursor.chunk_read [OF c] by (simp add: e(1))
  show "fst (sys_dir_chunk fd buf n s) \<noteq> []" if "fd_pos fd s < length (dir_names s)"
    using dir_cursor.progress [OF c that] by (simp add: e(1))
qed

lemma sys_open_directory:
  fixes s :: "'a kbd_scheme"
  assumes a: "open_args dentry filename f s" and j: "dir_lookup f s = Some j" and i: "first_free s = Some i"
    and ty: "entry_type (filesys_ptr s) j (mem s) = DIR_FILE"
  obtains s' d where "sys_open_c dentry filename s = Some (int i, s')" "dir_fd_ok (int i) s'" "fd_pos (int i) s' = 0"
    "dir_names s' = dir_names s" "file_op_ptr (get_fd s' i) = Some dir_table" "filesys_ptr s' = filesys_ptr s"
    "read_dentry s' = read_dentry s" "s' = set_fd i d (s\<lparr>mem := mem s'\<rparr>)" "frame_out (open_regions dentry s) (mem s) (mem s')"
    "flags (get_fd s' i) = 3"
proof -
  have tbl: "table_of_type DIR_FILE = dir_table"
    by (simp add: table_of_type_def RTC_FILE_def DIR_FILE_def)
  obtain m where fr: "frame_out (open_regions dentry s) (mem s) m"
    and op: "sys_open_c dentry filename s = do { (_, s2) \<leftarrow> dir_open filename
        (set_fd i ((get_fd s i)\<lparr>file_op_ptr := Some dir_table\<rparr>) (s\<lparr>mem := m\<rparr>)); Some (int i, s2) }"
    using sys_open_lookup [OF a j i] by (auto simp: ty tbl open_ptr_def)
  note k = open_args_frame [OF a fr]
  have fk: "files_ok s" "dir_ok s" "2 \<le> i" "i < 8" using a i by (simp_all add: open_args_def fs_layout_def first_free_Some_iff)
  have j63: "j < 63" using dir_lookup_less [OF j] fk(2) by (simp add: dir_ok_def)
  note ent = entry_frame [OF k(1) j63]
  define d where "d = (get_fd s i)\<lparr>file_op_ptr := Some dir_table\<rparr>"
  define t where "t = set_fd i d (s\<lparr>mem := m\<rparr>)"
  have ff: "first_free t = Some i" unfolding t_def by (rule first_free_keep) (use fk i in \<open>simp_all add: d_def\<close>)
  obtain m2 where m2: "dir_open filename t = Some (0, set_fd i ((get_fd t i)\<lparr>inode := 0, file_pos := 0, flags := 3\<rparr>) (t\<lparr>mem := m2\<rparr>))"
    "frame_out [(filename_buf t, 34), (open_dentry t, 64)] (mem t) m2"
    using dir_open_found [of t filename f j i] k ent ty ff j by (auto simp: t_def)
  have okt: "dir_ok t" using k(2) by (simp add: t_def)
  have "fs_frame t m2"
    using okt by (intro fs_frame_out [OF _ m2(2)]) (auto simp: fs_frame_def dir_ok_def)
  note df = dir_frame [OF okt this] and df1 = dir_frame [OF fk(2) k(1)]
  define s' where "s' = set_fd i ((get_fd t i)\<lparr>inode := 0, file_pos := 0, flags := 3\<rparr>) (t\<lparr>mem := m2\<rparr>)"
  show thesis
  proof (rule that [of s'])
    show "sys_open_c dentry filename s = Some (int i, s')"
      unfolding op d_def [symmetric] t_def [symmetric] m2(1) s'_def by simp
    show "dir_names s' = dir_names s" unfolding s'_def df(2) using df1(2) by (simp add: t_def)
    show "dir_fd_ok (int i) s'" using df(1) fk by (simp add: dir_fd_ok_def s'_def t_def USE_MASK_def)
    show "fd_pos (int i) s' = 0" "file_op_ptr (get_fd s' i) = Some dir_table" "filesys_ptr s' = filesys_ptr s"
      "read_dentry s' = read_dentry s" "flags (get_fd s' i) = 3"
      using fk by (simp_all add: s'_def t_def d_def fd_pos_def)
    show "s' = set_fd i ((get_fd t i)\<lparr>inode := 0, file_pos := 0, flags := 3\<rparr>) (s\<lparr>mem := mem s'\<rparr>)"
      "frame_out (open_regions dentry s) (mem s) (mem s')"
      by (rule open_twice [OF t_def s'_def fr m2(2)])+
  qed
qed

section \<open>Failed opens\<close>

lemma sys_open_missing:
  assumes a: "open_args dentry filename f s" and no: "dir_lookup f s = None"
  obtains m where "sys_open_c dentry filename s = Some (-1, s\<lparr>mem := m\<rparr>)" "frame_out (open_regions dentry s) (mem s) m"
proof -
  have b: "dir_ok s" "name_arg filename f s" "dentry \<noteq> NULL" "filename \<noteq> NULL"
    using a by (simp_all add: open_args_def fs_layout_def name_arg_def dentry_arg_def)
  have "f \<notin> set (dir_names s)" using no by (auto simp: dir_lookup_def find_None_iff dir_names_def)
  then obtain m where m: "read_dentry_by_name filename dentry s = Some (-1, s\<lparr>mem := m\<rparr>)" "frame_out [(filename_buf s, 34)] (mem s) m"
    using by_name_missing [OF b(1-3)] by blast
  have "frame_out (open_regions dentry s) (mem s) m"
    using m(2) by (rule frame_out_weaken) (simp add: open_regions_def)
  then show thesis using that m(1) b(4) by (simp add: sys_open_c_def)
qed

lemma sys_open_full:
  assumes a: "open_args dentry filename f s" and j: "dir_lookup f s = Some j" and i: "first_free s = None"
  obtains m where "sys_open_c dentry filename s = Some (-1, s\<lparr>mem := m\<rparr>)" "frame_out (open_regions dentry s) (mem s) m"
proof -
  have b: "dir_ok s" "name_arg filename f s" "dentry_arg dentry s" "filename \<noteq> NULL"
    using a by (simp_all add: open_args_def fs_layout_def name_arg_def)
  obtain m where "read_dentry_by_name filename dentry s = Some (0, s\<lparr>mem := m\<rparr>)" "frame_out (open_regions dentry s) (mem s) m"
    unfolding open_regions_def using by_name_found [OF b(1-3) j] by metis
  then show thesis using that i b(4) by (simp add: sys_open_c_def)
qed

section \<open>Arguments\<close>

lemma find_space_after:
  "32 \<notin> set (drop i name) \<Longrightarrow> i \<le> length name \<Longrightarrow> find_space (name @ 32 # rest) i = Some (length name)"
proof (induction "length name - i" arbitrary: i)
  case 0
  then have "i = length name" by simp
  then show ?case by (subst find_space.simps) (simp add: nth_append)
next
  case (Suc k)
  then have i: "i < length name" by simp
  then have "name ! i \<in> set (drop i name)" by (metis Cons_nth_drop_Suc list.set_intros(1))
  then have "(name @ 32 # rest) ! i \<noteq> 32" using Suc.prems(1) i by (auto simp: nth_append)
  moreover have "32 \<notin> set (drop (Suc i) name)" using Suc.prems(1) set_drop_subset_set_drop [of i "Suc i" name] by auto
  ultimately show ?case using Suc.hyps i by (subst find_space.simps) (simp add: Suc_diff_Suc)
qed

lemma copy_args_string:
  assumes inp: "inp = pre @ args @ 0 # rest" and z: "0 \<notin> set args" and len: "length pre + 2 * length args < 4294967296"
    and room: "\<And>i. i \<le> length args \<Longrightarrow> (of_nat i :: u32) < nb - of_nat (length pre + i)"
  shows "i \<le> length args \<Longrightarrow> copy_args inp buf nb i (length pre + i) (store_bytes m buf (take i args)) =
     Some (length args, store_bytes m buf (args @ [0]))"
proof (induction "length args - i" arbitrary: i)
  case 0
  then have i: "i = length args" by simp
  have "inp ! (length pre + i) = 0" "length pre + i < length inp" using i inp by (simp_all add: nth_append)
  moreover have "(store_bytes m buf args)(buf + of_nat (length args) := 0) = store_bytes m buf (args @ [0])"
    using len by (intro store_bytes_snoc) simp
  ultimately show ?case using room [of i] i by (subst copy_args.simps) (simp add: Let_def)
next
  case (Suc k)
  then have i: "i < length args" by simp
  have b: "inp ! (length pre + i) = args ! i" "length pre + i < length inp" using i inp by (simp_all add: nth_append)
  have nz: "args ! i \<noteq> 0" using z nth_mem [OF i] by metis
  have "(store_bytes m buf (take i args))(buf + of_nat i := args ! i) = store_bytes m buf (take (Suc i) args)"
    using store_bytes_snoc [of "take i args" m buf "args ! i"] i len by (simp add: take_Suc_conv_app_nth)
  then have "copy_args inp buf nb i (length pre + i) (store_bytes m buf (take i args)) =
      copy_args inp buf nb (Suc i) (length pre + Suc i) (store_bytes m buf (take (Suc i) args))"
    using room [of i] i b nz by (subst copy_args.simps) (simp add: Let_def)
  also have "\<dots> = Some (length args, store_bytes m buf (args @ [0]))"
    using Suc.hyps i by (intro Suc.hyps(1)) auto
  finally show ?case .
qed

lemma getargs_copies:
  fixes s :: "'a kbd_scheme"
  assumes inp: "input (pcb_heap s (cur_pcb s)) = name @ [32] @ args @ 0 # rest" and nm: "32 \<notin> set name" and z: "0 \<notin> set args"
    and len: "length name + 2 * length args < 2147483648"
    and room: "int (length name + 1 + 2 * length args) < nbytes \<and> nbytes < 2147483648 \<or> 0 \<le> nbytes \<and> nbytes \<le> int (length name)"
  shows "sys_getargs_c buf nbytes s = Some (if args = [] then -1 else 0, s\<lparr>mem := store_bytes (mem s) buf (args @ [0])\<rparr>)"
proof -
  let ?pre = "name @ [32]"
  define nb where "nb = nat nbytes"
  have nb: "of_int nbytes = (of_nat nb :: u32)" "nb < 2147483648" using room len by (auto simp: nb_def)
  have room': "length name + 1 + 2 * length args < nb \<or> nb \<le> length name" using room by (auto simp: nb_def)
  have lt: "(of_nat i :: u32) < of_nat nb - of_nat (length ?pre + i)" if i: "i \<le> length args" for i
  proof (cases "nb \<le> length name")
    case True
    have "unat (of_nat nb - of_nat (length ?pre + i) :: u32) = 4294967296 + nb - (length ?pre + i)"
      using True i len nb(2) by (subst unat_sub_if') (auto simp: unat_of_nat_addr simp del: of_nat_add of_nat_Suc)
    then show ?thesis using True i len by (simp add: word_less_nat_alt unat_of_nat_addr)
  next
    case False
    then have r: "length ?pre + 2 * length args < nb" using room' by simp
    have "unat (of_nat nb - of_nat (length ?pre + i) :: u32) = nb - (length ?pre + i)"
      using r i len nb(2) by (subst unat_sub_if') (auto simp: unat_of_nat_addr simp del: of_nat_add of_nat_Suc)
    then show ?thesis using r i len by (simp add: word_less_nat_alt unat_of_nat_addr)
  qed
  have sp: "find_space (input (pcb_heap s (cur_pcb s))) 0 = Some (length name)"
    unfolding inp using find_space_after [of 0 name "args @ 0 # rest"] nm by simp
  have "copy_args (input (pcb_heap s (cur_pcb s))) buf (of_nat nb) 0 (length ?pre + 0) (store_bytes (mem s) buf (take 0 args)) =
      Some (length args, store_bytes (mem s) buf (args @ [0]))"
    by (rule copy_args_string [OF _ z _ lt]) (use inp len in simp_all)
  then show ?thesis using sp by (simp add: sys_getargs_c_def nb(1))
qed

section \<open>Closing what was opened\<close>

lemma sys_open_driver:
  fixes s :: "'a kbd_scheme"
  assumes a: "open_args dentry filename f s" and j: "dir_lookup f s = Some j" and i: "first_free s = Some i"
    and ty: "entry_type (filesys_ptr s) j (mem s) \<in> {RTC_FILE, DIR_FILE, REG_FILE}"
    and tbl: "tbl = table_of_type (entry_type (filesys_ptr s) j (mem s))"
  obtains t s' where "sys_open_c dentry filename s = Some (int i, s')" "open_ptr tbl filename t = Some (0, s')"
    "cur_files t = (cur_files s)[i := (get_fd s i)\<lparr>file_op_ptr := Some tbl\<rparr>]" "first_free_from (cur_files t) 2 = Some i"
proof -
  obtain m where fr: "frame_out (open_regions dentry s) (mem s) m"
    and op: "sys_open_c dentry filename s = do { (_, s2) \<leftarrow> open_ptr tbl filename
        (set_fd i ((get_fd s i)\<lparr>file_op_ptr := Some tbl\<rparr>) (s\<lparr>mem := m\<rparr>)); Some (int i, s2) }"
    using sys_open_lookup [OF a j i] by (metis tbl)
  note k = open_args_frame [OF a fr]
  have fk: "files_ok s" "dir_ok s" using a by (simp_all add: open_args_def fs_layout_def)
  have j63: "j < 63" using dir_lookup_less [OF j] fk(2) by (simp add: dir_ok_def)
  note ent = entry_frame [OF k(1) j63]
  define t where "t = set_fd i ((get_fd s i)\<lparr>file_op_ptr := Some tbl\<rparr>) (s\<lparr>mem := m\<rparr>)"
  have ff: "first_free t = Some i" unfolding t_def by (rule first_free_keep) (use fk i in simp_all)
  have arg: "dir_ok t" "name_arg filename f t" "dir_lookup f t = Some j"
    "entry_type (filesys_ptr t) j (mem t) = entry_type (filesys_ptr s) j (mem s)"
    using k ent j by (simp_all add: t_def)
  have "\<exists>s'. open_ptr tbl filename t = Some (0, s')"
  proof -
    consider "entry_type (filesys_ptr s) j (mem s) = RTC_FILE" | "entry_type (filesys_ptr s) j (mem s) = DIR_FILE"
      | "entry_type (filesys_ptr s) j (mem s) = REG_FILE" using ty by blast
    then show ?thesis
    proof cases
      case 1
      then have "tbl = rtc_table" by (simp add: tbl table_of_type_def)
      then show ?thesis using ff by (simp add: open_ptr_def rtc_open_def Let_def rtc_open_state)
    next
      case 2
      then have "tbl = dir_table" by (simp add: tbl table_of_type_def RTC_FILE_def DIR_FILE_def)
      moreover have "\<exists>s'. dir_open filename t = Some (0, s')"
        by (rule dir_open_found [OF arg(1-3) ff]) (use arg(4) 2 in auto)
      ultimately show ?thesis by (simp add: open_ptr_def)
    next
      case 3
      then have "tbl = file_table" by (simp add: tbl table_of_type_def RTC_FILE_def DIR_FILE_def REG_FILE_def)
      moreover have "\<exists>s'. file_open filename t = Some (0, s')"
        by (rule file_open_found [OF arg(1-3) ff]) (use arg(4) 3 in auto)
      ultimately show ?thesis by (simp add: open_ptr_def)
    qed
  qed
  then obtain s' where s': "open_ptr tbl filename t = Some (0, s')" ..
  show thesis using that [OF _ s'] op s' ff by (simp add: t_def first_free_def)
qed

lemma file_open_keeps_table:
  assumes "file_open filename t = Some (0, s')" "first_free t = Some i" "files_ok t"
  shows "file_op_ptr (get_fd s' i) = file_op_ptr (get_fd t i)"
proof -
  obtain r1 s1 where rd: "read_dentry_by_name filename (open_dentry t) t = Some (r1, s1)"
    using assms by (auto simp: file_open_def bind_eq_Some_conv)
  then obtain m where "s1 = t\<lparr>mem := m\<rparr>" using by_name_mem(1) by blast
  moreover have "i < 8" using assms(2) by (simp add: first_free_Some_iff)
  ultimately show ?thesis using assms rd by (auto simp: file_open_def split: if_splits)
qed

lemma dir_open_keeps_table:
  assumes "dir_open filename t = Some (0, s')" "first_free t = Some i" "files_ok t"
  shows "file_op_ptr (get_fd s' i) = file_op_ptr (get_fd t i)"
proof -
  obtain r1 s1 where rd: "read_dentry_by_name filename (open_dentry t) t = Some (r1, s1)"
    using assms by (auto simp: dir_open_def bind_eq_Some_conv split: if_splits)
  then obtain m where "s1 = t\<lparr>mem := m\<rparr>" using by_name_mem(1) by blast
  moreover have "i < 8" using assms(2) by (simp add: first_free_Some_iff)
  ultimately show ?thesis using assms rd by (auto simp: dir_open_def split: if_splits)
qed

lemma rtc_open_keeps_table:
  assumes "rtc_open filename t = Some (0, s')" "first_free t = Some i" "files_ok t"
  shows "file_op_ptr (get_fd s' i) = file_op_ptr (get_fd t i)"
proof -
  define u where "u = (enable_irq 8 (enable_irq 2 (program_rate init_rate (cli t))))\<lparr>rtc_interrupt := 0\<rparr>"
  have u: "cur_files u = cur_files t" "first_free u = Some i" using rtc_open_state(1,2) [of t] assms(2) by (simp_all add: u_def)
  have i: "i < 8" using assms(2) by (simp add: first_free_Some_iff)
  have "\<exists>x y z. s' = sti (set_fd i ((get_fd u i)\<lparr>inode := x, file_pos := y, flags := z\<rparr>) u)"
    using assms(1) u(2) unfolding rtc_open_def Let_def u_def [symmetric] by auto
  then obtain d where s': "s' = sti (set_fd i d u)" and d: "file_op_ptr d = file_op_ptr (get_fd u i)" by fastforce
  have "cur_files s' = cur_files (set_fd i d u)" unfolding s' by (rule cur_files_cong) simp_all
  then show ?thesis using u i d assms(3) by (simp add: get_fd_def files_ok_def)
qed

lemma open_keeps_table:
  assumes "open_ptr tbl filename t = Some (0, s')" "first_free t = Some i" "files_ok t" "tbl \<noteq> terminal_table"
  shows "file_op_ptr (get_fd s' i) = file_op_ptr (get_fd t i)"
  using assms file_open_keeps_table [OF _ assms(2,3)] dir_open_keeps_table [OF _ assms(2,3)] rtc_open_keeps_table [OF _ assms(2,3)]
  by (cases tbl) (auto simp: open_ptr_def)

text \<open>Through the jump tables the three drivers still meet their contract.\<close>

interpretation rtc_ptr: fd_driver cur_files "open_ptr rtc_table filename" "close_ptr rtc_table"
  for filename
  unfolding open_ptr_def close_ptr_def fd_table.case by (rule rtc_driver.fd_driver_axioms)

interpretation dir_ptr: fd_driver cur_files "open_ptr dir_table filename" "close_ptr dir_table"
  for filename
  unfolding open_ptr_def close_ptr_def fd_table.case by (rule dir_driver.fd_driver_axioms)

interpretation file_ptr: fd_driver cur_files "open_ptr file_table filename" "close_ptr file_table"
  for filename
  unfolding open_ptr_def close_ptr_def fd_table.case by (rule file_driver.fd_driver_axioms)

lemma table_driver: "tbl \<noteq> terminal_table \<Longrightarrow> fd_driver cur_files (open_ptr tbl filename) (close_ptr tbl)"
  using rtc_ptr.fd_driver_axioms dir_ptr.fd_driver_axioms file_ptr.fd_driver_axioms by (cases tbl) auto

lemma sys_open_close:
  fixes s :: "'a kbd_scheme"
  assumes a: "open_args dentry filename f s" and j: "dir_lookup f s = Some j" and i: "first_free s = Some i"
    and ty: "entry_type (filesys_ptr s) j (mem s) \<in> {RTC_FILE, DIR_FILE, REG_FILE}"
  obtains s' s'' d where "sys_open_c dentry filename s = Some (int i, s')" "sys_close_c (int i) s' = Some (0, s'')"
    "\<not> fd_free (get_fd s' i)" "cur_files s'' = (cur_files s)[i := d]" "fd_free d"
proof -
  define tbl where "tbl = table_of_type (entry_type (filesys_ptr s) j (mem s))"
  have nt: "tbl \<noteq> terminal_table" using ty by (auto simp: tbl_def table_of_type_def)
  obtain t s' where o: "sys_open_c dentry filename s = Some (int i, s')" "open_ptr tbl filename t = Some (0, s')"
    and ft: "cur_files t = (cur_files s)[i := (get_fd s i)\<lparr>file_op_ptr := Some tbl\<rparr>]" "first_free_from (cur_files t) 2 = Some i"
    using sys_open_driver [OF a j i ty tbl_def] by blast
  have i8: "2 \<le> i" "i < 8" and len: "length (cur_files s) = 8" "files_ok t" "length (cur_files t) = 8"
    using i a ft(1) by (auto simp: first_free_Some_iff open_args_def files_ok_def)
  obtain i' where i': "first_free_from (cur_files t) 2 = Some i'" "\<not> fd_free (cur_files s' ! i')"
    "\<And>k. k \<noteq> i' \<Longrightarrow> cur_files s' ! k = cur_files t ! k" "length (cur_files s') = 8"
    using fd_driver.open_takes_one [OF table_driver [OF nt] len(3) o(2)] by metis
  then have ii: "i' = i" using ft(2) by simp
  have "file_op_ptr (get_fd s' i) = Some tbl"
    using open_keeps_table [OF o(2) _ len(2) nt, of i] ft i8 len by (simp add: first_free_def get_fd_def)
  moreover obtain s'' where c: "close_ptr tbl (int i) s' = Some (0, s'')"
    using fd_driver.close_opened [OF table_driver [OF nt] len(3) o(2) ft(2)] by blast
  ultimately have cl: "sys_close_c (int i) s' = Some (0, s'')"
    using i8 i'(2) ii by (simp add: sys_close_c_def FD_SIZE_def fd_free_def get_fd_def)
  have cs: "cur_files s'' = (cur_files s')[i := (cur_files s' ! i)\<lparr>flags := 0\<rparr>]"
    using fd_driver.close_success [OF table_driver [OF nt] c] by simp
  have "cur_files s'' = (cur_files s)[i := (cur_files s' ! i)\<lparr>flags := 0\<rparr>]"
  proof (rule nth_equalityI)
    fix k assume "k < length (cur_files s'')"
    then show "cur_files s'' ! k = (cur_files s)[i := (cur_files s' ! i)\<lparr>flags := 0\<rparr>] ! k"
      using i'(3) [of k] i'(4) ii i8(2) len by (cases "k = i") (simp_all add: cs ft(1))
  qed (use cs i' len in simp)
  then show thesis using that [OF o(1) cl] i'(2) ii by (simp add: get_fd_def fd_free_def)
qed

section \<open>A concrete kernel\<close>

text \<open>The sample image of the file system theories in a kernel with paging; the tables are where the linker put them.\<close>

definition sample_kernel :: paging where
  "sample_kernel = kbd.extend (rtc.extend (fsys.extend sample_fsys (rtc.fields 0)) (kbd.fields 0x213000 0 0 0 0 0 0 0))
     (paging.fields 0x410000 0x411000 0x412000 0x11 0 0 32 (\<lambda>_ _. 0))"

lemma same_fsys:
  fixes s :: "'a fsys_scheme" and t :: "'b fsys_scheme"
  assumes "mem t = mem s" "filesys_ptr t = filesys_ptr s" "bblk t = bblk s" "open_dentry t = open_dentry s"
    "read_dentry t = read_dentry s" "filename_buf t = filename_buf s" "cur_files t = cur_files s"
  shows "fs_layout t = fs_layout s" "name_arg p f t = name_arg p f s" "dir_lookup f t = dir_lookup f s" "files_ok t = files_ok s"
    "first_free t = first_free s" "get_fd t i = get_fd s i" "dir_ok t = dir_ok s" "dir_names t = dir_names s"
  using assms by (simp_all add: fs_layout_def dir_ok_def name_arg_def dir_lookup_def files_ok_def first_free_def get_fd_def
      n_entries_def dir_names_def)

lemma sample_kernel_fields:
  "mem sample_kernel = sample_mem" "filesys_ptr sample_kernel = 0x100000" "bblk sample_kernel = bblk sample_fsys"
  "open_dentry sample_kernel = 0x210000" "read_dentry sample_kernel = 0x211000" "filename_buf sample_kernel = 0x212000"
  "cur_files sample_kernel = cur_files sample_fsys"
  by (simp_all add: sample_kernel_def kbd.defs rtc.defs fsys.defs paging.defs cur_files_def) (simp_all add: sample_fsys_def)

lemma sample_kernel_view:
  "fs_layout sample_kernel = fs_layout sample_fsys" "name_arg p f sample_kernel = name_arg p f sample_fsys"
  "dir_lookup f sample_kernel = dir_lookup f sample_fsys" "files_ok sample_kernel = files_ok sample_fsys"
  "first_free sample_kernel = first_free sample_fsys" "get_fd sample_kernel i = get_fd sample_fsys i"
  "dir_ok sample_kernel = dir_ok sample_fsys" "dir_names sample_kernel = dir_names sample_fsys"
  by (rule same_fsys; simp add: sample_kernel_fields; simp add: sample_fsys_def)+

lemma sample_first_free: "first_free sample_fsys = Some 4"
  by (simp add: first_free_def cur_files_def sample_fsys_def sample_pcb_def sample_files_def first_free_from.simps fd_free_def free_desc_def)

lemma sample_entry_types:
  "entry_type 0x100000 2 sample_mem = REG_FILE" "entry_inode 0x100000 2 sample_mem = 0" "entry_type 0x100000 0 sample_mem = DIR_FILE"
  by (simp_all add: entry_type_def entry_inode_def entry_ptr_def load32_def sample_simps REG_FILE_def DIR_FILE_def)

lemma sample_dir_names:
  "dir_lookup [46] sample_fsys = Some 0" "dir_names sample_fsys = [[46], [114, 116, 99], [97, 46, 116, 120, 116]]"
  by (simp_all add: dir_lookup_def dir_names_def sample_frame entry_name_def upt_3 sample_entries)

lemma sample_dot_arg: "name_arg 0x200100 [46] sample_fsys"
  unfolding name_arg_def cstr_at_def by (simp add: sample_simps bytes_at_def upt_rec separate_def)

lemmas sample_entry_info = sample_entry_types sample_dir_names sample_dot_arg

lemma sample_open_args: "open_args 0x220000 0x200000 [97, 46, 116, 120, 116] sample_kernel"
  "open_args 0x220000 0x200100 [46] sample_kernel"
  using sample_fs_layout sample_fds(1) sample_name_arg sample_entry_info(6) sample_frame
  by (simp_all add: open_args_def sample_kernel_view dentry_arg_def sample_kernel_fields)
    (simp_all add: separate_def)

section \<open>Properties\<close>

text \<open>
  C30. Opening a regular file and reading it to its end through system calls delivers the file: \<open>sys_open_c\<close>
  returns the least free descriptor, and calls of \<open>sys_read_c\<close> with a buffer of any positive size, as many
  as the file has bytes, return the bytes of the file in order, across block boundaries.
\<close>

theorem open_and_read_whole_file:
  fixes s :: "'a kbd_scheme"
  assumes "open_args dentry filename f s" "dir_lookup f s = Some j" "first_free s = Some i"
    and "entry_type (filesys_ptr s) j (mem s) = REG_FILE"
    and "inode_ok (filesys_ptr s) (bblk s) (entry_inode (filesys_ptr s) j (mem s)) (mem s)"
    and "buf \<noteq> NULL" "0 < len" "len < 2147483648" "separate buf len (filesys_ptr s) (image_size (bblk s))"
    and "inode_size (filesys_ptr s) (entry_inode (filesys_ptr s) j (mem s)) (mem s) \<le> n"
  shows "\<exists>s'. sys_open_c dentry filename s = Some (int i, s') \<and>
     read_seq (sys_chunk (int i) buf len) n s' =
       file_content (filesys_ptr s) (bblk s) (entry_inode (filesys_ptr s) j (mem s)) (mem s)"
proof -
  obtain s' where o: "sys_open_c dentry filename s = Some (int i, s')" "file_fd_ok (int i) s'" "fd_pos (int i) s' = 0"
    "fd_content (int i) s' = file_content (filesys_ptr s) (bblk s) (entry_inode (filesys_ptr s) j (mem s)) (mem s)"
    "file_op_ptr (get_fd s' i) = Some file_table" "filesys_ptr s' = filesys_ptr s" "bblk s' = bblk s"
    using sys_open_regular [OF assms(1-5)] by blast
  then have "sys_client (int i) buf len s'" using assms(6-9) by (simp add: sys_client_def file_client_def file_access_def)
  from sys_cursor.read_all [OF this, of n] o assms(10) show ?thesis by (auto simp: file_content_def)
qed

theorem open_and_read_whole_file_witness:
  "\<exists>s'. sys_open_c 0x220000 0x200000 sample_kernel = Some (4, s') \<and>
     read_seq (sys_chunk 4 0x230000 2) 5 s' = [104, 101, 108, 108, 111]"
  using open_and_read_whole_file [OF sample_open_args(1), of 2 4 "0x230000" 2 5] sample_inode_ok sample_file_content
  by (simp add: sample_kernel_view sample_kernel_fields sample_lookup sample_first_free sample_entry_info sample_inode sample_frame)
    (simp add: separate_def image_size_def)

text \<open>
  C31. Opening a directory and reading it through system calls lists it: the calls return the names of all
  entries, once each and in order, and then 0.
\<close>

theorem open_and_list_directory:
  fixes s :: "'a kbd_scheme"
  assumes "open_args dentry filename f s" "dir_lookup f s = Some j" "first_free s = Some i"
    and "entry_type (filesys_ptr s) j (mem s) = DIR_FILE" "[] \<notin> set (dir_names s)"
    and "dir_buf_ok buf s" "32 \<le> n" "length (dir_names s) \<le> k"
  shows "\<exists>s'. sys_open_c dentry filename s = Some (int i, s') \<and> read_seq (sys_dir_chunk (int i) buf n) k s' = dir_names s"
proof -
  obtain s' where o: "sys_open_c dentry filename s = Some (int i, s')" "dir_fd_ok (int i) s'" "fd_pos (int i) s' = 0"
    "dir_names s' = dir_names s" "file_op_ptr (get_fd s' i) = Some dir_table" "filesys_ptr s' = filesys_ptr s"
    "read_dentry s' = read_dentry s"
    using sys_open_directory [OF assms(1-4)] by blast
  then have "sys_dir_client (int i) buf n s'"
    using assms(5-7) by (simp add: sys_dir_client_def dir_client_def dir_buf_ok_def)
  from sys_dir_cursor.read_all [OF this, of k] o assms(8) show ?thesis by auto
qed

theorem open_and_list_directory_witness:
  "\<exists>s'. sys_open_c 0x220000 0x200100 sample_kernel = Some (4, s') \<and>
     read_seq (sys_dir_chunk 4 0x230000 32) 3 s' = [[46], [114, 116, 99], [97, 46, 116, 120, 116]]"
  using open_and_list_directory [OF sample_open_args(2), of 0 4 "0x230000" 32 3] sample_entry_info
  by (simp add: sample_kernel_view sample_kernel_fields sample_first_free dir_buf_ok_def) (simp add: separate_def)



text \<open>
  C33. A file, a directory or the clock that \<open>sys_open_c\<close> opened on the least free descriptor can be closed:
  \<open>sys_close_c\<close> returns 0 and afterwards that descriptor is free again and every other one is as before.
\<close>

theorem open_then_close_restores_descriptors:
  fixes s :: "'a kbd_scheme"
  assumes "open_args dentry filename f s" "dir_lookup f s = Some j" "first_free s = Some i"
    and "entry_type (filesys_ptr s) j (mem s) \<in> {RTC_FILE, DIR_FILE, REG_FILE}"
  shows "\<exists>s' s'' d. sys_open_c dentry filename s = Some (int i, s') \<and> \<not> fd_free (get_fd s' i) \<and>
     sys_close_c (int i) s' = Some (0, s'') \<and> cur_files s'' = (cur_files s)[i := d] \<and> fd_free d"
  using sys_open_close [OF assms] by metis

theorem open_then_close_restores_descriptors_witness:
  "\<exists>s' s'' d. sys_open_c 0x220000 0x200000 sample_kernel = Some (4, s') \<and> sys_close_c 4 s' = Some (0, s'') \<and>
     cur_files s'' = sample_files[4 := d] \<and> fd_free d"
proof -
  have "cur_files sample_fsys = sample_files" by (simp add: cur_files_def sample_fsys_def sample_pcb_def)
  then show ?thesis
    using open_then_close_restores_descriptors [OF sample_open_args(1), of 2 4] sample_entry_info sample_lookup
    by (auto simp: sample_kernel_view sample_kernel_fields sample_first_free)
qed

text \<open>
  C34. The descriptor calls reject bad arguments without an effect: a descriptor that is out of range or
  not open, a null buffer, a negative length; and descriptors 0 and 1 cannot be closed.
\<close>

theorem bad_arguments_rejected:
  "(if 0 \<le> fd \<and> fd < 8 \<and> buf \<noteq> NULL \<and> 0 \<le> n \<and> flags (get_fd s (nat fd)) mod 2 = 1 then True
    else sys_read_c irq bursts fd buf n s = Some (-1, s) \<and> sys_write_c fd buf n s = Some (-1, s)) \<and>
   (if 2 \<le> fd \<and> fd < 8 \<and> flags (get_fd s (nat fd)) mod 2 = 1 then True else sys_close_c fd s = Some (-1, s)) \<and>
   sys_open_c dentry NULL s = Some (-1, s)"
  by (auto simp: sys_read_c_def sys_write_c_def sys_close_c_def sys_open_c_def FD_SIZE_def)

text \<open>
  C35. For a command line \<open>name args\<close> whose arguments fit, \<open>sys_getargs_c\<close> stores the arguments with their
  terminating zero in the buffer, and nothing else, and returns 0, or -1 when there are none. Because the
  loop counts both of its indices up, the buffer must have room for twice the arguments and the name.
\<close>

theorem getargs_returns_arguments:
  fixes s :: "'a kbd_scheme"
  assumes "input (pcb_heap s (cur_pcb s)) = name @ [32] @ args @ 0 # rest" "32 \<notin> set name" "0 \<notin> set args"
    and "int (length name + 1 + 2 * length args) < nbytes" "nbytes < 2147483648"
  shows "sys_getargs_c buf nbytes s = Some (if args = [] then -1 else 0, s\<lparr>mem := store_bytes (mem s) buf (args @ [0])\<rparr>)"
  using assms by (intro getargs_copies [OF assms(1-3)]) auto

definition cat_kernel :: paging where
  "cat_kernel = sample_kernel\<lparr>pcb_heap := (\<lambda>_. sample_pcb\<lparr>input := [99, 97, 116, 32, 97, 98, 0] @ replicate 1017 0\<rparr>)\<rparr>"

lemma cat_kernel_input:
  "input (pcb_heap cat_kernel (cur_pcb cat_kernel)) = [99, 97, 116] @ [32] @ [97, 98] @ 0 # replicate 1017 0"
  by (simp add: cat_kernel_def)

theorem getargs_returns_arguments_witness:
  "sys_getargs_c 0x230000 128 cat_kernel = Some (0, cat_kernel\<lparr>mem := store_bytes (mem cat_kernel) 0x230000 [97, 98, 0]\<rparr>)"
  using getargs_returns_arguments [OF cat_kernel_input, of 128 "0x230000"] by simp

text \<open>
  C36. The bound of \<open>sys_getargs_c\<close> wraps around: with a buffer of no more bytes than the command's name
  has, even an empty one, all arguments are written nevertheless and success is returned.
\<close>

theorem getargs_overruns_small_buffer:
  fixes s :: "'a kbd_scheme"
  assumes "input (pcb_heap s (cur_pcb s)) = name @ [32] @ args @ 0 # rest" "32 \<notin> set name" "0 \<notin> set args" "args \<noteq> []"
    and "length name + 2 * length args < 2147483648" "0 \<le> nbytes" "nbytes \<le> int (length name)"
  shows "sys_getargs_c buf nbytes s = Some (0, s\<lparr>mem := store_bytes (mem s) buf (args @ [0])\<rparr>)"
  using getargs_copies [OF assms(1-3,5), of nbytes buf] assms by simp

theorem getargs_overruns_small_buffer_witness:
  "sys_getargs_c 0x230000 0 cat_kernel = Some (0, cat_kernel\<lparr>mem := store_bytes (mem cat_kernel) 0x230000 [97, 98, 0]\<rparr>)"
  using getargs_overruns_small_buffer [OF cat_kernel_input, of 0 "0x230000"] by simp

text \<open>
  C37. \<open>sys_vidmap_c\<close> rejects a null pointer and one into the first 4 MB without an effect. Otherwise it stores
  132 MB + \<open>0xB8000\<close> through the pointer and returns 0, and every address of that page is one that a program
  may use and that the processor translates to the video page.
\<close>

theorem vidmap_gives_video_page:
  fixes s :: "'a paging_scheme"
  assumes "paging_inv s" "i < 4096"
  shows "sys_vidmap_c p s = (if p \<le> 0x400000 then (-1, s) else (0, s\<lparr>mem := store32 (mem s) p 0x84B8000\<rparr>)) \<and>
     page_walk (mem s) (ret_dir_ptr s) True (0x84B8000 + i) = Some (0xB8000 + i)"
proof -
  have i: "unat i < 4096" using assms(2) by (simp add: word_less_nat_alt)
  have "get_pageTable_entry 33 0xB8 s = page_table_1 s + 4 * 0xB8"
  proof -
    have d: "load32 (mem s) (page_directory s + 4 * 33) = page_table_1 s OR 7" "load32 (mem s) (page_table_1 s + 4 * 0xB8) = 0xB8007"
      using paging_invD(1) [OF assms(1), of 33] paging_invD(3) [OF assms(1), of "0xB8"] by simp_all
    have al: "page_table_1 s AND 0xFFF = 0" "ret_dir_ptr s = page_directory s"
      using assms(1) by (simp_all add: paging_inv_def tables_outside_def tables_ok_def)
    have "bit (0xB8007 :: u32) 0" by code_simp
    then show ?thesis using d table_word_bits [OF al(1)] al(2) by (simp add: get_pageTable_entry_eq)
  qed
  then have "get_pageTable_entry USER_VMEM (drop_bit 12 VID_ADDR) s \<noteq> NULL"
    using program_entry_address(3) [OF assms(1)] by (simp add: paging_consts)
  moreover have "push_bit 22 USER_VMEM OR VID_ADDR = 0x84B8000" by (simp add: paging_consts)
  ultimately have "sys_vidmap_c p s = (if p \<le> 0x400000 then (-1, s) else (0, s\<lparr>mem := store32 (mem s) p 0x84B8000\<rparr>))"
    by (auto simp: sys_vidmap_c_def FOUR_MB_def)
  moreover have "unat (0x84B8000 + i) = 0x84B8000 + unat i" using i by (simp add: unat_word_ariths)
  then have "kernel_map (prog_frame s) True (0x84B8000 + i) = Some (0xB8000 + i)"
    using i by (simp add: kernel_map_def word_le_nat_alt word_less_nat_alt)
  ultimately show ?thesis by (simp add: paging_walk [OF assms(1)])
qed

theorem vidmap_gives_video_page_witness:
  "fst (sys_vidmap_c 0x8048000 (init_paging boot_machine)) = 0 \<and> fst (sys_vidmap_c 0x400000 (init_paging boot_machine)) = -1"
  using vidmap_gives_video_page [OF init_paging_inv(1) [OF boot_machine_ready], of 0 "0x8048000"]
    vidmap_gives_video_page [OF init_paging_inv(1) [OF boot_machine_ready], of 0 "0x400000"] by simp

end
