(* ===== verification/Process.thy ===== *)
theory Process
  imports Syscalls
begin

text \<open>
  Processes: \<open>sys_execute_c\<close> and \<open>sys_halt_c\<close> of \<^verbatim>\<open>student-distrib/sys_calls.c\<close>. Executing a program checks
  the file, moves the program page to a fresh frame, loads the file and sets up a process control block;
  halting undoes this. The invariant \<open>proc_inv\<close> describes the chain of processes between the two.
\<close>

section \<open>Definitions\<close>

text \<open>
  \<open>elf_text\<close> is the address of the static array of that name, \<open>tss_esp0\<close> the field \<open>esp0\<close> of the task state
  segment and \<open>ebp\<close> the register, which the two calls save and restore.
\<close>

record sysc = paging +
  process_number :: u32
  elf_text :: addr
  tss_esp0 :: u32
  ebp :: u32

definition PRO_IDX :: u32 where "PRO_IDX = 32"
definition EIGHT_MASK :: u32 where "EIGHT_MASK = 0xFFC00000"
definition EIGHT_S :: nat where "EIGHT_S = 22"
definition USER_PROG :: addr where "USER_PROG = 0x8048000"
definition TERMINAL_FILE_FLAGS :: u32 where "TERMINAL_FILE_FLAGS = 0x7"
definition KERNEL_DS :: u32 where "KERNEL_DS = 0x0018"
definition USER_CS :: u32 where "USER_CS = 0x0023"
definition USER_DS :: u32 where "USER_DS = 0x002B"

definition clear_fd :: file_desc where
  "clear_fd = \<lparr>file_op_ptr = None, inode = 0, file_pos = 0, flags = 0\<rparr>"

text \<open>
  The local variables of \<open>sys_execute_c\<close> that live in memory, and what the stack holds where \<open>new_pcb.input\<close>
  is. The frame that \<open>iret\<close> pops is the result of a call that enters the program.
\<close>

record exec_locals =
  l_file_name :: addr
  l_dentry :: addr
  l_header :: addr
  l_input :: "byte list"

record user_context =
  ctx_eip :: u32
  ctx_cs :: u32
  ctx_esp :: u32
  ctx_ds :: u32

function copy_command :: "addr \<Rightarrow> addr \<Rightarrow> u32 \<Rightarrow> memory \<Rightarrow> u32 \<times> memory" where
  "copy_command file_name command idx m =
     (if idx < 33 then
        if m (command + idx) = 32 \<or> m (command + idx) = 0 \<or> m (command + idx) = 10 then (idx, m)
        else copy_command file_name command (idx + 1) (m(file_name + idx := m (command + idx)))
      else (idx, m))"
  by pat_completeness auto
termination
  by (relation "measure (\<lambda>(file_name, command, idx, m). unat (33 :: u32) - unat idx)")
    (auto simp: index_measure [of _ 33, simplified])

declare copy_command.simps [simp del]

definition exec_name :: "exec_locals \<Rightarrow> addr \<Rightarrow> 'a sysc_scheme \<Rightarrow> 'a sysc_scheme" where
  "exec_name l command s =
     (let (idx, m) = copy_command (l_file_name l) command 0 (mem s) in s\<lparr>mem := m(l_file_name l + idx := 0)\<rparr>)"

text \<open>The checks on the file: \<open>False\<close> stands for the returns of -1.\<close>

definition exec_check :: "exec_locals \<Rightarrow> 'a sysc_scheme \<Rightarrow> (bool \<times> 'a sysc_scheme) option" where
  "exec_check l s =
     do { (r, s1) \<leftarrow> read_dentry_by_name (l_file_name l) (l_dentry l) s;
          if r = -1 then Some (False, s1)
          else if load32 (mem s1) (filetype_at (l_dentry l)) \<noteq> REG_FILE then Some (False, s1)
          else do {
            (r2, s2) \<leftarrow> read_data (load32 (mem s1) (inode_num_at (l_dentry l))) 0 (l_header l) 32 (-1) s1;
            if r2 = -1 then Some (False, s2)
            else Some (strncmp (mem s2) (elf_text s2) (l_header l) 4 = 0, s2) } }"

definition exec_frame_number :: "'a sysc_scheme \<Rightarrow> u32" where
  "exec_frame_number s = drop_bit EIGHT_S ((EIGHT_MB + process_number s * FOUR_MB) AND EIGHT_MASK)"

definition exec_load :: "exec_locals \<Rightarrow> 'a sysc_scheme \<Rightarrow> 'a sysc_scheme option" where
  "exec_load l s =
     (let s1 = s\<lparr>mem := set_page_base (get_bigPage PRO_IDX s) (exec_frame_number s) (mem s)\<rparr>;
          s2 = lpdt (ret_dir_ptr s1) s1
      in do { (_, s3) \<leftarrow> read_data (load32 (mem s2) (inode_num_at (l_dentry l))) 0 USER_PROG FOUR_MB (-1) s2; Some s3 })"

definition exec_pcb :: "byte list \<Rightarrow> u32 \<Rightarrow> 'a sysc_scheme \<Rightarrow> pcb" where
  "exec_pcb inp phys s =
     (let std = \<lparr>file_op_ptr = Some terminal_table, inode = 0, file_pos = 0, flags = TERMINAL_FILE_FLAGS\<rparr>
      in \<lparr>file_array = [std, std] @ replicate 6 clear_fd, old_pcb_ptr = cur_pcb s, input = inp, old_phys_addr = phys,
          old_esp0 = tss_esp0 s, old_ebp = ebp s\<rparr>)"

definition pcb_address :: "u32 \<Rightarrow> addr" where
  "pcb_address n = EIGHT_MB - n * EIGHT_KB - EIGHT_KB"

definition exec_enter :: "pcb \<Rightarrow> 'a sysc_scheme \<Rightarrow> 'a sysc_scheme" where
  "exec_enter p s =
     (let a = pcb_address (process_number s); n = process_number s + 1
      in s\<lparr>pcb_heap := (pcb_heap s)(a := p), cur_pcb := a, process_number := n, tss_esp0 := EIGHT_MB - n * EIGHT_KB\<rparr>)"

definition exec_context :: "addr \<Rightarrow> memory \<Rightarrow> user_context" where
  "exec_context header m =
     \<lparr>ctx_eip = ucast (m (header + 24)) + push_bit 8 (ucast (m (header + 25))) + push_bit 16 (ucast (m (header + 26)))
        + push_bit 24 (ucast (m (header + 27))),
      ctx_cs = USER_CS, ctx_esp = USER_PROG OR (FOUR_MB - 4),
      ctx_ds = (if USER_CS AND 0x3 = 0 then KERNEL_DS else USER_DS)\<rparr>"

text \<open>
  \<open>strcpy\<close> into \<open>new_pcb.input\<close> returns when the command is terminated and overwrites the start of the array;
  a command that does not fit would overrun the stack, which is outside the model: \<open>None\<close>.
  The name that \<open>sys_execute_c\<close> passes to \<open>terminal_open\<close> is not looked at.
\<close>

definition exec_input :: "exec_locals \<Rightarrow> addr \<Rightarrow> memory \<Rightarrow> byte list option" where
  "exec_input l command m =
     do { n \<leftarrow> strlen m command;
          let cmd = bytes_at m command (unat n + 1);
          if length cmd \<le> length (l_input l) then Some (cmd @ drop (length cmd) (l_input l)) else None }"

definition sys_execute_c :: "exec_locals \<Rightarrow> addr \<Rightarrow> 'a sysc_scheme \<Rightarrow> ((int + user_context) \<times> 'a sysc_scheme) option" where
  "sys_execute_c l command s =
     (if 6 \<le> process_number s then Some (Inl (-1), s)
      else do {
        (good, s1) \<leftarrow> exec_check l (exec_name l command s);
        if \<not> good then Some (Inl (-1), s1)
        else do {
          inp \<leftarrow> exec_input l command (mem s1);
          if get_bigPage PRO_IDX s1 = NULL then Some (Inl (-1), s1)
          else do {
            let phys = ucast (bp_page_base_addr (unpack_big (load32 (mem s1) (get_bigPage PRO_IDX s1))));
            s2 \<leftarrow> exec_load l s1;
            (_, s3) \<leftarrow> terminal_open NULL s2;
            Some (Inr (exec_context (l_header l) (mem s3)), exec_enter (exec_pcb inp phys s3) s3) } } })"

primrec close_files :: "nat list \<Rightarrow> 'a kbd_scheme \<Rightarrow> 'a kbd_scheme option" where
  "close_files [] s = Some s"
| "close_files (fd # fds) s =
     (if flags (get_fd s fd) mod 2 \<noteq> 0
      then do { tbl \<leftarrow> file_op_ptr (get_fd s fd); (_, s') \<leftarrow> close_ptr tbl (int fd) s; close_files fds s' }
      else close_files fds s)"

definition halt_restore :: "addr \<Rightarrow> 'a sysc_scheme \<Rightarrow> 'a sysc_scheme" where
  "halt_restore entry s =
     (let p = pcb_heap s (cur_pcb s);
          s1 = s\<lparr>tss_esp0 := old_esp0 p, mem := set_page_base entry (old_phys_addr p) (mem s)\<rparr>;
          s2 = lpdt (ret_dir_ptr s1) s1
      in s2\<lparr>ebp := old_ebp p, cur_pcb := old_pcb_ptr p\<rparr>)"

definition sys_halt_c :: "byte \<Rightarrow> 'a sysc_scheme \<Rightarrow> (int \<times> 'a sysc_scheme) option" where
  "sys_halt_c status s =
     (if process_number s \<le> 0 then Some (-1, s)
      else let s1 = s\<lparr>process_number := process_number s - 1\<rparr>; entry = get_bigPage PRO_IDX s1
           in if entry = NULL then Some (-1, s1)
              else do { s2 \<leftarrow> close_files [0..<8] s1; Some (0xFF AND uint status, halt_restore entry s2) })"

section \<open>The command line\<close>

lemma copy_command_name:
  assumes "length name \<le> 32" "\<forall>c \<in> set name. c \<noteq> 32 \<and> c \<noteq> 0 \<and> c \<noteq> 10"
    and "bytes_at m command (length name + 1) = name @ [c]" "c = 32 \<or> c = 0 \<or> c = 10"
    and "separate fn 34 command (length name + 1)"
  shows "i \<le> length name \<Longrightarrow> copy_command fn command (of_nat i) (store_bytes m fn (take i name)) =
     (of_nat (length name), store_bytes m fn name)"
proof (induction "length name - i" arbitrary: i)
  case 0
  then have i: "i = length name" by simp
  have rd: "store_bytes m fn name (command + of_nat i) = m (command + of_nat i)"
    using store_bytes_other [of fn name command "length name + 1"] separate_sub [OF assms(5), of 0 "length name" 0 "length name + 1"]
      assms(1) i by (simp add: in_region_offset)
  have "m (command + of_nat i) = c" using arg_cong [OF assms(3), of "\<lambda>l. l ! i"] i by (simp add: nth_append)
  moreover have "(of_nat i :: u32) < 33" using assms(1) i by (simp add: word_less_nat_alt unat_of_nat_addr)
  ultimately show ?case using rd i assms(4) by (subst copy_command.simps) auto
next
  case (Suc k)
  then have i: "i < length name" by simp
  have rd: "store_bytes m fn (take i name) (command + of_nat i) = m (command + of_nat i)"
    using store_bytes_other [of fn "take i name" command "length name + 1"] separate_sub [OF assms(5), of 0 i 0 "length name + 1"]
      assms(1) i by (simp add: in_region_offset)
  have c: "m (command + of_nat i) = name ! i" using arg_cong [OF assms(3), of "\<lambda>l. l ! i"] i by (simp add: nth_append)
  have "name ! i \<in> set name" using i by simp
  then have "\<not> (name ! i = 32 \<or> name ! i = 0 \<or> name ! i = 10)" using assms(2) by blast
  moreover have "(of_nat i :: u32) < 33" using assms(1) i by (simp add: word_less_nat_alt unat_of_nat_addr)
  moreover have "(store_bytes m fn (take i name))(fn + of_nat i := name ! i) = store_bytes m fn (take (Suc i) name)"
    using store_bytes_snoc [of "take i name" m fn "name ! i"] i assms(1) by (simp add: take_Suc_conv_app_nth)
  ultimately have "copy_command fn command (of_nat i) (store_bytes m fn (take i name)) =
      copy_command fn command (of_nat (Suc i)) (store_bytes m fn (take (Suc i) name))"
    using rd c by (subst copy_command.simps) (simp add: add.commute)
  also have "\<dots> = (of_nat (length name), store_bytes m fn name)"
    using Suc.hyps i by (intro Suc.hyps(1)) auto
  finally show ?case .
qed

section \<open>Reading without a descriptor\<close>

text \<open>
  With the descriptor -1 \<open>read_data\<close> starts at word 0 of the inode, the length of the file. When that number
  is not a valid block number, the loop skips it and reads the file from its first block.
\<close>

lemma read_data_anonymous:
  assumes ok: "inode_ok (filesys_ptr s) (bblk s) ino (mem s)" and buf: "buf \<noteq> NULL" and len: "0 < len" "len < 2147483648"
    and sep: "separate buf len (filesys_ptr s) (image_size (bblk s))"
    and data: "data = file_content (filesys_ptr s) (bblk s) ino (mem s)" "data \<noteq> []"
    and skip: "bb_D (bblk s) \<le> inode_word (filesys_ptr s) ino 0 (mem s)"
  shows "read_data ino 0 buf (of_nat len) (-1) s = Some
     (if len \<le> length data then (int len, s\<lparr>mem := store_bytes (mem s) buf (take len data)\<rparr>)
      else (int (length data), s\<lparr>mem := store_bytes (mem s) buf (data @ [0])\<rparr>))"
proof -
  define fp bb m sz where "fp = filesys_ptr s" and "bb = bblk s" and "m = mem s" and "sz = inode_size fp ino m"
  note defs = fp_def [symmetric] bb_def [symmetric] m_def [symmetric]
  have size: "inode_word fp ino 0 m = of_nat sz" by (simp add: sz_def inode_size_def)
  have lim: "sz \<le> 1023 * 4096" "length data = sz" "0 < sz"
    using ok data by (auto simp: inode_ok_def sz_def fp_def m_def bb_def file_content_def)
  have guards: "\<not> bb_N bb \<le> ino" "\<not> (of_nat sz :: u32) \<le> 0"
    using ok lim by (simp add: inode_ok_def bb_def linorder_not_le, simp add: word_le_nat_alt unat_of_nat_addr)
  define d where "d = inode_word fp ino 1 m"
  have lt: "\<not> (1024 :: u32) \<le> 1" by (simp add: word_le_nat_alt)
  have loc: "locate_byte fp bb ino m 0 0 (of_nat sz) b = locate_byte fp bb ino m 0 1 d (block_ptr fp bb d)" for b
    using skip by (simp add: locate_byte_def skip_invalid.simps [of fp bb ino m 0] next_dnode_def Let_def defs size d_def lt)
  have "(0 :: u32) < of_nat len" using len by (simp add: word_less_nat_alt unat_of_nat_addr)
  then have start: "read_loop fp bb ino (of_nat sz) buf (of_nat len) 0 0 0 (of_nat sz) b m =
      read_loop fp bb ino (of_nat sz) buf (of_nat len) 0 0 1 d (block_ptr fp bb d) m" for b
    using guards(2) by (subst (1 2) read_loop.simps) (simp add: loc)
  have loop: "read_loop fp bb ino (of_nat sz) buf (of_nat len) 0 0 1 d (block_ptr fp bb d) m =
     (if len \<le> sz then Inr (store_bytes m buf (take len data), of_nat len, of_nat (blk_idx len))
      else Inl (store_bytes m buf (data @ [0]), of_nat sz))"
    using read_loop_content [of fp bb ino m len buf sz data 0 0 d "block_ptr fp bb d"]
      ok len sep data lim by (simp add: defs sz_def [symmetric] d_def blk_idx_def [of 0])
  have signed: "sint (of_nat len :: u32) = int len" "sint (of_nat sz :: u32) = int sz"
    using len lim by (simp_all add: sint_of_nat_u32)
  show ?thesis
    using buf guards start loop signed lim(2) unfolding read_data_def Let_def defs size fd_inode_idx_def
    by (simp add: defs size save_inode_idx_def)
qed

section \<open>The layout of a call\<close>

fun apart :: "(addr \<times> nat) list \<Rightarrow> bool" where
  "apart [] = True"
| "apart ((a, n) # rs) = (list_all (\<lambda>(b, k). separate a n b k) rs \<and> apart rs)"

text \<open>What \<open>sys_execute_c\<close> writes before it moves the program page, and what must survive that.\<close>

definition scratch_regions :: "exec_locals \<Rightarrow> 'a sysc_scheme \<Rightarrow> (addr \<times> nat) list" where
  "scratch_regions l s =
     [(l_file_name l, 34), (l_dentry l, 64), (l_header l, 32), (filename_buf s, 34), (open_dentry s, 64)]"

definition fixed_regions :: "'a sysc_scheme \<Rightarrow> (addr \<times> nat) list" where
  "fixed_regions s =
     [(elf_text s, 4), (filesys_ptr s, image_size (bblk s)), (page_directory s, 4096), (page_table_0 s, 4096), (page_table_1 s, 4096)]"

definition ELF_MAGIC :: "byte list" where "ELF_MAGIC = [0x7F, 0x45, 0x4C, 0x46]"

definition exec_ok :: "exec_locals \<Rightarrow> addr \<Rightarrow> byte list \<Rightarrow> 'a sysc_scheme \<Rightarrow> bool" where
  "exec_ok l command cmd s \<longleftrightarrow> paging_inv s \<and> fs_layout s \<and> cstr_at (mem s) command cmd \<and>
     bytes_at (mem s) (elf_text s) 4 = ELF_MAGIC \<and> l_file_name l \<noteq> NULL \<and> l_dentry l \<noteq> NULL \<and> l_header l \<noteq> NULL \<and>
     apart (scratch_regions l s @ fixed_regions s) \<and>
     list_all (\<lambda>(a, n). separate a n command (Suc (length cmd))) (scratch_regions l s) \<and>
     list_all (\<lambda>(a, n). separate a n PROG_WINDOW 0x400000) (scratch_regions l s @ fixed_regions s) \<and>
     separate USER_PROG 0x400000 (filesys_ptr s) (image_size (bblk s))"

lemma apart_append:
  "apart (rs @ qs) \<Longrightarrow> (a, n) \<in> set rs \<Longrightarrow> (b, k) \<in> set qs \<Longrightarrow> separate a n b k"
  by (induction rs rule: apart.induct) (auto simp: list_all_iff)

lemma table_words_frame:
  assumes "frame_out rs m m'" "\<And>a n. (a, n) \<in> set rs \<Longrightarrow> separate a n t 4096"
  shows "table_words m' t = table_words m t"
  unfolding table_words_def
proof (rule map_cong [OF refl], rule load32_cong)
  fix i x assume i: "i \<in> set [0..<1024]" and x: "in_region (t + 4 * of_nat i) 4 x"
  have "in_region t 4096 x" using in_region_shift [of "4 * i" 4 4096 t x] i x by simp
  from frame_outD [OF assms(1) assms(2) this] show "m' x = m x" .
qed

lemma paging_inv_frame:
  assumes "paging_inv s" "frame_out rs (mem s) m"
    and "\<And>a n. (a, n) \<in> set rs \<Longrightarrow> separate a n (page_directory s) 4096 \<and> separate a n (page_table_0 s) 4096 \<and> separate a n (page_table_1 s) 4096"
  shows "paging_inv (s\<lparr>mem := m\<rparr>)"
  using assms(1) table_words_frame [OF assms(2), of "page_directory s"] table_words_frame [OF assms(2), of "page_table_0 s"]
    table_words_frame [OF assms(2), of "page_table_1 s"] assms(3)
  by (simp add: paging_inv_def tables_outside_def ret_dir_ptr_def)

lemma exec_intact:
  fixes s :: "'a sysc_scheme"
  assumes ok: "exec_ok l command cmd s" and fr: "frame_out (scratch_regions l s) (mem s) m"
  shows "paging_inv (s\<lparr>mem := m\<rparr>)" "\<And>x. in_region (filesys_ptr s) (image_size (bblk s)) x \<Longrightarrow> m x = mem s x"
    "cstr_at m command cmd" "bytes_at m (elf_text s) 4 = ELF_MAGIC" "fs_frame s m"
proof -
  have sep: "separate a n b k" if "(a, n) \<in> set (scratch_regions l s)" "(b, k) \<in> set (fixed_regions s)" for a n b k
    using ok that by (intro apart_append) (auto simp: exec_ok_def)
  show "paging_inv (s\<lparr>mem := m\<rparr>)"
    using ok by (intro paging_inv_frame [OF _ fr]) (auto simp: exec_ok_def fixed_regions_def intro: sep)
  show img: "m x = mem s x" if "in_region (filesys_ptr s) (image_size (bblk s)) x" for x
    by (rule frame_outD [OF fr _ that]) (auto simp: fixed_regions_def intro: sep)
  show "cstr_at m command cmd"
    using ok by (intro cstr_at_frame [OF fr]) (auto simp: exec_ok_def list_all_iff)
  have "bytes_at m (elf_text s) 4 = bytes_at (mem s) (elf_text s) 4"
    by (rule bytes_at_frame [OF fr]) (auto simp: fixed_regions_def intro: sep)
  then show "bytes_at m (elf_text s) 4 = ELF_MAGIC" using ok by (simp add: exec_ok_def)
  show "fs_frame s m" unfolding fs_frame_def using img in_region_mono [OF _ image_prefix] by blast
qed

section \<open>Checking the file\<close>

text \<open>The command is a name without separators, of at most 32 bytes, and possibly arguments.\<close>

definition command_name :: "byte list \<Rightarrow> byte list \<Rightarrow> bool" where
  "command_name cmd name \<longleftrightarrow> length name \<le> 32 \<and> list_all (\<lambda>c. c \<noteq> 32 \<and> c \<noteq> 10) name \<and> take (length name) cmd = name \<and>
     (cmd = name \<or> cmd ! length name \<in> {32, 10} \<and> length name < length cmd)"

lemma exec_name_eq:
  assumes ok: "exec_ok l command cmd s" and nm: "command_name cmd name"
  shows "exec_name l command s = s\<lparr>mem := store_bytes (mem s) (l_file_name l) (name @ [0])\<rparr>" "0 \<notin> set name"
proof -
  define c where "c = (if cmd = name then 0 else cmd ! length name)"
  have cs: "cstr_at (mem s) command cmd" using ok by (simp add: exec_ok_def)
  have le: "length name \<le> length cmd" "length name \<le> 32" using nm by (auto simp: command_name_def)
  have "set name \<subseteq> set cmd" using nm set_take_subset [of "length name" cmd] by (auto simp: command_name_def)
  then show z: "0 \<notin> set name" using cs by (auto simp: cstr_at_def)
  have "bytes_at (mem s) command (length name) = name"
    using cs nm le(1) by (metis cstr_at_def command_name_def take_bytes_at)
  moreover have "mem s (command + of_nat (length name)) = c"
    using cs nm cstr_at_nth [OF cs, of "length name"] cstr_at_end [OF cs] by (auto simp: c_def command_name_def)
  ultimately have b: "bytes_at (mem s) command (length name + 1) = name @ [c]" by (simp add: bytes_at_Suc)
  have sep: "separate (l_file_name l) 34 command (length name + 1)"
    using separate_sub [of "l_file_name l" 34 command "Suc (length cmd)" 0 34 0 "length name + 1"] ok le
    by (simp add: exec_ok_def scratch_regions_def)
  have "copy_command (l_file_name l) command 0 (mem s) = (of_nat (length name), store_bytes (mem s) (l_file_name l) name)"
  proof -
    have "x \<noteq> 32 \<and> x \<noteq> 0 \<and> x \<noteq> 10" if "x \<in> set name" for x
      using nm z that by (auto simp: command_name_def list_all_iff)
    moreover have "c = 32 \<or> c = 0 \<or> c = 10" using nm by (auto simp: command_name_def c_def)
    ultimately show ?thesis using copy_command_name [OF le(2) _ b _ sep, of 0] by simp
  qed
  then show "exec_name l command s = s\<lparr>mem := store_bytes (mem s) (l_file_name l) (name @ [0])\<rparr>"
    using store_bytes_snoc [of name "mem s" "l_file_name l" 0] le by (simp add: exec_name_def)
qed

lemma exec_name_arg:
  fixes s :: "'a sysc_scheme"
  assumes ok: "exec_ok l command cmd s" and nm: "command_name cmd name"
  defines "s1 \<equiv> exec_name l command s"
  shows "frame_out (scratch_regions l s) (mem s) (mem s1)" "dir_ok s1" "name_arg (l_file_name l) name s1" "dentry_arg (l_dentry l) s1"
    "dir_lookup name s1 = dir_lookup name s" "s1 = s\<lparr>mem := mem s1\<rparr>"
proof -
  note eq = exec_name_eq [OF ok nm]
  have le: "length name \<le> 32" using nm by (simp add: command_name_def)
  have "frame_out [(l_file_name l, 34)] (mem s) (mem s1)"
    using frame_out_store_bytes [of "name @ [0]" 34 "l_file_name l" "mem s"] le by (simp add: s1_def eq)
  then show fr: "frame_out (scratch_regions l s) (mem s) (mem s1)"
    by (rule frame_out_weaken) (simp add: scratch_regions_def)
  show s1: "s1 = s\<lparr>mem := mem s1\<rparr>" by (simp add: s1_def eq)
  have d: "dir_ok s" using ok by (simp add: exec_ok_def fs_layout_def)
  note df = dir_frame [OF d exec_intact(5) [OF ok fr]]
  show "dir_ok s1" "dir_lookup name s1 = dir_lookup name s" using df(3,4) s1 by metis+
  have "separate (l_dentry l) 64 (filesys_ptr s) (image_size (bblk s))"
    using ok by (intro apart_append [of "scratch_regions l s" "fixed_regions s"]) (auto simp: exec_ok_def scratch_regions_def fixed_regions_def)
  then have "separate (l_dentry l) 64 (filesys_ptr s) 4096"
    using separate_sub [of "l_dentry l" 64 "filesys_ptr s" "image_size (bblk s)" 0 64 0 4096] image_prefix by simp
  then show "dentry_arg (l_dentry l) s1" using ok by (subst s1) (simp add: dentry_arg_def exec_ok_def)
  have "separate (filename_buf s) 34 (l_file_name l) 34"
    using ok by (simp add: exec_ok_def scratch_regions_def separate_sym)
  then have "separate (filename_buf s) 34 (l_file_name l) (Suc (length name))"
    using separate_sub [of "filename_buf s" 34 "l_file_name l" 34 0 34 0 "Suc (length name)"] le by simp
  moreover have "cstr_at (mem s1) (l_file_name l) name"
    using cstr_at_store_bytes [of name "mem s" "l_file_name l"] eq(2) le by (simp add: s1_def eq(1))
  ultimately show "name_arg (l_file_name l) name s1" using ok by (subst s1) (simp add: name_arg_def exec_ok_def)
qed

lemma exec_lookup:
  fixes s :: "'a sysc_scheme"
  assumes ok: "exec_ok l command cmd s" and nm: "command_name cmd name" and j: "dir_lookup name s = Some j"
  obtains m1 m where "exec_name l command s = s\<lparr>mem := m1\<rparr>"
    "read_dentry_by_name (l_file_name l) (l_dentry l) (s\<lparr>mem := m1\<rparr>) = Some (0, s\<lparr>mem := m\<rparr>)"
    "frame_out (scratch_regions l s) (mem s) m"
    "load32 m (filetype_at (l_dentry l)) = entry_type (filesys_ptr s) j (mem s)"
    "entry_type (filesys_ptr s) j (mem s) = REG_FILE \<Longrightarrow> load32 m (inode_num_at (l_dentry l)) = entry_inode (filesys_ptr s) j (mem s)"
proof -
  note n = exec_name_arg [OF ok nm]
  define m1 where "m1 = mem (exec_name l command s)"
  have s1: "exec_name l command s = s\<lparr>mem := m1\<rparr>" using n(6) by (simp add: m1_def)
  have d: "dir_ok s" using ok by (simp add: exec_ok_def fs_layout_def)
  have fr1: "frame_out (scratch_regions l s) (mem s) m1" using n(1) by (simp add: m1_def)
  have j63: "j < 63" using dir_lookup_less [OF j] d by (simp add: dir_ok_def)
  note ent = entry_frame [OF exec_intact(5) [OF ok fr1] j63]
  have flds: "filename_buf (s\<lparr>mem := x\<rparr>) = filename_buf s" "open_dentry (s\<lparr>mem := x\<rparr>) = open_dentry s"
    "filesys_ptr (s\<lparr>mem := x\<rparr>) = filesys_ptr s" "mem (s\<lparr>mem := x\<rparr>) = x" "s\<lparr>mem := x, mem := y\<rparr> = s\<lparr>mem := y\<rparr>" for x y
    by simp_all
  note found = by_name_found [OF n(2-4) n(5) [unfolded j], unfolded s1 flds ent]
  obtain m2 where rd: "read_dentry_by_name (l_file_name l) (l_dentry l) (s\<lparr>mem := m1\<rparr>) = Some (0, s\<lparr>mem := m2\<rparr>)"
    and fr2: "frame_out [(filename_buf s, 34), (open_dentry s, 64), (l_dentry l, 64)] m1 m2"
    and tw: "load32 m2 (filetype_at (l_dentry l)) = entry_type (filesys_ptr s) j (mem s)"
      "load32 m2 (inode_num_at (l_dentry l)) =
         (if entry_type (filesys_ptr s) j (mem s) = REG_FILE then entry_inode (filesys_ptr s) j (mem s) else 0)"
    by (rule found)
  have "frame_out (scratch_regions l s @ [(filename_buf s, 34), (open_dentry s, 64), (l_dentry l, 64)]) (mem s) m2"
    using fr1 fr2 by (rule frame_out_trans)
  then have "frame_out (scratch_regions l s) (mem s) m2" by (rule frame_out_weaken) (simp add: scratch_regions_def)
  from that [OF s1 rd this tw(1)] tw(2) show thesis by simp
qed

lemma exec_header:
  fixes s :: "'a sysc_scheme"
  assumes ok: "exec_ok l command cmd s" and fr: "frame_out (scratch_regions l s) (mem s) m"
    and inok: "inode_ok (filesys_ptr s) (bblk s) ino (mem s)" and data: "data = file_content (filesys_ptr s) (bblk s) ino (mem s)"
    and len: "32 \<le> length data" and skip: "bb_D (bblk s) \<le> inode_word (filesys_ptr s) ino 0 (mem s)"
  shows "read_data ino 0 (l_header l) 32 (-1) (s\<lparr>mem := m\<rparr>) = Some (32, s\<lparr>mem := store_bytes m (l_header l) (take 32 data)\<rparr>)"
proof -
  note img = image_agree [OF inok exec_intact(2) [OF ok fr]]
  have sep: "separate (l_header l) 32 (filesys_ptr s) (image_size (bblk s))"
    by (rule apart_append [of "scratch_regions l s" "fixed_regions s"])
      (use ok in \<open>simp add: exec_ok_def\<close>, simp add: scratch_regions_def, simp add: fixed_regions_def)
  have w0: "inode_word (filesys_ptr s) ino 0 m = inode_word (filesys_ptr s) ino 0 (mem s)"
    using img(1) by (simp add: inode_size_def word_unat_eq_iff)
  have ne: "data \<noteq> []" using len by auto
  have h: "l_header l \<noteq> NULL" using ok by (simp add: exec_ok_def)
  have d: "data = file_content (filesys_ptr s) (bblk s) ino m" using data img(3) by simp
  show ?thesis
    using read_data_anonymous [of "s\<lparr>mem := m\<rparr>" ino "l_header l" 32 data] img(2) sep len skip w0 ne h d by simp
qed

lemma elf_compare:
  assumes e: "bytes_at m e 4 = ELF_MAGIC" and h: "bytes_at m h 32 = take 32 data" and len: "32 \<le> length data"
  shows "strncmp m e h 4 = 0 \<longleftrightarrow> take 4 data = ELF_MAGIC"
proof -
  have z: "takeWhile (\<lambda>b. b \<noteq> 0) ELF_MAGIC = ELF_MAGIC" by (simp add: ELF_MAGIC_def)
  have "bytes_at m h 4 = take 4 data"
    using arg_cong [OF h, of "take 4"] by (simp add: take_bytes_at)
  then have cmp: "strncmp m e h 4 = 0 \<longleftrightarrow> ELF_MAGIC = takeWhile (\<lambda>b. b \<noteq> 0) (take 4 data)"
    by (simp add: strncmp_0_iff cprefix_def e z del: takeWhile_eq_all_conv)
  have "takeWhile (\<lambda>b. b \<noteq> 0) (take 4 data) = take 4 data" if "ELF_MAGIC = takeWhile (\<lambda>b. b \<noteq> 0) (take 4 data)"
  proof -
    have "length (takeWhile (\<lambda>b. b \<noteq> 0) (take 4 data)) = length (take 4 data)"
      using that [symmetric] len by (simp add: ELF_MAGIC_def)
    then show ?thesis by (metis takeWhile_eq_take take_all_iff order_refl)
  qed
  with cmp z show ?thesis by metis
qed

lemma exec_check_file:
  fixes s :: "'a sysc_scheme"
  assumes ok: "exec_ok l command cmd s" and nm: "command_name cmd name" and j: "dir_lookup name s = Some j"
    and ty: "entry_type (filesys_ptr s) j (mem s) = REG_FILE" and ino: "ino = entry_inode (filesys_ptr s) j (mem s)"
    and inok: "inode_ok (filesys_ptr s) (bblk s) ino (mem s)" and data: "data = file_content (filesys_ptr s) (bblk s) ino (mem s)"
    and len: "32 \<le> length data" and skip: "bb_D (bblk s) \<le> inode_word (filesys_ptr s) ino 0 (mem s)"
  obtains m where "exec_check l (exec_name l command s) = Some (take 4 data = ELF_MAGIC, s\<lparr>mem := m\<rparr>)"
    "frame_out (scratch_regions l s) (mem s) m" "load32 m (inode_num_at (l_dentry l)) = ino" "bytes_at m (l_header l) 32 = take 32 data"
proof -
  obtain m1 m2 where s1: "exec_name l command s = s\<lparr>mem := m1\<rparr>"
    and rd: "read_dentry_by_name (l_file_name l) (l_dentry l) (s\<lparr>mem := m1\<rparr>) = Some (0, s\<lparr>mem := m2\<rparr>)"
    and fr2: "frame_out (scratch_regions l s) (mem s) m2"
    and tw: "load32 m2 (filetype_at (l_dentry l)) = REG_FILE" "load32 m2 (inode_num_at (l_dentry l)) = ino"
    by (rule exec_lookup [OF ok nm j]) (simp_all add: ty ino)
  define m3 where "m3 = store_bytes m2 (l_header l) (take 32 data)"
  note rd2 = exec_header [OF ok fr2 inok data len skip, folded m3_def]
  have h: "frame_out [(l_header l, 32)] m2 m3" unfolding m3_def by (rule frame_out_store_bytes) simp
  have "frame_out (scratch_regions l s @ [(l_header l, 32)]) (mem s) m3" using fr2 h by (rule frame_out_trans)
  then have fr3: "frame_out (scratch_regions l s) (mem s) m3" by (rule frame_out_weaken) (simp add: scratch_regions_def)
  have hdr: "bytes_at m3 (l_header l) 32 = take 32 data"
    using bytes_at_store_bytes [of "take 32 data" m2 "l_header l"] len by (simp add: m3_def)
  have "separate (l_header l) 32 (l_dentry l) 64"
    using ok by (simp add: exec_ok_def scratch_regions_def separate_sym)
  then have dsep: "separate (l_header l) 32 (l_dentry l + of_nat 36) 4"
    using separate_sub [of "l_header l" 32 "l_dentry l" 64 0 32 36 4] by simp
  have tw3: "load32 m3 (inode_num_at (l_dentry l)) = ino"
    using load32_frame [OF h, of "inode_num_at (l_dentry l)"] dsep tw(2) by (simp add: inode_num_at_def)
  have "exec_check l (exec_name l command s) = Some (take 4 data = ELF_MAGIC, s\<lparr>mem := m3\<rparr>)"
    unfolding s1 exec_check_def rd using tw rd2 elf_compare [OF exec_intact(4) [OF ok fr3] hdr len] by simp
  from that [OF this fr3 tw3 hdr] show thesis .
qed

section \<open>Loading the program\<close>

lemma set_entry_frame: "i < 1024 \<Longrightarrow> frame_out [(t, 4096)] m (set_entry t i v m)"
  unfolding set_entry_def store32_def using frame_out_store_at [of "4 * unat i" "bytes32 v" 4096 t m] by (simp add: word_less_nat_alt)

lemma load_frame:
  fixes s :: "'a sysc_scheme"
  assumes ok: "exec_ok l command cmd s" and fr: "frame_out (scratch_regions l s) (mem s) m"
    and t: "t = switch_window f (s\<lparr>mem := set_entry (page_directory s) 32 v m\<rparr>)" and r: "(b, k) \<in> set (scratch_regions l s) \<or> b = filesys_ptr s \<and> k = image_size (bblk s)"
    and x: "in_region b k x"
  shows "mem t x = m x"
proof -
  have w: "separate b k PROG_WINDOW 0x400000"
    using ok r by (auto simp: exec_ok_def list_all_iff fixed_regions_def)
  have "separate (page_directory s) 4096 b k"
  proof (cases "b = filesys_ptr s \<and> k = image_size (bblk s)")
    case True
    then show ?thesis using ok by (simp add: exec_ok_def fixed_regions_def scratch_regions_def separate_sym)
  next
    case False
    then have "separate b k (page_directory s) 4096"
      using ok r by (intro apart_append [of "scratch_regions l s" "fixed_regions s"]) (auto simp: exec_ok_def fixed_regions_def)
    then show ?thesis by (simp add: separate_sym)
  qed
  then have "set_entry (page_directory s) 32 v m x = m x"
    by (intro frame_outD [OF set_entry_frame _ x]) auto
  moreover have "\<not> in_region PROG_WINDOW 0x400000 x" using separateD [OF w x] .
  ultimately show ?thesis by (simp add: t switch_window_outside)
qed

lemma window_separate: "separate b k PROG_WINDOW 0x400000 \<Longrightarrow> n \<le> 0x3B8000 \<Longrightarrow> separate USER_PROG n b k"
  using separate_sub [of PROG_WINDOW "0x400000" b k "0x48000" n 0 k] by (simp add: separate_sym USER_PROG_def PROG_WINDOW_def)

lemma exec_load_file:
  fixes s :: "'a sysc_scheme"
  assumes ok: "exec_ok l command cmd s" and fr: "frame_out (scratch_regions l s) (mem s) m"
    and iw: "load32 m (inode_num_at (l_dentry l)) = ino" and inok: "inode_ok (filesys_ptr s) (bblk s) ino (mem s)"
    and data: "data = file_content (filesys_ptr s) (bblk s) ino (mem s)"
    and len: "32 \<le> length data" "length data < 0x3B8000" and skip: "bb_D (bblk s) \<le> inode_word (filesys_ptr s) ino 0 (mem s)"
    and f: "f = ucast (exec_frame_number s)"
    and t: "t = switch_window f (s\<lparr>mem := set_entry (page_directory s) 32 (prog_entry f) m\<rparr>)"
  shows "exec_load l (s\<lparr>mem := m\<rparr>) = Some (t\<lparr>mem := store_bytes (mem t) USER_PROG (data @ [0])\<rparr>)"
    "paging_inv (t\<lparr>mem := store_bytes (mem t) USER_PROG (data @ [0])\<rparr>)" "prog_frame t = f"
    "\<And>b k x. (b, k) \<in> set (scratch_regions l s) \<Longrightarrow> in_region b k x \<Longrightarrow> store_bytes (mem t) USER_PROG (data @ [0]) x = m x"
proof -
  note it = exec_intact [OF ok fr]
  define u where "u = s\<lparr>mem := m\<rparr>"
  have mv: "lpdt (ret_dir_ptr u) (u\<lparr>mem := set_page_base (get_bigPage 32 u) (exec_frame_number s) (mem u)\<rparr>) = t"
    using move_program_page(1) [of u "exec_frame_number s"] it(1) by (simp add: u_def t f)
  have inv: "paging_inv t" "prog_frame t = f"
    using move_program_page(2,3) [of u "exec_frame_number s"] it(1) mv by (simp_all add: u_def f)
  note keep = load_frame [OF ok fr t]
  have img: "mem t x = mem s x" if "in_region (filesys_ptr s) (image_size (bblk s)) x" for x
    using keep [OF _ that] it(2) [OF that] by simp
  note agree = image_agree [OF inok img]
  have flds: "filesys_ptr t = filesys_ptr s" "bblk t = bblk s" "page_directory t = page_directory s"
    "page_table_0 t = page_table_0 s" "page_table_1 t = page_table_1 s"
    by (simp_all add: t switch_window_def)
  have w0: "inode_word (filesys_ptr s) ino 0 (mem t) = inode_word (filesys_ptr s) ino 0 (mem s)"
    using agree(1) by (simp add: inode_size_def word_unat_eq_iff)
  have "load32 (mem t) (inode_num_at (l_dentry l)) = load32 m (inode_num_at (l_dentry l))"
  proof (rule load32_cong)
    fix x assume "in_region (inode_num_at (l_dentry l)) 4 x"
    then have "in_region (l_dentry l) 64 x" using in_region_shift [of 36 4 64 "l_dentry l" x] by (simp add: inode_num_at_def)
    then show "mem t x = m x" by (intro keep) (auto simp: scratch_regions_def)
  qed
  then have iw': "load32 (mem t) (inode_num_at (l_dentry l)) = ino" using iw by simp
  have rd: "read_data ino 0 USER_PROG (of_nat 0x400000) (-1) t = Some (int (length data), t\<lparr>mem := store_bytes (mem t) USER_PROG (data @ [0])\<rparr>)"
  proof -
    have "data \<noteq> []" "USER_PROG \<noteq> NULL" "data = file_content (filesys_ptr t) (bblk t) ino (mem t)"
      using len data agree(3) by (auto simp: flds USER_PROG_def)
    moreover have "separate USER_PROG 0x400000 (filesys_ptr t) (image_size (bblk t))" using ok by (simp add: exec_ok_def flds)
    ultimately show ?thesis
      using read_data_anonymous [of t ino USER_PROG "0x400000" data] agree(2) len skip w0 by (simp add: flds)
  qed
  show "exec_load l (s\<lparr>mem := m\<rparr>) = Some (t\<lparr>mem := store_bytes (mem t) USER_PROG (data @ [0])\<rparr>)"
  proof -
    have "exec_frame_number (s\<lparr>mem := m\<rparr>) = exec_frame_number s" by (simp add: exec_frame_number_def)
    moreover have "ret_dir_ptr (u\<lparr>mem := x\<rparr>) = ret_dir_ptr u" for x by (simp add: ret_dir_ptr_def)
    ultimately show ?thesis
      using mv iw' rd unfolding exec_load_def Let_def PRO_IDX_def u_def [symmetric] by (simp add: FOUR_MB_def)
  qed
  have sep: "separate USER_PROG (length (data @ [0])) b k" if "(b, k) \<in> set (scratch_regions l s @ fixed_regions s)" for b k
    using ok that len by (intro window_separate) (auto simp: exec_ok_def list_all_iff)
  have fo: "frame_out [(USER_PROG, length (data @ [0]))] (mem t) (store_bytes (mem t) USER_PROG (data @ [0]))"
    by (rule frame_out_store_bytes) simp
  show "paging_inv (t\<lparr>mem := store_bytes (mem t) USER_PROG (data @ [0])\<rparr>)"
    by (rule paging_inv_frame [OF inv(1) fo]) (use sep in \<open>auto simp: flds fixed_regions_def\<close>)
  show "prog_frame t = f" by (fact inv)
  fix b k x assume b: "(b, k) \<in> set (scratch_regions l s)" and x: "in_region b k x"
  have "store_bytes (mem t) USER_PROG (data @ [0]) x = mem t x"
    using sep [of b k] b x by (intro store_bytes_other) auto
  then show "store_bytes (mem t) USER_PROG (data @ [0]) x = m x" using keep [OF _ x] b by simp
qed

section \<open>Executing a program\<close>

lemma keyboard_environment_more [simp]:
  "mem (keyboard_environment s) = mem s" "pcb_heap (keyboard_environment s) = pcb_heap s"
  "cur_pcb (keyboard_environment s) = cur_pcb s" "filesys_ptr (keyboard_environment s) = filesys_ptr s"
  "bblk (keyboard_environment s) = bblk s" "open_dentry (keyboard_environment s) = open_dentry s"
  "read_dentry (keyboard_environment s) = read_dentry s" "filename_buf (keyboard_environment s) = filename_buf s"
  "kbd.more (keyboard_environment s) = kbd.more s"
  by (simp_all add: keyboard_environment_def key_open_def enable_irq_def outb_def Let_def)

lemma keyboard_environment_paging [simp]:
  "page_directory (keyboard_environment s) = page_directory s" "page_table_0 (keyboard_environment s) = page_table_0 s"
  "page_table_1 (keyboard_environment s) = page_table_1 s" "cr0 (keyboard_environment s) = cr0 s"
  "cr3 (keyboard_environment s) = cr3 s" "prog_frame (keyboard_environment s) = prog_frame s"
  "frames (keyboard_environment s) = frames s" "paging.more (keyboard_environment s) = paging.more s"
  using keyboard_environment_more(9) [of s] by (cases s; cases "keyboard_environment s"; simp)+

lemma keyboard_environment_sysc [simp]:
  "process_number (keyboard_environment s) = process_number s" "elf_text (keyboard_environment s) = elf_text s"
  "tss_esp0 (keyboard_environment s) = tss_esp0 s" "ebp (keyboard_environment s) = ebp s"
  using keyboard_environment_paging(8) [of s] by (cases s; cases "keyboard_environment s"; simp)+

lemma exec_frame_number_eq:
  assumes "process_number s < 6"
  shows "exec_frame_number s = process_number s + 2"
proof -
  have "unat (process_number s) < 6" using assms by (simp add: word_less_nat_alt)
  then have "process_number s \<in> {0, 1, 2, 3, 4, 5}"
    by (auto simp: word_unat_eq_iff)
  then show ?thesis by (auto simp: exec_frame_number_def EIGHT_S_def EIGHT_MB_def FOUR_MB_def EIGHT_MASK_def)
qed

text \<open>What the call finds on disk: a regular file with its contents, long enough to hold the header.\<close>

definition program_file :: "'a fsys_scheme \<Rightarrow> byte list \<Rightarrow> byte list \<Rightarrow> bool" where
  "program_file s name data \<longleftrightarrow>
     (case dir_lookup name s of
        None \<Rightarrow> False
      | Some j \<Rightarrow>
          (let ino = entry_inode (filesys_ptr s) j (mem s)
           in entry_type (filesys_ptr s) j (mem s) = REG_FILE \<and> inode_ok (filesys_ptr s) (bblk s) ino (mem s) \<and>
              file_content (filesys_ptr s) (bblk s) ino (mem s) = data \<and> 32 \<le> length data \<and>
              bb_D (bblk s) \<le> inode_word (filesys_ptr s) ino 0 (mem s)))"

lemma program_fileE:
  assumes "program_file s name data"
  obtains j ino where "dir_lookup name s = Some j" "entry_type (filesys_ptr s) j (mem s) = REG_FILE"
    "ino = entry_inode (filesys_ptr s) j (mem s)" "inode_ok (filesys_ptr s) (bblk s) ino (mem s)"
    "data = file_content (filesys_ptr s) (bblk s) ino (mem s)" "32 \<le> length data"
    "bb_D (bblk s) \<le> inode_word (filesys_ptr s) ino 0 (mem s)"
  using assms by (auto simp: program_file_def Let_def split: option.splits)

lemma exec_input_eq:
  assumes "cstr_at m command cmd" "length cmd < length (l_input l)"
  shows "exec_input l command m = Some (cmd @ 0 # drop (Suc (length cmd)) (l_input l))"
proof -
  have "bytes_at m command (length cmd) = cmd" "m (command + of_nat (length cmd)) = 0" using assms(1) by (simp_all add: cstr_at_def)
  then have "bytes_at m command (length cmd + 1) = cmd @ [0]" by (simp add: bytes_at_Suc)
  then show ?thesis
    using assms(2) strlen_cstr [OF assms(1)] cstr_at_length [OF assms(1)] by (simp add: exec_input_def unat_of_nat_addr)
qed

lemma phys_field:
  assumes "paging_inv s"
  shows "bp_page_base_addr (unpack_big (load32 (mem s) (get_bigPage PRO_IDX s))) = prog_frame s" "get_bigPage PRO_IDX s \<noteq> NULL"
proof -
  have "load32 (mem s) (page_directory s + 4 * 32) = prog_entry (prog_frame s)" using paging_invD(1) [OF assms, of 32] by simp
  then show "bp_page_base_addr (unpack_big (load32 (mem s) (get_bigPage PRO_IDX s))) = prog_frame s"
    unfolding PRO_IDX_def program_entry_address(1) [OF assms] by (simp add: prog_entry_def unpack_pack_big)
  show "get_bigPage PRO_IDX s \<noteq> NULL"
    unfolding PRO_IDX_def program_entry_address(1) [OF assms] using program_entry_address(2) [OF assms] by simp
qed

definition elf_entry :: "byte list \<Rightarrow> u32" where
  "elf_entry data = ucast (data ! 24) OR push_bit 8 (ucast (data ! 25)) OR push_bit 16 (ucast (data ! 26)) OR push_bit 24 (ucast (data ! 27))"

lemma bytes_sum_or:
  "(ucast (a :: byte) :: u32) + push_bit 8 (ucast (b :: byte)) + push_bit 16 (ucast (c :: byte)) + push_bit 24 (ucast (d :: byte)) =
     ucast a OR push_bit 8 (ucast b) OR push_bit 16 (ucast c) OR push_bit 24 (ucast d)"
proof -
  have 1: "(ucast a :: u32) + push_bit 8 (ucast b) = ucast a OR push_bit 8 (ucast b)"
    by (rule disjunctive_add_eq_or, rule bit_word_eqI) (auto simp: bit_simps dest: bit_imp_le_length)
  have 2: "(ucast a OR push_bit 8 (ucast b) :: u32) + push_bit 16 (ucast c) = (ucast a OR push_bit 8 (ucast b)) OR push_bit 16 (ucast c)"
    by (rule disjunctive_add_eq_or, rule bit_word_eqI) (auto simp: bit_simps dest: bit_imp_le_length)
  have 3: "((ucast a OR push_bit 8 (ucast b)) OR push_bit 16 (ucast c) :: u32) + push_bit 24 (ucast d) =
      ((ucast a OR push_bit 8 (ucast b)) OR push_bit 16 (ucast c)) OR push_bit 24 (ucast d)"
    by (rule disjunctive_add_eq_or, rule bit_word_eqI) (auto simp: bit_simps dest: bit_imp_le_length)
  show ?thesis unfolding 1 2 3 by (simp only: or.assoc)
qed

lemma exec_context_eq:
  assumes h: "bytes_at m header 32 = take 32 data" and len: "32 \<le> length data"
  shows "exec_context header m = \<lparr>ctx_eip = elf_entry data, ctx_cs = 0x23, ctx_esp = 0x83FFFFC, ctx_ds = 0x2B\<rparr>"
proof -
  have "m (header + of_nat i) = data ! i" if "i < 32" for i
    using arg_cong [OF h, of "\<lambda>l. l ! i"] that len by simp
  from this [of 24] this [of 25] this [of 26] this [of 27] show ?thesis
    by (simp add: exec_context_def elf_entry_def bytes_sum_or USER_CS_def USER_DS_def USER_PROG_def FOUR_MB_def del: push_bit_numeral)
qed

lemma execute_program:
  fixes s :: "'a sysc_scheme"
  assumes ok: "exec_ok l command cmd s" and nm: "command_name cmd name" and pf: "program_file s name data"
    and elf: "take 4 data = ELF_MAGIC" and len: "length data < 0x3B8000" and n: "process_number s < 6"
    and inp: "length cmd < length (l_input l)"
  obtains m s1 s2 where
    "sys_execute_c l command s = Some (Inr \<lparr>ctx_eip = elf_entry data, ctx_cs = 0x23, ctx_esp = 0x83FFFFC, ctx_ds = 0x2B\<rparr>,
       exec_enter (exec_pcb (cmd @ 0 # drop (Suc (length cmd)) (l_input l)) (ucast (prog_frame s)) s2) s2)"
    "s2 = keyboard_environment (s1\<lparr>mem := store_bytes (mem s1) USER_PROG (data @ [0])\<rparr>)"
    "frame_out (scratch_regions l s) (mem s) m"
    "s1 = switch_window (ucast (process_number s + 2)) (s\<lparr>mem := set_entry (page_directory s) 32 (prog_entry (ucast (process_number s + 2))) m\<rparr>)"
    "paging_inv s2" "prog_frame s2 = ucast (process_number s + 2)"
proof -
  obtain j ino where j: "dir_lookup name s = Some j" "entry_type (filesys_ptr s) j (mem s) = REG_FILE"
    "ino = entry_inode (filesys_ptr s) j (mem s)" "inode_ok (filesys_ptr s) (bblk s) ino (mem s)"
    "data = file_content (filesys_ptr s) (bblk s) ino (mem s)" and l32: "32 \<le> length data"
    and skip: "bb_D (bblk s) \<le> inode_word (filesys_ptr s) ino 0 (mem s)"
    by (rule program_fileE [OF pf])
  obtain m where chk: "exec_check l (exec_name l command s) = Some (take 4 data = ELF_MAGIC, s\<lparr>mem := m\<rparr>)"
    and fr: "frame_out (scratch_regions l s) (mem s) m"
    and iw: "load32 m (inode_num_at (l_dentry l)) = ino" and hdr: "bytes_at m (l_header l) 32 = take 32 data"
    by (rule exec_check_file [OF ok nm j l32 skip])
  define f where "f = (ucast (process_number s + 2) :: 10 word)"
  define s1 where "s1 = switch_window f (s\<lparr>mem := set_entry (page_directory s) 32 (prog_entry f) m\<rparr>)"
  define s2 where "s2 = s1\<lparr>mem := store_bytes (mem s1) USER_PROG (data @ [0])\<rparr>"
  have f: "f = ucast (exec_frame_number s)" by (simp add: f_def exec_frame_number_eq [OF n])
  note ld = exec_load_file [OF ok fr iw j(4,5) l32 len skip f s1_def, folded s2_def]
  note it = exec_intact [OF ok fr]
  have "in_region (l_header l) 32 x \<Longrightarrow> mem s2 x = m x" for x
    using ld(4) [of "l_header l" 32 x] by (simp add: s2_def scratch_regions_def)
  then have "bytes_at (mem s2) (l_header l) 32 = take 32 data"
    using bytes_at_cong [of "l_header l" 32 "mem s2" m] hdr by simp
  note ctx = exec_context_eq [OF this l32]
  have inv2: "paging_inv (keyboard_environment s2)"
    using ld(2) by (simp add: paging_inv_def tables_outside_def ret_dir_ptr_def)
  have run: "sys_execute_c l command s = Some (Inr \<lparr>ctx_eip = elf_entry data, ctx_cs = 0x23, ctx_esp = 0x83FFFFC, ctx_ds = 0x2B\<rparr>,
       exec_enter (exec_pcb (cmd @ 0 # drop (Suc (length cmd)) (l_input l)) (ucast (prog_frame s)) (keyboard_environment s2))
         (keyboard_environment s2))"
    using n chk elf exec_input_eq [OF it(3) inp] phys_field [OF it(1)] ld(1) ctx
    by (simp add: sys_execute_c_def terminal_open_def linorder_not_le [symmetric])
  have "prog_frame (keyboard_environment s2) = f" using ld(3) by (simp add: s2_def)
  from that [OF run _ fr _ inv2] this show thesis by (simp add: s2_def s1_def f_def)
qed

section \<open>Closing the files of a process\<close>

text \<open>
  A descriptor in use is tagged with the type of its jump table. The first two belong to the terminal and
  \<open>terminal_close\<close>; the others belong to the three drivers.
\<close>

definition table_type :: "fd_table \<Rightarrow> u32" where
  "table_type tbl = (case tbl of rtc_table \<Rightarrow> RTC_FILE | dir_table \<Rightarrow> DIR_FILE | _ \<Rightarrow> REG_FILE)"

definition fd_wf :: "nat \<Rightarrow> file_desc \<Rightarrow> bool" where
  "fd_wf i d \<longleftrightarrow> fd_free d \<or>
     (case file_op_ptr d of
        None \<Rightarrow> False
      | Some tbl \<Rightarrow> if i < 2 then tbl = terminal_table
          else tbl \<noteq> terminal_table \<and> drop_bit TYPE_SHIFT (flags d AND TYPE_MASK) = table_type tbl)"

definition files_wf :: "file_desc list \<Rightarrow> bool" where
  "files_wf fa \<longleftrightarrow> length fa = 8 \<and> list_all (\<lambda>i. fd_wf i (fa ! i)) [0..<8]"

definition set_files :: "file_desc list \<Rightarrow> 'a procs_scheme \<Rightarrow> 'a procs_scheme" where
  "set_files fa s = s\<lparr>pcb_heap := (pcb_heap s)(cur_pcb s := (pcb_heap s (cur_pcb s))\<lparr>file_array := fa\<rparr>)\<rparr>"

lemma set_fd_files: "set_fd i d s = set_files ((cur_files s)[i := d]) s"
  by (simp add: set_fd_def set_files_def cur_files_def Let_def)

lemma cur_files_set_files [simp]: "cur_files (set_files fa s) = fa" "set_files fa (set_files fb s) = set_files fa s"
  "set_files (cur_files s) s = s" "mem (set_files fa s) = mem s" "cur_pcb (set_files fa s) = cur_pcb s"
  "a \<noteq> cur_pcb s \<Longrightarrow> pcb_heap (set_files fa s) a = pcb_heap s a"
  by (simp_all add: set_files_def cur_files_def)

definition clear_regions :: "'a fsys_scheme \<Rightarrow> (addr \<times> nat) list" where
  "clear_regions s = [(open_dentry s, 64), (read_dentry s, 64)]"

lemma clear_names_frame: "frame_out [(od, 64), (rd, 64)] m (clear_names od rd m)"
proof -
  have gen: "frame_out [(od, 64), (rd, 64)] m (fold (\<lambda>i m. (m(od + of_nat i := 0))(rd + of_nat i := 0)) is m)"
    if "set is \<subseteq> {..<32}" for "is" :: "nat list"
    using that
  proof (induction "is" arbitrary: m)
    case (Cons i js)
    have "in_region od 64 (od + of_nat i)" "in_region rd 64 (rd + of_nat i)"
      using Cons.prems by (auto simp: in_region_offset)
    then have "frame_out [(od, 64), (rd, 64)] m ((m(od + of_nat i := 0))(rd + of_nat i := 0))" by (auto simp: frame_out_def)
    moreover have "frame_out [(od, 64), (rd, 64)] ((m(od + of_nat i := 0))(rd + of_nat i := 0))
        (fold (\<lambda>i m. (m(od + of_nat i := 0))(rd + of_nat i := 0)) js ((m(od + of_nat i := 0))(rd + of_nat i := 0)))"
      using Cons.prems by (intro Cons.IH) simp
    ultimately show ?case using frame_out_weaken [OF frame_out_trans] by (simp del: fun_upd_apply)
  qed simp
  show ?thesis unfolding clear_names_def by (rule gen) auto
qed

lemma close_wf:
  fixes s :: "'a kbd_scheme"
  assumes "files_ok s" "i < 8" "fd_wf i (get_fd s i)" "\<not> fd_free (get_fd s i)"
  obtains tbl m where "file_op_ptr (get_fd s i) = Some tbl"
    "close_ptr tbl (int i) s = Some (0, (set_files ((cur_files s)[i := (get_fd s i)\<lparr>flags := 0\<rparr>]) s)\<lparr>mem := m\<rparr>)"
    "frame_out (clear_regions s) (mem s) m"
proof -
  obtain tbl where tbl: "file_op_ptr (get_fd s i) = Some tbl"
    and k: "if i < 2 then tbl = terminal_table
      else tbl \<noteq> terminal_table \<and> drop_bit TYPE_SHIFT (flags (get_fd s i) AND TYPE_MASK) = table_type tbl"
    using assms(3,4) by (auto simp: fd_wf_def split: option.splits)
  have used: "flags (get_fd s i) mod 2 \<noteq> 0" using assms(4) by (simp add: fd_free_def)
  show thesis
  proof (cases "tbl = file_table")
    case True
    then have "close_ptr tbl (int i) s = Some (0, (set_files ((cur_files s)[i := (get_fd s i)\<lparr>flags := 0\<rparr>]) s)\<lparr>
        mem := clear_names (open_dentry s) (read_dentry s) (mem s)\<rparr>)"
      using k used assms(2) by (simp add: close_ptr_def file_close_def set_fd_files table_type_def Let_def set_files_def split: if_splits)
    from that [OF tbl this] show thesis using clear_names_frame by (simp add: clear_regions_def)
  next
    case False
    then have "close_ptr tbl (int i) s = Some (0, (set_files ((cur_files s)[i := (get_fd s i)\<lparr>flags := 0\<rparr>]) s)\<lparr>mem := mem s\<rparr>)"
      using k used assms(2)
      by (cases tbl) (auto simp: close_ptr_def dir_close_def rtc_close_def terminal_close_def set_fd_files table_type_def RTC_FILE_def
          TYPE_SHIFT_def TYPE_MASK_def Let_def set_files_def split: if_splits)
    from that [OF tbl this] show thesis by simp
  qed
qed

lemma close_files_wf:
  fixes s :: "'a kbd_scheme"
  assumes "files_ok s" "distinct is" "\<And>i. i \<in> set is \<Longrightarrow> i < 8 \<and> fd_wf i (get_fd s i)"
  shows "\<exists>m fa. close_files is s = Some ((set_files fa s)\<lparr>mem := m\<rparr>) \<and> length fa = 8 \<and> frame_out (clear_regions s) (mem s) m \<and>
     (\<forall>i. (i \<in> set is \<longrightarrow> fd_free (fa ! i)) \<and> (i \<notin> set is \<longrightarrow> fa ! i = cur_files s ! i))"
  using assms
proof (induction "is" arbitrary: s)
  case Nil
  then show ?case by (intro exI [of _ "mem s"] exI [of _ "cur_files s"]) (simp add: files_ok_def)
next
  case (Cons i js)
  show ?case
  proof (cases "fd_free (get_fd s i)")
    case True
    obtain m fa where IH: "close_files js s = Some ((set_files fa s)\<lparr>mem := m\<rparr>)" "length fa = 8" "frame_out (clear_regions s) (mem s) m"
      "\<And>k. (k \<in> set js \<longrightarrow> fd_free (fa ! k)) \<and> (k \<notin> set js \<longrightarrow> fa ! k = cur_files s ! k)"
      using Cons.IH [of s] Cons.prems by auto
    moreover have "fd_free (fa ! i)" using IH(4) [of i] Cons.prems(2) True by (simp add: get_fd_def)
    ultimately show ?thesis using True Cons.prems(2) by (intro exI [of _ m] exI [of _ fa]) (auto simp: fd_free_def)
  next
    case False
    have i: "i < 8" "fd_wf i (get_fd s i)" using Cons.prems(3) by simp_all
    define fa1 where "fa1 = (cur_files s)[i := (get_fd s i)\<lparr>flags := 0\<rparr>]"
    obtain tbl m1 where cl: "file_op_ptr (get_fd s i) = Some tbl" "close_ptr tbl (int i) s = Some (0, (set_files fa1 s)\<lparr>mem := m1\<rparr>)"
      "frame_out (clear_regions s) (mem s) m1"
      unfolding fa1_def by (rule close_wf [OF Cons.prems(1) i False])
    define s1 where "s1 = (set_files fa1 s)\<lparr>mem := m1\<rparr>"
    have fa1: "cur_files s1 = fa1" "length fa1 = 8" "fd_free (fa1 ! i)" "\<And>k. k \<noteq> i \<Longrightarrow> fa1 ! k = cur_files s ! k"
      using i Cons.prems(1) by (simp_all add: s1_def fa1_def cur_files_def set_files_def files_ok_def fd_free_def)
    have "files_ok s1" by (simp add: files_ok_def fa1)
    moreover have "k < 8 \<and> fd_wf k (get_fd s1 k)" if "k \<in> set js" for k
      using that Cons.prems(2) Cons.prems(3) [of k] fa1(4) [of k] by (cases "k = i") (auto simp: get_fd_def fa1(1))
    ultimately obtain m fa where IH: "close_files js s1 = Some ((set_files fa s1)\<lparr>mem := m\<rparr>)" "length fa = 8"
      "frame_out (clear_regions s1) (mem s1) m"
      "\<And>k. (k \<in> set js \<longrightarrow> fd_free (fa ! k)) \<and> (k \<notin> set js \<longrightarrow> fa ! k = fa1 ! k)"
      using Cons.IH [of s1] Cons.prems(2) fa1(1) by auto
    have st: "(set_files fa s1)\<lparr>mem := m\<rparr> = (set_files fa s)\<lparr>mem := m\<rparr>" "clear_regions s1 = clear_regions s" "mem s1 = m1"
      by (simp_all add: s1_def set_files_def clear_regions_def)
    have fr: "frame_out (clear_regions s) (mem s) m"
      using frame_out_weaken [OF frame_out_trans [OF cl(3) IH(3) [unfolded st]]] by simp
    have run: "close_files (i # js) s = Some ((set_files fa s)\<lparr>mem := m\<rparr>)"
      using False cl IH(1) by (simp add: s1_def [symmetric] st fd_free_def)
    have "(k \<in> set (i # js) \<longrightarrow> fd_free (fa ! k)) \<and> (k \<notin> set (i # js) \<longrightarrow> fa ! k = cur_files s ! k)" for k
      using IH(4) [of k] fa1(3) fa1(4) [of k] Cons.prems(2) by (cases "k = i") auto
    with run IH(2) fr show ?thesis by blast
  qed
qed

section \<open>Halting\<close>

text \<open>Kernel buffers stay clear of the page tables and of the window.\<close>

definition kernel_region :: "'a paging_scheme \<Rightarrow> addr \<times> nat \<Rightarrow> bool" where
  "kernel_region s r \<longleftrightarrow> (case r of (a, n) \<Rightarrow> separate a n PROG_WINDOW 0x400000 \<and> separate a n (page_directory s) 4096 \<and>
     separate a n (page_table_0 s) 4096 \<and> separate a n (page_table_1 s) 4096)"

lemma frame_byte_kernel:
  assumes "frame_out rs (mem s) m" "list_all (\<lambda>r. separate (fst r) (snd r) PROG_WINDOW 0x400000) rs" "i < 0x400000"
  shows "frame_byte (s\<lparr>mem := m\<rparr>) g i = frame_byte s g i"
proof -
  have "in_region PROG_WINDOW 0x400000 (PROG_WINDOW + i)" using assms(3) by (simp add: in_region_def word_less_nat_alt)
  then have "m (PROG_WINDOW + i) = mem s (PROG_WINDOW + i)"
    using assms(2) by (intro frame_outD [OF assms(1)]) (auto simp: list_all_iff)
  then show ?thesis by (simp add: frame_byte_def)
qed

lemma paging_inv_kernel:
  assumes "paging_inv s" "frame_out rs (mem s) m" "list_all (kernel_region s) rs"
  shows "paging_inv (s\<lparr>mem := m\<rparr>)"
  using assms(3) by (intro paging_inv_frame [OF assms(1,2)]) (auto simp: list_all_iff kernel_region_def)

lemma paging_inv_cong:
  "page_directory s = page_directory t \<Longrightarrow> page_table_0 s = page_table_0 t \<Longrightarrow> page_table_1 s = page_table_1 t \<Longrightarrow>
     cr0 s = cr0 t \<Longrightarrow> cr3 s = cr3 t \<Longrightarrow> prog_frame s = prog_frame t \<Longrightarrow> mem s = mem t \<Longrightarrow> paging_inv s = paging_inv t"
  by (simp add: paging_inv_def tables_outside_def ret_dir_ptr_def)

lemma frame_byte_cong:
  "prog_frame s = prog_frame t \<Longrightarrow> mem s = mem t \<Longrightarrow> frames s = frames t \<Longrightarrow> frame_byte s g i = frame_byte t g i"
  by (simp add: frame_byte_def)

lemma halt_process:
  fixes s :: "'a sysc_scheme"
  assumes inv: "paging_inv s" and n: "process_number s \<noteq> 0" and fw: "files_wf (cur_files s)"
    and lay: "list_all (kernel_region s) (clear_regions s)"
  defines "p \<equiv> pcb_heap s (cur_pcb s)"
  obtains m fa f s2 where "f = ucast (old_phys_addr p)" "frame_out (clear_regions s) (mem s) m" "list_all fd_free fa" "length fa = 8"
    "s2 = (set_files fa s)\<lparr>process_number := process_number s - 1, tss_esp0 := old_esp0 p, mem := m\<rparr>" "paging_inv s2"
    "sys_halt_c status s = Some (uint status,
       (switch_window f (s2\<lparr>mem := set_entry (page_directory s) 32 (prog_entry f) m\<rparr>))\<lparr>ebp := old_ebp p, cur_pcb := old_pcb_ptr p\<rparr>)"
    "paging_inv (switch_window f (s2\<lparr>mem := set_entry (page_directory s) 32 (prog_entry f) m\<rparr>))"
proof -
  define s1 where "s1 = s\<lparr>process_number := process_number s - 1\<rparr>"
  have fk: "files_ok s1" "cur_files s1 = cur_files s" "\<And>i. get_fd s1 i = cur_files s ! i"
    using fw by (simp_all add: s1_def files_ok_def cur_files_def get_fd_def files_wf_def)
  obtain m fa where cl: "close_files [0..<8] s1 = Some ((set_files fa s1)\<lparr>mem := m\<rparr>)" "length fa = 8"
    "frame_out (clear_regions s1) (mem s1) m" and free: "\<And>i. i < 8 \<Longrightarrow> fd_free (fa ! i)"
    using close_files_wf [OF fk(1), of "[0..<8]"] fw fk(3) by (auto simp: files_wf_def list_all_iff)
  have fr: "frame_out (clear_regions s) (mem s) m" using cl(3) by (simp add: s1_def clear_regions_def)
  define s2 where "s2 = (set_files fa s)\<lparr>process_number := process_number s - 1, tss_esp0 := old_esp0 p, mem := m\<rparr>"
  have "paging_inv s2 = paging_inv (s\<lparr>mem := m\<rparr>)" by (rule paging_inv_cong) (simp_all add: s2_def set_files_def)
  then have inv2: "paging_inv s2" using paging_inv_kernel [OF inv fr lay] by simp
  have e: "get_bigPage 32 s1 = page_directory s + 4 * 32" "get_bigPage 32 s2 = page_directory s + 4 * 32" "page_directory s + 4 * 32 \<noteq> 0"
  proof -
    have "get_bigPage 32 s1 = get_bigPage 32 s" by (simp add: s1_def get_bigPage_def ret_dir_ptr_def)
    then show "get_bigPage 32 s1 = page_directory s + 4 * 32" "page_directory s + 4 * 32 \<noteq> 0"
      using program_entry_address(1,2) [OF inv] by simp_all
    show "get_bigPage 32 s2 = page_directory s + 4 * 32"
      using program_entry_address(1) [OF inv2] by (simp add: s2_def set_files_def)
  qed
  define f where "f = (ucast (old_phys_addr p) :: 10 word)"
  have pd: "page_directory s2 = page_directory s" "mem s2 = m" "ret_dir_ptr (s2\<lparr>mem := x\<rparr>) = ret_dir_ptr s2" for x
    by (simp_all add: s2_def set_files_def ret_dir_ptr_def)
  note mv = move_program_page [OF inv2, of "old_phys_addr p", folded f_def, unfolded e pd]
  have q: "pcb_heap ((set_files fa s1)\<lparr>mem := m\<rparr>) (cur_pcb ((set_files fa s1)\<lparr>mem := m\<rparr>)) = p\<lparr>file_array := fa\<rparr>"
    by (simp add: p_def s1_def set_files_def)
  have s2': "((set_files fa s1)\<lparr>mem := m\<rparr>)\<lparr>tss_esp0 := old_esp0 p, mem := x\<rparr> = s2\<lparr>mem := x\<rparr>" for x
    by (simp add: s2_def s1_def set_files_def)
  have "halt_restore (page_directory s + 4 * 32) ((set_files fa s1)\<lparr>mem := m\<rparr>) =
      (switch_window f (s2\<lparr>mem := set_entry (page_directory s) 32 (prog_entry f) m\<rparr>))\<lparr>ebp := old_ebp p, cur_pcb := old_pcb_ptr p\<rparr>"
    unfolding halt_restore_def Let_def q using mv(1) s2' pd(3) by simp
  moreover have "(0xFF :: int) AND uint status = uint status"
  proof -
    have "(0xFF :: int) = mask 8" by (simp add: mask_eq_exp_minus_1)
    moreover have "uint status AND mask 8 = take_bit 8 (uint status)" by (simp add: take_bit_eq_mask)
    moreover have "take_bit 8 (uint status) = uint status" using uint_lt2p [of status] by (simp add: take_bit_int_eq_self)
    ultimately show ?thesis by (simp add: and.commute)
  qed
  ultimately have run: "sys_halt_c status s = Some (uint status,
       (switch_window f (s2\<lparr>mem := set_entry (page_directory s) 32 (prog_entry f) m\<rparr>))\<lparr>ebp := old_ebp p, cur_pcb := old_pcb_ptr p\<rparr>)"
    using n cl(1) e unfolding sys_halt_c_def Let_def s1_def [symmetric] PRO_IDX_def by simp
  have "list_all fd_free fa" using free cl(2) by (simp add: list_all_length)
  from that [OF f_def fr this cl(2) s2_def inv2 run] mv show thesis by simp
qed

end
