(* ===== verification/Process_Stack.thy ===== *)
theory Process_Stack
  imports Process
begin

text \<open>
  Processes call each other: \<open>sys_execute_c\<close> suspends the running process, \<open>sys_halt_c\<close> resumes it. The locale
  \<open>call_stack\<close> is the contract of such a pair; \<open>proc_inv\<close> is the invariant of the chain of control blocks
  under which the kernel meets it, for any interleaving with what the running process does in between.
\<close>

section \<open>The contract of calls and returns\<close>

text \<open>
  \<open>saved k s\<close> is the context that the call at depth \<open>k\<close> suspended. Inside the locale: whatever happens
  deeper in the stack, the return of a call reinstates the context in which the call was made.
\<close>

locale call_stack =
  fixes inv :: "'s \<Rightarrow> bool"
    and step :: "'s \<Rightarrow> 's \<Rightarrow> bool"
    and depth :: "'s \<Rightarrow> nat"
    and ctx :: "'s \<Rightarrow> 'c"
    and saved :: "nat \<Rightarrow> 's \<Rightarrow> 'c"
  assumes inv_step: "inv s \<Longrightarrow> step s t \<Longrightarrow> inv t"
    and call: "inv s \<Longrightarrow> step s t \<Longrightarrow> depth s < depth t \<Longrightarrow> saved (depth s) t = ctx s"
    and return: "inv s \<Longrightarrow> step s t \<Longrightarrow> depth t < depth s \<Longrightarrow> ctx t = saved (depth t) s"
    and keep: "inv s \<Longrightarrow> step s t \<Longrightarrow> k < depth s \<Longrightarrow> k < depth t \<Longrightarrow> saved k t = saved k s"
begin

lemma inv_steps: "step\<^sup>*\<^sup>* s t \<Longrightarrow> inv s \<Longrightarrow> inv t"
  by (induction rule: rtranclp_induct) (auto intro: inv_step)

lemma keep_above:
  assumes "(\<lambda>x y. step x y \<and> n < depth y)\<^sup>*\<^sup>* s t" "inv s" "n < depth s"
  shows "inv t \<and> n < depth t \<and> saved n t = saved n s"
  using assms by (induction rule: rtranclp_induct) (auto intro: inv_step simp: keep)

lemma call_returns:
  assumes "inv s" "step s a" "depth s < depth a" "(\<lambda>x y. step x y \<and> depth s < depth y)\<^sup>*\<^sup>* a b" "step b t" "depth t = depth s"
  shows "ctx t = ctx s"
proof -
  have "inv b \<and> depth s < depth b \<and> saved (depth s) b = saved (depth s) a"
    using keep_above [OF assms(4)] inv_step [OF assms(1,2)] assms(3) by blast
  then show ?thesis using return [of b t] call [OF assms(1-3)] assms(5,6) by simp
qed

end

section \<open>The chain of processes\<close>

abbreviation proc_depth :: "'a sysc_scheme \<Rightarrow> nat" where
  "proc_depth s \<equiv> unat (process_number s)"

text \<open>The frame that the window shows at a depth: frame 0 as after boot, then one frame from 8 MB on for each process.\<close>

definition frame_of :: "nat \<Rightarrow> 10 word" where
  "frame_of n = (if n = 0 then 0 else of_nat (n + 1))"

abbreviation pcb_at :: "'a procs_scheme \<Rightarrow> nat \<Rightarrow> pcb" where
  "pcb_at s k \<equiv> pcb_heap s (pcb_address (of_nat k))"

definition pcb_link :: "'a sysc_scheme \<Rightarrow> nat \<Rightarrow> bool" where
  "pcb_link s k \<longleftrightarrow> ucast (old_phys_addr (pcb_at s k)) = frame_of k \<and> files_wf (file_array (pcb_at s k)) \<and>
     (0 < k \<longrightarrow> old_pcb_ptr (pcb_at s k) = pcb_address (of_nat (k - 1)) \<and>
        old_esp0 (pcb_at s k) = EIGHT_MB - of_nat k * EIGHT_KB)"

definition proc_inv :: "'a sysc_scheme \<Rightarrow> bool" where
  "proc_inv s \<longleftrightarrow> paging_inv s \<and> list_all (kernel_region s) (clear_regions s) \<and> proc_depth s \<le> 6 \<and>
     prog_frame s = frame_of (proc_depth s) \<and> list_all (pcb_link s) [0..<proc_depth s] \<and>
     (0 < proc_depth s \<longrightarrow> cur_pcb s = pcb_address (of_nat (proc_depth s - 1)) \<and>
        tss_esp0 s = EIGHT_MB - process_number s * EIGHT_KB)"

text \<open>The memory of every process, the suspended ones included.\<close>

definition space :: "'a paging_scheme \<Rightarrow> nat \<Rightarrow> u32 \<Rightarrow> byte" where
  "space s k = (\<lambda>i. if i < 0x400000 then frame_byte s (frame_of (Suc k)) i else 0)"

text \<open>The running context and the contexts that the control blocks save.\<close>

definition proc_ctx :: "'a sysc_scheme \<Rightarrow> addr \<times> u32 \<times> 10 word \<times> u32 \<times> (pcb \<times> (u32 \<Rightarrow> byte)) list" where
  "proc_ctx s = (cur_pcb s, tss_esp0 s, prog_frame s, ebp s, map (\<lambda>k. (pcb_at s k, space s k)) [0..<proc_depth s])"

definition proc_saved :: "nat \<Rightarrow> 'a sysc_scheme \<Rightarrow> addr \<times> u32 \<times> 10 word \<times> u32 \<times> (pcb \<times> (u32 \<Rightarrow> byte)) list" where
  "proc_saved n s =
     (let p = pcb_at s n
      in (old_pcb_ptr p, old_esp0 p, ucast (old_phys_addr p), old_ebp p, map (\<lambda>k. (pcb_at s k, space s k)) [0..<n]))"

lemma pcb_address_inj:
  assumes "k < 8" "j < 8" "pcb_address (of_nat k) = pcb_address (of_nat j)"
  shows "k = j"
proof -
  have "unat (of_nat i * EIGHT_KB :: u32) = i * 0x2000" if "i < 8" for i
    using that by (simp add: EIGHT_KB_def unat_word_ariths unat_of_nat_addr)
  moreover have "of_nat k * EIGHT_KB = (of_nat j * EIGHT_KB :: u32)" using assms(3) by (simp add: pcb_address_def)
  ultimately show ?thesis using assms(1,2) by (metis mult_cancel2 zero_neq_numeral)
qed

lemma frame_of_inj: "k \<le> 6 \<Longrightarrow> j \<le> 6 \<Longrightarrow> frame_of k = frame_of j \<Longrightarrow> k = j"
proof -
  assume k: "k \<le> 6" "j \<le> 6" "frame_of k = frame_of j"
  have "unat (frame_of i) = (if i = 0 then 0 else i + 1)" if "i \<le> 6" for i
    using that by (auto simp: frame_of_def unat_of_nat simp del: of_nat_Suc of_nat_add)
  with k show "k = j" by (auto split: if_splits dest: arg_cong [of _ _ unat])
qed

section \<open>The effect of executing\<close>

lemma exec_frame_bytes:
  fixes s :: "'a sysc_scheme"
  assumes ok: "exec_ok l command cmd s" and fr: "frame_out (scratch_regions l s) (mem s) m" and i: "i < 0x400000"
  shows "frame_byte (switch_window f (s\<lparr>mem := set_entry (page_directory s) 32 v m\<rparr>)) g i = frame_byte s g i"
proof -
  have "frame_out [(page_directory s, 4096)] m (set_entry (page_directory s) 32 v m)" by (rule set_entry_frame) simp
  from frame_out_trans [OF fr this]
  have "frame_out (scratch_regions l s @ [(page_directory s, 4096)]) (mem s) (set_entry (page_directory s) 32 v m)" .
  moreover have "list_all (\<lambda>r. separate (fst r) (snd r) PROG_WINDOW 0x400000) (scratch_regions l s @ [(page_directory s, 4096)])"
    using ok by (auto simp: exec_ok_def fixed_regions_def list_all_iff)
  ultimately show ?thesis
    unfolding switch_window_frame_byte [OF i] using frame_byte_kernel i by blast
qed

lemma exec_pcb_cong:
  "cur_pcb s = cur_pcb t \<Longrightarrow> tss_esp0 s = tss_esp0 t \<Longrightarrow> ebp s = ebp t \<Longrightarrow> exec_pcb inp phys s = exec_pcb inp phys t"
  by (simp add: exec_pcb_def Let_def)

lemma exec_enter_fields [simp]:
  "mem (exec_enter p s) = mem s" "pcb_heap (exec_enter p s) = (pcb_heap s)(pcb_address (process_number s) := p)"
  "cur_pcb (exec_enter p s) = pcb_address (process_number s)" "process_number (exec_enter p s) = process_number s + 1"
  "tss_esp0 (exec_enter p s) = EIGHT_MB - (process_number s + 1) * EIGHT_KB" "ebp (exec_enter p s) = ebp s"
  "prog_frame (exec_enter p s) = prog_frame s" "frames (exec_enter p s) = frames s"
  "page_directory (exec_enter p s) = page_directory s" "page_table_0 (exec_enter p s) = page_table_0 s"
  "page_table_1 (exec_enter p s) = page_table_1 s" "cr0 (exec_enter p s) = cr0 s" "cr3 (exec_enter p s) = cr3 s"
  "open_dentry (exec_enter p s) = open_dentry s" "read_dentry (exec_enter p s) = read_dentry s"
  by (simp_all add: exec_enter_def Let_def)

lemma execute_effect:
  fixes s :: "'a sysc_scheme"
  assumes ok: "exec_ok l command cmd s" and nm: "command_name cmd name" and pf: "program_file s name data"
    and elf: "take 4 data = ELF_MAGIC" and len: "length data < 0x3B8000" and n: "process_number s < 6"
    and inp: "length cmd < length (l_input l)"
  obtains s' where
    "sys_execute_c l command s = Some (Inr \<lparr>ctx_eip = elf_entry data, ctx_cs = 0x23, ctx_esp = 0x83FFFFC, ctx_ds = 0x2B\<rparr>, s')"
    "process_number s' = process_number s + 1" "cur_pcb s' = pcb_address (process_number s)"
    "tss_esp0 s' = EIGHT_MB - (process_number s + 1) * EIGHT_KB" "ebp s' = ebp s"
    "prog_frame s' = ucast (process_number s + 2)" "paging_inv s'"
    "pcb_heap s' = (pcb_heap s)(pcb_address (process_number s) :=
       exec_pcb (cmd @ 0 # drop (Suc (length cmd)) (l_input l)) (ucast (prog_frame s)) s)"
    "\<forall>g i. g \<noteq> ucast (process_number s + 2) \<longrightarrow> i < 0x400000 \<longrightarrow> frame_byte s' g i = frame_byte s g i"
    "bytes_at (mem s') USER_PROG (length data) = data"
    "page_directory s' = page_directory s" "page_table_0 s' = page_table_0 s" "page_table_1 s' = page_table_1 s"
    "open_dentry s' = open_dentry s" "read_dentry s' = read_dentry s"
proof -
  obtain m s1 s2 where run: "sys_execute_c l command s = Some (Inr \<lparr>ctx_eip = elf_entry data, ctx_cs = 0x23, ctx_esp = 0x83FFFFC, ctx_ds = 0x2B\<rparr>,
       exec_enter (exec_pcb (cmd @ 0 # drop (Suc (length cmd)) (l_input l)) (ucast (prog_frame s)) s2) s2)"
    and s2: "s2 = keyboard_environment (s1\<lparr>mem := store_bytes (mem s1) USER_PROG (data @ [0])\<rparr>)"
    and fr: "frame_out (scratch_regions l s) (mem s) m"
    and s1: "s1 = switch_window (ucast (process_number s + 2)) (s\<lparr>mem := set_entry (page_directory s) 32 (prog_entry (ucast (process_number s + 2))) m\<rparr>)"
    and inv: "paging_inv s2" and pf: "prog_frame s2 = ucast (process_number s + 2)"
    by (rule execute_program [OF assms])
  define p where "p = exec_pcb (cmd @ 0 # drop (Suc (length cmd)) (l_input l)) (ucast (prog_frame s)) s2"
  have flds: "process_number s2 = process_number s" "ebp s2 = ebp s" "pcb_heap s2 = pcb_heap s" "cur_pcb s2 = cur_pcb s"
    "tss_esp0 s2 = tss_esp0 s" "page_directory s2 = page_directory s" "page_table_0 s2 = page_table_0 s" "page_table_1 s2 = page_table_1 s"
    "open_dentry s2 = open_dentry s" "read_dentry s2 = read_dentry s" "frames s2 = frames s1"
    by (simp_all add: s2 s1 switch_window_def)
  have p: "p = exec_pcb (cmd @ 0 # drop (Suc (length cmd)) (l_input l)) (ucast (prog_frame s)) s"
    unfolding p_def by (rule exec_pcb_cong) (simp_all add: flds)
  have inv': "paging_inv (exec_enter p s2)" using inv paging_inv_cong [of "exec_enter p s2" s2] by simp
  have fb: "frame_byte (exec_enter p s2) g i = frame_byte s g i" if "g \<noteq> ucast (process_number s + 2)" "i < 0x400000" for g i
  proof -
    have "prog_frame s1 = ucast (process_number s + 2)" unfolding s1 by simp
    then have "frame_byte (exec_enter p s2) g i = frame_byte s1 g i"
      using that(1) by (simp add: frame_byte_def pf flds)
    also have "\<dots> = frame_byte s g i" unfolding s1 by (rule exec_frame_bytes [OF ok fr that(2)])
    finally show ?thesis .
  qed
  have e: "bytes_at (mem s2) USER_PROG (length (data @ [0])) = data @ [0]"
    unfolding s2 using len bytes_at_store_bytes [of "data @ [0]" "mem s1" USER_PROG] by simp
  have d: "bytes_at (mem s2) USER_PROG (length data) = data"
    using arg_cong [OF e, of "take (length data)"] by simp
  from run [folded p_def] show thesis
    by (rule that) (simp_all add: flds pf inv' p [symmetric] fb d)
qed

section \<open>The chain grows\<close>

lemma small_process_number:
  assumes "process_number s < 6"
  shows "proc_depth s < 6" "ucast (process_number s + 2) = frame_of (Suc (proc_depth s))" "unat (process_number s + 1) = Suc (proc_depth s)"
    "process_number s + 1 = of_nat (Suc (proc_depth s))"
proof -
  show d: "proc_depth s < 6" using assms by (simp add: word_less_nat_alt)
  then have "process_number s \<in> {0, 1, 2, 3, 4, 5}" by (auto simp: word_unat_eq_iff)
  then show "ucast (process_number s + 2) = frame_of (Suc (proc_depth s))" by (auto simp: frame_of_def)
  show "unat (process_number s + 1) = Suc (proc_depth s)" using d by (simp add: unat_word_ariths)
  show "process_number s + 1 = of_nat (Suc (proc_depth s))" by (simp add: add.commute)
qed

lemma frame_field [simp]: "ucast (ucast (w :: 10 word) :: u32) = w"
  by (rule bit_word_eqI) (simp add: bit_simps)

lemma proc_savedI:
  assumes "old_pcb_ptr (pcb_at t n) = old_pcb_ptr (pcb_at s n)" "old_esp0 (pcb_at t n) = old_esp0 (pcb_at s n)"
    "old_phys_addr (pcb_at t n) = old_phys_addr (pcb_at s n)" "old_ebp (pcb_at t n) = old_ebp (pcb_at s n)"
    "\<And>k. k < n \<Longrightarrow> pcb_at t k = pcb_at s k" "\<And>k. k < n \<Longrightarrow> space t k = space s k"
  shows "proc_saved n t = proc_saved n s"
  using assms by (simp add: proc_saved_def Let_def)

lemma pcb_link_cong: "pcb_at t k = pcb_at s k \<Longrightarrow> pcb_link t k = pcb_link s k"
  by (simp add: pcb_link_def)

lemma files_wf_exec_pcb: "files_wf (file_array (exec_pcb inp phys s))"
  by (simp add: files_wf_def exec_pcb_def Let_def upt_rec fd_wf_def fd_free_def clear_fd_def nth_append)

lemma execute_grows:
  fixes s :: "'a sysc_scheme"
  assumes inv: "proc_inv s" and ok: "exec_ok l command cmd s" and nm: "command_name cmd name" and pf: "program_file s name data"
    and elf: "take 4 data = ELF_MAGIC" and len: "length data < 0x3B8000" and n: "process_number s < 6"
    and inp: "length cmd < length (l_input l)" and run: "sys_execute_c l command s = Some (r, t)"
  shows "proc_inv t" "proc_depth t = Suc (proc_depth s)" "proc_saved (proc_depth s) t = proc_ctx s"
    "\<And>k. k < proc_depth s \<Longrightarrow> proc_saved k t = proc_saved k s"
proof -
  obtain s' where e: "sys_execute_c l command s = Some (Inr \<lparr>ctx_eip = elf_entry data, ctx_cs = 0x23, ctx_esp = 0x83FFFFC, ctx_ds = 0x2B\<rparr>, s')"
    and f: "process_number s' = process_number s + 1" "cur_pcb s' = pcb_address (process_number s)"
    "tss_esp0 s' = EIGHT_MB - (process_number s + 1) * EIGHT_KB" "ebp s' = ebp s"
    "prog_frame s' = ucast (process_number s + 2)" "paging_inv s'"
    and heap: "pcb_heap s' = (pcb_heap s)(pcb_address (process_number s) :=
       exec_pcb (cmd @ 0 # drop (Suc (length cmd)) (l_input l)) (ucast (prog_frame s)) s)"
    and fb: "\<forall>g i. g \<noteq> ucast (process_number s + 2) \<longrightarrow> i < 0x400000 \<longrightarrow> frame_byte s' g i = frame_byte s g i"
    and "bytes_at (mem s') USER_PROG (length data) = data"
    and a: "page_directory s' = page_directory s" "page_table_0 s' = page_table_0 s" "page_table_1 s' = page_table_1 s"
    "open_dentry s' = open_dentry s" "read_dentry s' = read_dentry s"
    by (rule execute_effect [OF ok nm pf elf len n inp])
  have t: "t = s'" using e run by simp
  define d where "d = proc_depth s"
  note sm = small_process_number [OF n, folded d_def]
  have pn: "process_number s = of_nat d" by (simp add: d_def)
  have new: "pcb_at s' d = exec_pcb (cmd @ 0 # drop (Suc (length cmd)) (l_input l)) (ucast (prog_frame s)) s" by (simp add: heap pn)
  have old: "pcb_at s' k = pcb_at s k" if "k < d" for k
    using pcb_address_inj [of k d] that sm(1) by (auto simp: heap pn)
  have sp: "space s' k = space s k" if "k < d" for k
  proof -
    have "frame_of (Suc k) \<noteq> frame_of (Suc d)" using frame_of_inj [of "Suc k" "Suc d"] that sm(1) by auto
    then show ?thesis using fb by (auto simp: space_def sm(2))
  qed
  have i: "list_all (kernel_region s) (clear_regions s)" "prog_frame s = frame_of d" "list_all (pcb_link s) [0..<d]"
    "0 < d \<Longrightarrow> cur_pcb s = pcb_address (of_nat (d - 1)) \<and> tss_esp0 s = EIGHT_MB - of_nat d * EIGHT_KB"
    using inv by (simp_all add: proc_inv_def d_def)
  have link: "pcb_link s' d"
    unfolding pcb_link_def new using files_wf_exec_pcb i(2,4) by (simp add: exec_pcb_def Let_def)
  have links: "list_all (pcb_link s') [0..<Suc d]"
    using i(3) link pcb_link_cong [OF old] by (auto simp: list_all_iff less_Suc_eq)
  have kr: "list_all (kernel_region s') (clear_regions s')"
    using i(1) by (simp add: clear_regions_def kernel_region_def a)
  show "proc_depth t = Suc (proc_depth s)" by (simp add: t f(1) sm(3) d_def)
  show "proc_inv t"
    unfolding t proc_inv_def f(1) sm(3) using f(2,3,5,6) sm(1,2,4) links kr pn by simp
  show "proc_saved (proc_depth s) t = proc_ctx s"
    unfolding t d_def [symmetric] proc_saved_def proc_ctx_def Let_def new
    using old sp by (simp add: exec_pcb_def Let_def)
  show "proc_saved k t = proc_saved k s" if "k < proc_depth s" for k
    unfolding t by (rule proc_savedI) (use that old sp in \<open>simp_all add: d_def\<close>)
qed

section \<open>The chain shrinks\<close>

text \<open>What \<open>sys_halt_c\<close> leaves behind when a process is running.\<close>

lemma halt_effect:
  fixes s :: "'a sysc_scheme"
  assumes inv: "proc_inv s" and n: "process_number s \<noteq> 0"
  obtains fa t where "sys_halt_c status s = Some (uint status, t)" "process_number t = process_number s - 1"
    "cur_pcb t = old_pcb_ptr (pcb_heap s (cur_pcb s))" "tss_esp0 t = old_esp0 (pcb_heap s (cur_pcb s))"
    "ebp t = old_ebp (pcb_heap s (cur_pcb s))" "prog_frame t = ucast (old_phys_addr (pcb_heap s (cur_pcb s)))" "paging_inv t"
    "pcb_heap t = (pcb_heap s)(cur_pcb s := (pcb_heap s (cur_pcb s))\<lparr>file_array := fa\<rparr>)" "list_all fd_free fa" "length fa = 8"
    "\<forall>g i. i < 0x400000 \<longrightarrow> frame_byte t g i = frame_byte s g i"
    "page_directory t = page_directory s" "page_table_0 t = page_table_0 s" "page_table_1 t = page_table_1 s"
    "open_dentry t = open_dentry s" "read_dentry t = read_dentry s"
proof -
  define p where "p = pcb_heap s (cur_pcb s)"
  have pg: "paging_inv s" and lay: "list_all (kernel_region s) (clear_regions s)" using inv by (simp_all add: proc_inv_def)
  have d: "0 < proc_depth s" using n by (simp add: word_unat_eq_iff)
  then have "pcb_link s (proc_depth s - 1)" "cur_pcb s = pcb_address (of_nat (proc_depth s - 1))"
    using inv by (auto simp: proc_inv_def list_all_iff)
  then have fw: "files_wf (cur_files s)" by (simp add: pcb_link_def cur_files_def)
  obtain m fa f s2 where f: "f = ucast (old_phys_addr p)" and fr: "frame_out (clear_regions s) (mem s) m"
    and fa: "list_all fd_free fa" "length fa = 8"
    and s2: "s2 = (set_files fa s)\<lparr>process_number := process_number s - 1, tss_esp0 := old_esp0 p, mem := m\<rparr>" and "paging_inv s2"
    and run: "sys_halt_c status s = Some (uint status,
       (switch_window f (s2\<lparr>mem := set_entry (page_directory s) 32 (prog_entry f) m\<rparr>))\<lparr>ebp := old_ebp p, cur_pcb := old_pcb_ptr p\<rparr>)"
    and pg2: "paging_inv (switch_window f (s2\<lparr>mem := set_entry (page_directory s) 32 (prog_entry f) m\<rparr>))"
    unfolding p_def by (rule halt_process [OF pg n fw lay])
  define u where "u = switch_window f (s2\<lparr>mem := set_entry (page_directory s) 32 (prog_entry f) m\<rparr>)"
  have flds: "process_number u = process_number s - 1" "tss_esp0 u = old_esp0 p" "prog_frame u = f"
    "pcb_heap u = (pcb_heap s)(cur_pcb s := p\<lparr>file_array := fa\<rparr>)" "page_directory u = page_directory s"
    "page_table_0 u = page_table_0 s" "page_table_1 u = page_table_1 s" "open_dentry u = open_dentry s" "read_dentry u = read_dentry s"
    by (simp_all add: u_def switch_window_def s2 set_files_def p_def)
  have inv': "paging_inv (u\<lparr>ebp := x, cur_pcb := y\<rparr>)" for x y
    using pg2 paging_inv_cong [of "u\<lparr>ebp := x, cur_pcb := y\<rparr>" u] by (simp add: u_def)
  have fb: "frame_byte (u\<lparr>ebp := x, cur_pcb := y\<rparr>) g i = frame_byte s g i" if "i < 0x400000" for x y g i
  proof -
    have "frame_out [(page_directory s, 4096)] m (set_entry (page_directory s) 32 (prog_entry f) m)" by (rule set_entry_frame) simp
    from frame_out_trans [OF fr this]
    have fo: "frame_out (clear_regions s @ [(page_directory s, 4096)]) (mem s) (set_entry (page_directory s) 32 (prog_entry f) m)" .
    have la: "list_all (\<lambda>r. separate (fst r) (snd r) PROG_WINDOW 0x400000) (clear_regions s @ [(page_directory s, 4096)])"
      using lay pg by (auto simp: list_all_iff kernel_region_def paging_inv_def tables_outside_def)
    have "frame_byte (u\<lparr>ebp := x, cur_pcb := y\<rparr>) g i = frame_byte u g i" by (simp add: frame_byte_def)
    also have "\<dots> = frame_byte (s2\<lparr>mem := set_entry (page_directory s) 32 (prog_entry f) m\<rparr>) g i"
      unfolding u_def by (rule switch_window_frame_byte [OF that])
    also have "\<dots> = frame_byte (s\<lparr>mem := set_entry (page_directory s) 32 (prog_entry f) m\<rparr>) g i"
      by (rule frame_byte_cong) (simp_all add: s2 set_files_def)
    also have "\<dots> = frame_byte s g i" by (rule frame_byte_kernel [OF fo la that])
    finally show ?thesis .
  qed
  from run [folded u_def] show thesis
    by (rule that [of "u\<lparr>ebp := old_ebp p, cur_pcb := old_pcb_ptr p\<rparr>" fa])
      (simp_all add: flds f fa fb inv' p_def)
qed

lemma halt_shrinks:
  fixes s :: "'a sysc_scheme"
  assumes inv: "proc_inv s" and n: "process_number s \<noteq> 0" and run: "sys_halt_c status s = Some (r, t)"
  shows "proc_inv t" "Suc (proc_depth t) = proc_depth s" "proc_ctx t = proc_saved (proc_depth t) s"
    "\<And>k. k < proc_depth t \<Longrightarrow> proc_saved k t = proc_saved k s"
proof -
  define p where "p = pcb_heap s (cur_pcb s)"
  obtain fa t' where e: "sys_halt_c status s = Some (uint status, t')" and f: "process_number t' = process_number s - 1"
    "cur_pcb t' = old_pcb_ptr p" "tss_esp0 t' = old_esp0 p" "ebp t' = old_ebp p" "prog_frame t' = ucast (old_phys_addr p)" "paging_inv t'"
    and heap: "pcb_heap t' = (pcb_heap s)(cur_pcb s := p\<lparr>file_array := fa\<rparr>)" and fa: "list_all fd_free fa" "length fa = 8"
    and fb: "\<forall>g i. i < 0x400000 \<longrightarrow> frame_byte t' g i = frame_byte s g i"
    and a: "page_directory t' = page_directory s" "page_table_0 t' = page_table_0 s" "page_table_1 t' = page_table_1 s"
    "open_dentry t' = open_dentry s" "read_dentry t' = read_dentry s"
    unfolding p_def by (rule halt_effect [OF inv n])
  have t: "t = t'" using e run by simp
  define d where "d = proc_depth s - 1"
  have d: "proc_depth s = Suc d" using n by (simp add: d_def word_unat_eq_iff)
  have i: "list_all (kernel_region s) (clear_regions s)" "list_all (pcb_link s) [0..<Suc d]" "Suc d \<le> 6" "cur_pcb s = pcb_address (of_nat d)"
    using inv by (simp_all add: proc_inv_def d)
  have pd: "proc_depth t = d"
    using d n by (simp add: t f(1) unat_minus_one)
  then have pn: "process_number t = of_nat d" by (simp add: pd [symmetric])
  have p: "p = pcb_at s d" by (simp add: p_def i(4))
  have old: "pcb_at t k = pcb_at s k" if "k < d" for k
    using pcb_address_inj [of k d] that i(3) by (auto simp: t heap i(4))
  have sp: "space t k = space s k" for k using fb by (auto simp: space_def t)
  have link: "pcb_link s d" using i(2) by simp
  have kr: "list_all (kernel_region t) (clear_regions t)"
    using i(1) by (simp add: clear_regions_def kernel_region_def a t)
  have links: "list_all (pcb_link t) [0..<d]"
    using i(2) pcb_link_cong [OF old] by (auto simp: list_all_iff)
  show "Suc (proc_depth t) = proc_depth s" by (simp add: pd d)
  show "proc_inv t"
    unfolding proc_inv_def pd unfolding pn using f(2,3,5,6) [folded t] i(3) links kr link by (simp add: p pcb_link_def)
  show "proc_ctx t = proc_saved (proc_depth t) s"
    unfolding proc_ctx_def proc_saved_def Let_def pd using old sp f p by (simp add: t)
  show "proc_saved k t = proc_saved k s" if "k < proc_depth t" for k
    by (rule proc_savedI) (use that old sp in \<open>simp_all add: pd\<close>)
qed

section \<open>Failing to execute\<close>

text \<open>A name that is not in the directory, one that is not a regular file, or a file without the magic bytes.\<close>

definition not_executable :: "'a fsys_scheme \<Rightarrow> byte list \<Rightarrow> bool" where
  "not_executable s name \<longleftrightarrow>
     (case dir_lookup name s of
        None \<Rightarrow> True
      | Some j \<Rightarrow> entry_type (filesys_ptr s) j (mem s) \<noteq> REG_FILE \<or>
          (let data = file_content (filesys_ptr s) (bblk s) (entry_inode (filesys_ptr s) j (mem s)) (mem s)
           in program_file s name data \<and> take 4 data \<noteq> ELF_MAGIC))"

lemma exec_check_fails:
  fixes s :: "'a sysc_scheme"
  assumes ok: "exec_ok l command cmd s" and nm: "command_name cmd name" and no: "not_executable s name"
  obtains m where "exec_check l (exec_name l command s) = Some (False, s\<lparr>mem := m\<rparr>)" "frame_out (scratch_regions l s) (mem s) m"
proof (cases "dir_lookup name s")
  case None
  note n = exec_name_arg [OF ok nm]
  obtain m1 where s1: "exec_name l command s = s\<lparr>mem := m1\<rparr>" using n(6) by blast
  have "dir_lookup name (s\<lparr>mem := m1\<rparr>) = None" using n(5) None s1 by simp
  then have "name \<notin> set (dir_names (s\<lparr>mem := m1\<rparr>))" by (auto simp: dir_lookup_def dir_names_def find_None_iff)
  moreover have "l_dentry l \<noteq> NULL" using ok by (simp add: exec_ok_def)
  ultimately obtain m where m: "read_dentry_by_name (l_file_name l) (l_dentry l) (s\<lparr>mem := m1\<rparr>) = Some (-1, s\<lparr>mem := m\<rparr>)"
    "frame_out [(filename_buf s, 34)] m1 m"
    using by_name_missing [OF n(2,3) [unfolded s1], of "l_dentry l"] by auto
  have "frame_out (scratch_regions l s @ [(filename_buf s, 34)]) (mem s) m"
    using n(1) m(2) by (auto simp: s1 intro: frame_out_trans)
  then have fr: "frame_out (scratch_regions l s) (mem s) m" by (rule frame_out_weaken) (simp add: scratch_regions_def)
  have "exec_check l (exec_name l command s) = Some (False, s\<lparr>mem := m\<rparr>)"
    unfolding s1 exec_check_def m(1) by simp
  from that [OF this fr] show thesis .
next
  case (Some j)
  show thesis
  proof (cases "entry_type (filesys_ptr s) j (mem s) = REG_FILE")
    case False
    obtain m1 m where s1: "exec_name l command s = s\<lparr>mem := m1\<rparr>"
      and rd: "read_dentry_by_name (l_file_name l) (l_dentry l) (s\<lparr>mem := m1\<rparr>) = Some (0, s\<lparr>mem := m\<rparr>)"
      and fr: "frame_out (scratch_regions l s) (mem s) m"
      and ty: "load32 m (filetype_at (l_dentry l)) \<noteq> REG_FILE"
      by (rule exec_lookup [OF ok nm Some]) (simp add: False)
    have "exec_check l (exec_name l command s) = Some (False, s\<lparr>mem := m\<rparr>)"
      unfolding s1 exec_check_def rd using ty by simp
    from that [OF this fr] show thesis .
  next
    case True
    then obtain data where pf: "program_file s name data" and elf: "take 4 data \<noteq> ELF_MAGIC"
      using no Some by (auto simp: not_executable_def Let_def)
    show thesis
    proof (rule program_fileE [OF pf])
      fix j ino
      assume j: "dir_lookup name s = Some j" "entry_type (filesys_ptr s) j (mem s) = REG_FILE"
        "ino = entry_inode (filesys_ptr s) j (mem s)" "inode_ok (filesys_ptr s) (bblk s) ino (mem s)"
        "data = file_content (filesys_ptr s) (bblk s) ino (mem s)" "32 \<le> length data"
        "bb_D (bblk s) \<le> inode_word (filesys_ptr s) ino 0 (mem s)"
      obtain m where "exec_check l (exec_name l command s) = Some (take 4 data = ELF_MAGIC, s\<lparr>mem := m\<rparr>)"
        "frame_out (scratch_regions l s) (mem s) m"
        by (rule exec_check_file [OF ok nm j])
      with that elf show thesis by simp
    qed
  qed
qed

lemma execute_fails:
  fixes s :: "'a sysc_scheme"
  assumes ok: "exec_ok l command cmd s" and nm: "command_name cmd name"
    and no: "6 \<le> process_number s \<or> not_executable s name"
  obtains m where "sys_execute_c l command s = Some (Inl (-1), s\<lparr>mem := m\<rparr>)" "frame_out (scratch_regions l s) (mem s) m"
proof (cases "6 \<le> process_number s")
  case True
  then show thesis using that [of "mem s"] by (simp add: sys_execute_c_def)
next
  case False
  with no obtain m where m: "exec_check l (exec_name l command s) = Some (False, s\<lparr>mem := m\<rparr>)" "frame_out (scratch_regions l s) (mem s) m"
    using exec_check_fails [OF ok nm] by metis
  with False that show thesis by (simp add: sys_execute_c_def)
qed

section \<open>The steps of the system\<close>

text \<open>
  Everything that the running process and the kernel on its behalf do between the two calls: they write
  memory, but not the page tables, and change the descriptors of the running process.
\<close>

definition same_process :: "'a sysc_scheme \<Rightarrow> 'a sysc_scheme \<Rightarrow> bool" where
  "same_process s t \<longleftrightarrow> cur_pcb t = cur_pcb s \<and> process_number t = process_number s \<and> tss_esp0 t = tss_esp0 s \<and>
     prog_frame t = prog_frame s \<and> frames t = frames s \<and> page_directory t = page_directory s \<and>
     page_table_0 t = page_table_0 s \<and> page_table_1 t = page_table_1 s \<and> open_dentry t = open_dentry s \<and>
     read_dentry t = read_dentry s \<and> paging_inv t \<and> (files_wf (cur_files s) \<longrightarrow> files_wf (cur_files t)) \<and>
     pcb_heap t = pcb_heap (set_files (cur_files t) s)"

inductive proc_step :: "'a sysc_scheme \<Rightarrow> 'a sysc_scheme \<Rightarrow> bool" where
  execute: "exec_ok l command cmd s \<Longrightarrow> command_name cmd name \<Longrightarrow>
     not_executable s name \<or> program_file s name data \<and> length data < 0x3B8000 \<Longrightarrow> length cmd < length (l_input l) \<Longrightarrow>
     sys_execute_c l command s = Some (r, t) \<Longrightarrow> proc_step s t"
| halt: "sys_halt_c status s = Some (r, t) \<Longrightarrow> proc_step s t"
| work: "same_process s t \<Longrightarrow> proc_step s t"

lemma same_process_mem: "paging_inv (s\<lparr>mem := m\<rparr>) \<Longrightarrow> same_process s (s\<lparr>mem := m\<rparr>)"
  by (simp add: same_process_def cur_files_def set_files_def)

text \<open>A process writes to its window, and the kernel closes one of its files.\<close>

lemma user_write_step:
  assumes "paging_inv s" "in_region PROG_WINDOW 0x400000 a"
  shows "proc_step s (s\<lparr>mem := (mem s)(a := v)\<rparr>)"
proof -
  have "frame_out [(PROG_WINDOW, 0x400000)] (mem s) ((mem s)(a := v))" using assms(2) by (auto simp: frame_out_def)
  then have "paging_inv (s\<lparr>mem := (mem s)(a := v)\<rparr>)"
    using assms(1) by (intro paging_inv_frame) (auto simp: paging_inv_def tables_outside_def separate_sym)
  then show ?thesis by (intro proc_step.work same_process_mem)
qed

lemma sys_close_step:
  fixes s :: "'a sysc_scheme"
  assumes inv: "proc_inv s" and n: "process_number s \<noteq> 0" and run: "sys_close_c fd s = Some (r, t)"
  shows "proc_step s t"
proof (cases "fd < 2 \<or> FD_SIZE < fd \<or> fd_free (get_fd s (nat fd))")
  case True
  then have "t = s" using run by (auto simp: sys_close_c_def fd_free_def split: if_splits)
  then show ?thesis using inv proc_step.work [OF same_process_mem [of "mem s" s]] by (simp add: proc_inv_def)
next
  case False
  define i where "i = nat fd"
  have i: "i < 8" "fd = int i" "2 \<le> i" using False by (auto simp: i_def FD_SIZE_def)
  have d: "0 < proc_depth s" using n by (simp add: word_unat_eq_iff)
  then have "pcb_link s (proc_depth s - 1)" "cur_pcb s = pcb_address (of_nat (proc_depth s - 1))"
    using inv by (auto simp: proc_inv_def list_all_iff)
  then have fw: "files_wf (cur_files s)" by (simp add: pcb_link_def cur_files_def)
  then have fk: "files_ok s" "fd_wf i (get_fd s i)" using i by (auto simp: files_wf_def files_ok_def get_fd_def list_all_iff)
  define fa where "fa = (cur_files s)[i := (get_fd s i)\<lparr>flags := 0\<rparr>]"
  obtain tbl m where c: "file_op_ptr (get_fd s i) = Some tbl" "close_ptr tbl (int i) s = Some (0, (set_files fa s)\<lparr>mem := m\<rparr>)"
    "frame_out (clear_regions s) (mem s) m"
    unfolding fa_def by (rule close_wf [OF fk(1) i(1) fk(2)]) (use False in \<open>simp add: i_def\<close>)
  have t: "t = (set_files fa s)\<lparr>mem := m\<rparr>"
    using run False c i by (auto simp: sys_close_c_def fd_free_def split: if_splits)
  have "paging_inv (s\<lparr>mem := m\<rparr>)" using inv c(3) by (intro paging_inv_kernel) (auto simp: proc_inv_def)
  then have "paging_inv t" using paging_inv_cong [of t "s\<lparr>mem := m\<rparr>"] by (simp add: t set_files_def)
  moreover have "files_wf fa"
    using fw i by (auto simp: files_wf_def fa_def list_all_iff nth_list_update fd_wf_def fd_free_def)
  moreover have "cur_files t = fa" by (simp add: t set_files_def cur_files_def)
  ultimately have "same_process s t" by (simp add: same_process_def t set_files_def)
  then show ?thesis by (rule proc_step.work)
qed

lemma same_process_keeps:
  assumes inv: "proc_inv s" and sp: "same_process s t"
  shows "proc_inv t" "proc_depth t = proc_depth s" "k < proc_depth s \<Longrightarrow> proc_saved k t = proc_saved k s"
proof -
  define d where "d = proc_depth s"
  have d6: "d \<le> 6" using inv by (simp add: proc_inv_def d_def)
  have eq: "cur_pcb t = cur_pcb s" "process_number t = process_number s" "tss_esp0 t = tss_esp0 s" "prog_frame t = prog_frame s"
    "frames t = frames s" and heap: "pcb_heap t = (pcb_heap s)(cur_pcb s := (pcb_heap s (cur_pcb s))\<lparr>file_array := cur_files t\<rparr>)"
    using sp by (simp_all add: same_process_def set_files_def)
  show "proc_depth t = proc_depth s" by (simp add: eq)
  have i: "list_all (kernel_region s) (clear_regions s)" "list_all (pcb_link s) [0..<d]" "0 < d \<Longrightarrow> cur_pcb s = pcb_address (of_nat (d - 1))"
    using inv by (simp_all add: proc_inv_def d_def)
  have same: "pcb_at t k = pcb_at s k" if "Suc k < d" for k
    using pcb_address_inj [of k "d - 1"] that d6 i(3) heap by auto
  have cur: "pcb_at t (d - 1) = (pcb_at s (d - 1))\<lparr>file_array := cur_files t\<rparr>" "cur_files s = file_array (pcb_at s (d - 1))" if "0 < d"
    using fun_cong [OF heap, of "cur_pcb s"] i(3) [OF that] by simp_all (simp add: cur_files_def)
  have link: "pcb_link t k" if "k < d" for k
  proof (cases "Suc k < d")
    case True
    then show ?thesis using i(2) that pcb_link_cong [OF same] by (simp add: list_all_iff)
  next
    case False
    then have k: "k = d - 1" "0 < d" using that by simp_all
    have l: "pcb_link s k" using i(2) that by (simp add: list_all_iff)
    then have "files_wf (cur_files t)" using sp cur(2) k by (simp add: same_process_def pcb_link_def)
    then show ?thesis using l cur(1) k by (simp add: pcb_link_def)
  qed
  show "proc_inv t"
    using inv sp link unfolding proc_inv_def same_process_def d_def
    by (simp add: clear_regions_def kernel_region_def list_all_iff)
  have spc: "space t k = space s k" if "Suc k < d" for k
  proof -
    have "frame_of (Suc k) \<noteq> frame_of d" using frame_of_inj [of "Suc k" d] that d6 by auto
    moreover have "prog_frame s = frame_of d" using inv by (simp add: proc_inv_def d_def)
    ultimately show ?thesis by (auto simp: space_def frame_byte_def eq)
  qed
  have old: "old_pcb_ptr (pcb_at t k) = old_pcb_ptr (pcb_at s k)" "old_esp0 (pcb_at t k) = old_esp0 (pcb_at s k)"
    "old_phys_addr (pcb_at t k) = old_phys_addr (pcb_at s k)" "old_ebp (pcb_at t k) = old_ebp (pcb_at s k)"
    by (simp_all add: heap)
  show "proc_saved k t = proc_saved k s" if "k < proc_depth s"
    by (rule proc_savedI [OF old]) (use that same spc in \<open>simp_all add: d_def\<close>)
qed

lemma proc_step_effect:
  assumes inv: "proc_inv s" and st: "proc_step s t"
  shows "proc_inv t \<and>
     (proc_depth t = Suc (proc_depth s) \<and> proc_saved (proc_depth s) t = proc_ctx s \<or>
      Suc (proc_depth t) = proc_depth s \<and> proc_ctx t = proc_saved (proc_depth t) s \<or> proc_depth t = proc_depth s) \<and>
     (\<forall>k. k < proc_depth s \<longrightarrow> k < proc_depth t \<longrightarrow> proc_saved k t = proc_saved k s)"
  using st
proof cases
  case (execute l command cmd name data r)
  show ?thesis
  proof (cases "6 \<le> process_number s \<or> not_executable s name")
    case True
    obtain m where m: "sys_execute_c l command s = Some (Inl (-1), s\<lparr>mem := m\<rparr>)" "frame_out (scratch_regions l s) (mem s) m"
      by (rule execute_fails [OF execute(1,2) True])
    have "t = s\<lparr>mem := m\<rparr>" using m(1) execute(5) by simp
    then have "same_process s t" using exec_intact(1) [OF execute(1) m(2)] same_process_mem by blast
    from same_process_keeps [OF inv this] show ?thesis by simp
  next
    case False
    then have pf: "program_file s name data" "length data < 0x3B8000" "process_number s < 6" using execute(3) by auto
    then have "take 4 data = ELF_MAGIC"
      using False by (auto simp: not_executable_def program_file_def Let_def split: option.splits)
    note g = execute_grows [OF inv execute(1,2) pf(1) this pf(2,3) execute(4,5)]
    then show ?thesis by simp
  qed
next
  case (halt status r)
  show ?thesis
  proof (cases "process_number s = 0")
    case True
    then have "t = s" using halt by (simp add: sys_halt_c_def)
    then show ?thesis using inv by simp
  next
    case False
    from halt_shrinks [OF inv this halt] show ?thesis by simp
  qed
next
  case work
  from same_process_keeps [OF inv work] show ?thesis by simp
qed

interpretation kernel_calls: call_stack proc_inv proc_step proc_depth proc_ctx proc_saved
proof
  fix s t :: "'a sysc_scheme" and k
  assume "proc_inv s" "proc_step s t"
  note e = proc_step_effect [OF this]
  show "proc_inv t" using e by blast
  show "proc_saved (proc_depth s) t = proc_ctx s" if "proc_depth s < proc_depth t" using e that by auto
  show "proc_ctx t = proc_saved (proc_depth t) s" if "proc_depth t < proc_depth s" using e that by auto
  show "proc_saved k t = proc_saved k s" if "k < proc_depth s" "k < proc_depth t" using e that by blast
qed

end
