(* ===== verification/Processes.thy ===== *)
theory Processes
  imports Process_Stack
begin

text \<open>
  The properties of \<open>sys_execute_c\<close> and \<open>sys_halt_c\<close>, alone and in any interleaving, and a concrete kernel
  with an executable file on which they are applied.
\<close>

section \<open>The state after boot\<close>

lemma clear_table_frame: "frame_out [(t, 4096)] m (clear_table t m)"
proof -
  have gen: "frame_out [(t, 4096)] m (fold (\<lambda>i. set_entry t (of_nat i) 0) is m)" if "set is \<subseteq> {..<1024}" for "is" :: "nat list"
    using that
  proof (induction "is" arbitrary: m)
    case (Cons i js)
    have "(of_nat i :: u32) < 1024" using Cons.prems by (simp add: word_less_nat_alt unat_of_nat_addr)
    then have "frame_out [(t, 4096)] m (set_entry t (of_nat i) 0 m)" by (rule set_entry_frame)
    then show ?case using Cons.prems by (auto intro: frame_out_step Cons.IH)
  qed simp
  show ?thesis unfolding clear_table_def by (rule gen) auto
qed

lemma build_tables_frame: "frame_out [(pd, 4096), (pt0, 4096), (pt1, 4096)] m (build_tables pd pt0 pt1 m)"
proof -
  let ?rs = "[(pd, 4096), (pt0, 4096), (pt1, 4096)]"
  have step: "frame_out ?rs m (set_entry a i v m')" if "frame_out ?rs m m'" "a \<in> {pd, pt0, pt1}" "i < 1024" for a i v m'
    using that by (intro frame_out_step [OF that(1) set_entry_frame]) auto
  have "frame_out ?rs m (clear_table pt0 (clear_table pd m))"
    using frame_out_trans [OF clear_table_frame clear_table_frame] by (rule frame_out_weaken) auto
  then show ?thesis unfolding build_tables_def Let_def by (intro step) (simp_all add: paging_consts)
qed

lemma boot_frame:
  assumes "boot_ready s" "list_all (kernel_region s) [(a, n)]" "in_region a n x"
  shows "mem (init_paging s) x = mem s x"
proof -
  have "\<not> in_region PROG_WINDOW 0x400000 x" using separateD [of a n PROG_WINDOW] assms(2,3) by (auto simp: kernel_region_def)
  then have "mem (init_paging s) x = build_tables (page_directory s) (page_table_0 s) (page_table_1 s) (mem s) x"
    by (simp add: init_paging_eq(1) [OF assms(1)] switch_window_outside)
  also have "\<dots> = mem s x"
    by (rule frame_outD [OF build_tables_frame _ assms(3)]) (use assms(2) in \<open>auto simp: kernel_region_def separate_sym\<close>)
  finally show ?thesis .
qed

text \<open>What the disk offers depends on the image only.\<close>

lemma image_transfer:
  fixes s :: "'a fsys_scheme" and t :: "'b fsys_scheme"
  assumes "dir_ok s" "filesys_ptr t = filesys_ptr s" "bblk t = bblk s"
    and img: "\<And>x. in_region (filesys_ptr s) (image_size (bblk s)) x \<Longrightarrow> mem t x = mem s x"
  shows "dir_lookup name t = dir_lookup name s" "program_file s name data \<Longrightarrow> program_file t name data"
proof -
  have fs: "fs_frame s (mem t)" unfolding fs_frame_def using img in_region_mono [OF _ image_prefix] by blast
  show l: "dir_lookup name t = dir_lookup name s" for name
    using dir_frame(4) [OF assms(1) fs, of name] assms(2,3) by (simp add: dir_lookup_def n_entries_def)
  assume "program_file s name data"
  then show "program_file t name data"
  proof (rule program_fileE)
    fix j ino
    assume j: "dir_lookup name s = Some j" "entry_type (filesys_ptr s) j (mem s) = REG_FILE"
      "ino = entry_inode (filesys_ptr s) j (mem s)" and ok: "inode_ok (filesys_ptr s) (bblk s) ino (mem s)"
      and d: "data = file_content (filesys_ptr s) (bblk s) ino (mem s)" "32 \<le> length data"
        "bb_D (bblk s) \<le> inode_word (filesys_ptr s) ino 0 (mem s)"
    have "j < 63" using dir_lookup_less [OF j(1)] assms(1) by (simp add: dir_ok_def)
    note ent = entry_frame [OF fs this] and agree = image_agree [OF ok img]
    have "inode_word (filesys_ptr s) ino 0 (mem t) = inode_word (filesys_ptr s) ino 0 (mem s)"
      using agree(1) by (simp add: inode_size_def word_unat_eq_iff)
    with j d ent agree show "program_file t name data"
      by (simp add: program_file_def l assms(2,3) Let_def)
  qed
qed

section \<open>A concrete kernel\<close>

text \<open>
  An image with the directory and one executable file \<open>sh\<close> of 32 bytes whose entry point is \<^verbatim>\<open>0x08048094\<close>.
  The command line \<open>sh\<close> is in kernel memory, as for the first process.
\<close>

definition shell_file :: "byte list" where
  "shell_file = ELF_MAGIC @ replicate 20 1 @ bytes32 0x08048094 @ replicate 4 2"

definition shell_mem :: memory where
  "shell_mem = fold (\<lambda>(a, bs) m. store_bytes m a bs)
     [(0x100000, bytes32 2 @ bytes32 1 @ bytes32 2),
      (0x100040, [46]), (0x100060, bytes32 1),
      (0x100080, [115, 104]), (0x1000A0, bytes32 2),
      (0x101000, bytes32 32 @ bytes32 1),
      (0x103000, shell_file),
      (0x200000, [115, 104]), (0x200100, [110, 111]), (0x420000, ELF_MAGIC)] (\<lambda>_. 0)"

definition shell_boot :: sysc where
  "shell_boot = paging.extend boot_machine (sysc.fields 0 0x420000 0x800000 0x7FFF00)
     \<lparr>mem := shell_mem, filesys_ptr := 0x100000, bblk := \<lparr>n_dir_entries = 2, bb_N = 1, bb_D = 2, bb_reserved = 0\<rparr>,
      open_dentry := 0x430000, read_dentry := 0x430100, filename_buf := 0x430200\<rparr>"

definition shell_locals :: exec_locals where
  "shell_locals = \<lparr>l_file_name = 0x7F0000, l_dentry = 0x7F0100, l_header = 0x7F0200, l_input = replicate 1024 0\<rparr>"

definition shell_kernel :: sysc where
  "shell_kernel = init_paging shell_boot"

lemma shell_boot_fields:
  "mem shell_boot = shell_mem" "filesys_ptr shell_boot = 0x100000" "bblk shell_boot = \<lparr>n_dir_entries = 2, bb_N = 1, bb_D = 2, bb_reserved = 0\<rparr>"
  "open_dentry shell_boot = 0x430000" "read_dentry shell_boot = 0x430100" "filename_buf shell_boot = 0x430200"
  "page_directory shell_boot = 0x410000" "page_table_0 shell_boot = 0x411000" "page_table_1 shell_boot = 0x412000"
  "process_number shell_boot = 0" "elf_text shell_boot = 0x420000" "cr0 shell_boot = 0x11"
  by (simp_all add: shell_boot_def boot_machine_def paging.defs sysc.defs kbd.defs)

lemmas shell_simps = shell_mem_def shell_file_def ELF_MAGIC_def store_bytes_def in_region_def bytes32_def

lemma shell_boot_ready: "boot_ready shell_boot"
proof -
  have "load32 shell_mem (0x412000 + 4 * j) = 0" if "j < 1024" for j
  proof -
    have far: "\<not> in_region a n x" if "in_region (0x412000 + 4 * j) 4 x" "separate a n 0x412000 4096" for a n x
    proof -
      have "in_region 0x412000 4096 x"
        using in_region_shift [of "4 * unat j" 4 4096 "0x412000" x] that(1) \<open>j < 1024\<close> by (simp add: word_less_nat_alt)
      then show ?thesis using that(2) separateD2 by blast
    qed
    have "load32 shell_mem (0x412000 + 4 * j) = load32 (\<lambda>_. 0) (0x412000 + 4 * j)"
    proof (rule load32_cong)
      fix x assume "in_region (0x412000 + 4 * j) 4 x"
      note far [OF this]
      then show "shell_mem x = 0"
        by (simp add: shell_mem_def store_bytes_def separate_def shell_file_def ELF_MAGIC_def bytes32_def)
    qed
    then show ?thesis by (simp add: load32_def)
  qed
  then have "table_words (mem shell_boot) (page_table_1 shell_boot) = map (\<lambda>_. 0) [0..<1024]"
    by (intro table_words_eqI) (simp add: shell_boot_fields)
  then show ?thesis
    by (simp add: boot_ready_def tables_outside_def tables_ok_def shell_boot_fields separate_def PROG_WINDOW_def)
qed

lemma shell_entries:
  "entry_str 0x100000 0 shell_mem = [46]" "entry_str 0x100000 (Suc 0) shell_mem = [115, 104]"
  "entry_type 0x100000 (Suc 0) shell_mem = REG_FILE" "entry_inode 0x100000 (Suc 0) shell_mem = 0"
  by (simp_all add: entry_str_def entry_ptr_def cprefix_def bytes_at_def upt_rec shell_simps unat_minus_one_u32 entry_type_def
      entry_inode_def load32_def REG_FILE_def)

lemma shell_inode: "inode_size 0x100000 0 shell_mem = 32" "inode_word 0x100000 0 1 shell_mem = 1"
  by (simp_all add: inode_size_def inode_word_def load32_def shell_simps)

lemma shell_lookup: "dir_lookup [115, 104] shell_boot = Some 1" "dir_lookup [110, 111] shell_boot = None"
  by (simp_all add: dir_lookup_def n_entries_def shell_boot_fields entry_name_def upt_rec shell_entries)

lemma shell_dir_ok: "dir_ok shell_boot"
  unfolding dir_ok_def by (simp add: n_entries_def shell_boot_fields upt_rec shell_entries separate_def)

lemma shell_image_size: "image_size (bblk shell_boot) = 16384"
  by (simp add: image_size_def shell_boot_fields)

lemma shell_bytes:
  "shell_file = [0x7F, 0x45, 0x4C, 0x46] @ [1, 1, 1, 1, 1, 1, 1, 1, 1, 1, 1, 1, 1, 1, 1, 1, 1, 1, 1, 1] @ [0x94, 0x80, 4, 8] @ [2, 2, 2, 2]"
proof -
  have "replicate 20 x = [x, x, x, x, x, x, x, x, x, x, x, x, x, x, x, x, x, x, x, x]" "replicate 4 x = [x, x, x, x]" for x :: byte
    by (simp_all add: numeral_eq_Suc)
  then show ?thesis by (simp add: shell_file_def ELF_MAGIC_def bytes32_def)
qed

lemma shell_content: "file_content 0x100000 (bblk shell_boot) 0 shell_mem = shell_file"
proof -
  have "file_content 0x100000 (bblk shell_boot) 0 shell_mem = bytes_at shell_mem 0x103000 32"
    by (simp add: file_content_def shell_inode upt_rec file_byte_def shell_boot_fields block_ptr_def bytes_at_def)
  also have "\<dots> = shell_file" by (simp add: bytes_at_def upt_rec shell_mem_def store_bytes_def in_region_def shell_bytes ELF_MAGIC_def bytes32_def)
  finally show ?thesis .
qed

lemma shell_program: "program_file shell_boot [115, 104] shell_file"
proof -
  have "inode_ok 0x100000 (bblk shell_boot) 0 shell_mem"
    by (simp add: inode_ok_def shell_inode shell_image_size) (simp add: shell_boot_fields)
  moreover have "inode_word 0x100000 0 0 shell_mem = 32" by (simp add: inode_word_def load32_def shell_simps)
  moreover have "length shell_file = 32" by (simp add: shell_file_def ELF_MAGIC_def bytes32_def)
  ultimately show ?thesis
    using shell_content by (simp add: program_file_def shell_lookup shell_boot_fields(1,2) shell_entries) (simp add: shell_boot_fields(3))
qed

lemma shell_kernel_fields:
  "filesys_ptr shell_kernel = 0x100000" "bblk shell_kernel = bblk shell_boot"
  "open_dentry shell_kernel = 0x430000" "read_dentry shell_kernel = 0x430100" "filename_buf shell_kernel = 0x430200"
  "page_directory shell_kernel = 0x410000" "page_table_0 shell_kernel = 0x411000" "page_table_1 shell_kernel = 0x412000"
  "process_number shell_kernel = 0" "elf_text shell_kernel = 0x420000"
  unfolding shell_kernel_def init_paging_eq(1) [OF shell_boot_ready] by (simp_all add: switch_window_def shell_boot_fields)

lemma shell_kernel_mem:
  assumes "list_all (kernel_region shell_boot) [(a, n)]" "in_region a n x"
  shows "mem shell_kernel x = shell_mem x"
  using boot_frame [OF shell_boot_ready assms] by (simp add: shell_kernel_def shell_boot_fields)

lemma shell_kernel_image: "in_region 0x100000 16384 x \<Longrightarrow> mem shell_kernel x = shell_mem x"
  by (rule shell_kernel_mem [of "0x100000" 16384]) (simp_all add: kernel_region_def shell_boot_fields separate_def PROG_WINDOW_def)

lemma shell_kernel_program: "program_file shell_kernel [115, 104] shell_file" "dir_lookup [110, 111] shell_kernel = None"
  using image_transfer [OF shell_dir_ok, of shell_kernel] shell_program shell_lookup shell_kernel_image
  by (simp_all add: shell_kernel_fields shell_boot_fields(1,2) shell_image_size)

lemma shell_kernel_layout: "fs_layout shell_kernel"
proof -
  have "fs_frame shell_boot (mem shell_kernel)"
    unfolding fs_frame_def using shell_kernel_image in_region_mono [of "0x100000" 4096 _ 16384] by (simp add: shell_boot_fields(1,2))
  from dir_frame(3) [OF shell_dir_ok this]
  have "dir_ok shell_kernel" by (simp add: dir_ok_def n_entries_def shell_kernel_fields shell_boot_fields)
  then show ?thesis by (simp add: fs_layout_def shell_kernel_fields shell_image_size separate_def)
qed

lemma shell_strings:
  "cstr_at (mem shell_kernel) 0x200000 [115, 104]" "cstr_at (mem shell_kernel) 0x200100 [110, 111]"
  "bytes_at (mem shell_kernel) 0x420000 4 = ELF_MAGIC"
proof -
  have "list_all (kernel_region shell_boot) [(0x200000, 3)]" "list_all (kernel_region shell_boot) [(0x200100, 3)]"
    "list_all (kernel_region shell_boot) [(0x420000, 4)]"
    by (simp_all add: kernel_region_def shell_boot_fields separate_def PROG_WINDOW_def)
  note m = shell_kernel_mem [OF this(1)] shell_kernel_mem [OF this(2)] shell_kernel_mem [OF this(3)]
  have c: "cstr_at shell_mem 0x200000 [115, 104]" "cstr_at shell_mem 0x200100 [110, 111]"
    unfolding cstr_at_def by (simp_all add: shell_simps bytes_at_def upt_rec)
  show "cstr_at (mem shell_kernel) 0x200000 [115, 104]"
    by (rule cstr_at_cong [OF _ c(1)]) (simp add: m(1) numeral_3_eq_3)
  show "cstr_at (mem shell_kernel) 0x200100 [110, 111]"
    by (rule cstr_at_cong [OF _ c(2)]) (simp add: m(2) numeral_3_eq_3)
  have "bytes_at (mem shell_kernel) 0x420000 4 = bytes_at shell_mem 0x420000 4" by (rule bytes_at_cong) (simp_all add: m(3))
  also have "\<dots> = ELF_MAGIC" by (simp add: shell_simps bytes_at_def upt_rec)
  finally show "bytes_at (mem shell_kernel) 0x420000 4 = ELF_MAGIC" .
qed

lemma shell_exec_ok: "exec_ok shell_locals 0x200000 [115, 104] shell_kernel" "exec_ok shell_locals 0x200100 [110, 111] shell_kernel"
proof -
  have p: "paging_inv shell_kernel" unfolding shell_kernel_def by (rule init_paging_inv(1) [OF shell_boot_ready])
  show "exec_ok shell_locals 0x200000 [115, 104] shell_kernel" "exec_ok shell_locals 0x200100 [110, 111] shell_kernel"
    using p shell_kernel_layout shell_strings
    by (simp_all add: exec_ok_def scratch_regions_def fixed_regions_def shell_locals_def shell_kernel_fields shell_image_size)
      (simp_all add: separate_def PROG_WINDOW_def USER_PROG_def)
qed

lemma shell_command: "command_name [115, 104] [115, 104]" "command_name [110, 111] [110, 111]" "length [115, 104 :: byte] < length (l_input shell_locals)"
  "take 4 shell_file = ELF_MAGIC" "length shell_file = 32" "elf_entry shell_file = 0x08048094"
  by (simp_all add: command_name_def shell_locals_def shell_bytes elf_entry_def ELF_MAGIC_def)

lemma boot_proc_inv:
  assumes "boot_ready s" "process_number s = 0" "list_all (kernel_region s) (clear_regions s)"
  shows "proc_inv (init_paging s)"
proof -
  have "process_number (init_paging s) = 0" "list_all (kernel_region (init_paging s)) (clear_regions (init_paging s))"
    using assms(2,3) by (simp_all add: init_paging_eq(1) [OF assms(1)] switch_window_def kernel_region_def clear_regions_def)
  then show ?thesis
    using init_paging_inv(1,2) [OF assms(1)] by (simp add: proc_inv_def frame_of_def)
qed

lemma shell_kernel_inv: "proc_inv shell_kernel"
  unfolding shell_kernel_def
  by (rule boot_proc_inv [OF shell_boot_ready])
    (simp_all add: shell_boot_fields clear_regions_def kernel_region_def separate_def PROG_WINDOW_def)

section \<open>Properties\<close>

text \<open>
  C2. Executing a file that starts with the ELF magic bytes enters it: the call returns to user mode at the entry
  point of the file's header, on a stack at the end of the program's page; the file's bytes are at
  \<open>USER_PROG\<close>, in a frame of its own; the new control block has standard input and output on the terminal,
  all other descriptors closed and the command line saved.
\<close>

theorem execute_starts_program:
  fixes s :: "'a sysc_scheme"
  assumes "exec_ok l command cmd s" "command_name cmd name" "program_file s name data" "take 4 data = ELF_MAGIC"
    "length data < 0x3B8000" "process_number s < 6" "length cmd < length (l_input l)"
  shows "\<exists>s'. sys_execute_c l command s = Some (Inr \<lparr>ctx_eip = elf_entry data, ctx_cs = 0x23, ctx_esp = 0x83FFFFC, ctx_ds = 0x2B\<rparr>, s') \<and>
     bytes_at (mem s') USER_PROG (length data) = data \<and> prog_frame s' = ucast (process_number s + 2) \<and> paging_inv s' \<and>
     process_number s' = process_number s + 1 \<and> cur_pcb s' = pcb_address (process_number s) \<and>
     cur_files s' = replicate 2 \<lparr>file_op_ptr = Some terminal_table, inode = 0, file_pos = 0, flags = 7\<rparr> @ replicate 6 clear_fd \<and>
     take (Suc (length cmd)) (input (pcb_heap s' (cur_pcb s'))) = cmd @ [0]"
proof -
  obtain s' where run: "sys_execute_c l command s = Some (Inr \<lparr>ctx_eip = elf_entry data, ctx_cs = 0x23, ctx_esp = 0x83FFFFC, ctx_ds = 0x2B\<rparr>, s')"
    and f: "process_number s' = process_number s + 1" "cur_pcb s' = pcb_address (process_number s)"
      "prog_frame s' = ucast (process_number s + 2)" "paging_inv s'" "bytes_at (mem s') USER_PROG (length data) = data"
    and heap: "pcb_heap s' = (pcb_heap s)(pcb_address (process_number s) :=
       exec_pcb (cmd @ 0 # drop (Suc (length cmd)) (l_input l)) (ucast (prog_frame s)) s)"
    by (rule execute_effect [OF assms])
  have "pcb_heap s' (cur_pcb s') = exec_pcb (cmd @ 0 # drop (Suc (length cmd)) (l_input l)) (ucast (prog_frame s)) s"
    by (simp add: heap f)
  moreover from this have "cur_files s' = replicate 2 \<lparr>file_op_ptr = Some terminal_table, inode = 0, file_pos = 0, flags = 7\<rparr> @ replicate 6 clear_fd"
    by (simp add: cur_files_def exec_pcb_def Let_def TERMINAL_FILE_FLAGS_def numeral_2_eq_2)
  ultimately show ?thesis using run f by (simp add: exec_pcb_def Let_def)
qed

theorem execute_starts_program_witness:
  "\<exists>s'. sys_execute_c shell_locals 0x200000 shell_kernel = Some (Inr \<lparr>ctx_eip = 0x08048094, ctx_cs = 0x23, ctx_esp = 0x83FFFFC, ctx_ds = 0x2B\<rparr>, s') \<and>
     process_number s' = 1 \<and> cur_pcb s' = 0x7FE000"
  using execute_starts_program [OF shell_exec_ok(1) shell_command(1) shell_kernel_program(1) shell_command(4) _ _ shell_command(3)]
  by (auto simp: shell_command(5,6) shell_kernel_fields(9) pcb_address_def EIGHT_MB_def EIGHT_KB_def)



text \<open>
  C3. Halting: with no process running the call fails with -1 and changes nothing. Otherwise it returns the low
  byte of the status to the parent, closes every descriptor of the process, and reinstates the context that the
  control block saved: the parent's control block, kernel stack, frame pointer and program frame, with the memory
  and the control blocks of all processes below.
\<close>

theorem halt_resumes_parent:
  fixes s :: "'a sysc_scheme"
  assumes "proc_inv s"
  shows "(process_number s = 0 \<longrightarrow> sys_halt_c status s = Some (-1, s)) \<and>
     (process_number s \<noteq> 0 \<longrightarrow> (\<exists>t. sys_halt_c status s = Some (uint status, t) \<and> proc_inv t \<and>
        process_number t = process_number s - 1 \<and> proc_ctx t = proc_saved (proc_depth t) s \<and>
        list_all fd_free (file_array (pcb_heap t (cur_pcb s)))))"
proof (cases "process_number s = 0")
  case True
  then show ?thesis by (simp add: sys_halt_c_def)
next
  case False
  obtain fa t where t: "sys_halt_c status s = Some (uint status, t)" "process_number t = process_number s - 1"
    "pcb_heap t = (pcb_heap s)(cur_pcb s := (pcb_heap s (cur_pcb s))\<lparr>file_array := fa\<rparr>)" "list_all fd_free fa"
    by (rule halt_effect [OF assms False])
  then show ?thesis using False halt_shrinks(1,3) [OF assms False t(1)] by simp
qed


lemma shell_runs:
  obtains a t where "sys_execute_c shell_locals 0x200000 shell_kernel =
      Some (Inr \<lparr>ctx_eip = 0x08048094, ctx_cs = 0x23, ctx_esp = 0x83FFFFC, ctx_ds = 0x2B\<rparr>, a)" "proc_step shell_kernel a"
    "proc_depth shell_kernel < proc_depth a" "sys_halt_c 7 a = Some (7, t)" "proc_step a t" "proc_depth t = proc_depth shell_kernel"
proof -
  have n: "length shell_file < 0x3B8000" "process_number shell_kernel < 6" by (simp_all add: shell_command shell_kernel_fields)
  obtain a where run: "sys_execute_c shell_locals 0x200000 shell_kernel =
      Some (Inr \<lparr>ctx_eip = 0x08048094, ctx_cs = 0x23, ctx_esp = 0x83FFFFC, ctx_ds = 0x2B\<rparr>, a)"
    by (rule execute_effect [OF shell_exec_ok(1) shell_command(1) shell_kernel_program(1) shell_command(4) n shell_command(3)])
      (simp add: shell_command(6))
  have st: "proc_step shell_kernel a"
    by (rule proc_step.execute [OF shell_exec_ok(1) shell_command(1) _ shell_command(3) run]) (use shell_kernel_program(1) n(1) in blast)
  note g = execute_grows [OF shell_kernel_inv shell_exec_ok(1) shell_command(1) shell_kernel_program(1) shell_command(4) n shell_command(3) run]
  have nz: "process_number a \<noteq> 0" using g(2) by auto
  obtain fa t where h: "sys_halt_c 7 a = Some (uint (7 :: byte), t)" by (rule halt_effect [OF g(1) nz])
  have "sys_halt_c 7 a = Some (7, t)" "proc_step a t" using h proc_step.halt [OF h] by simp_all
  moreover have "proc_depth t = proc_depth shell_kernel" using halt_shrinks(2) [OF g(1) nz h] g(2) by simp
  moreover have "proc_depth shell_kernel < proc_depth a" using g(2) by simp
  ultimately show thesis using that [OF run st] by blast
qed


theorem halt_resumes_parent_witness:
  "sys_halt_c 7 shell_kernel = Some (-1, shell_kernel) \<and>
   (\<exists>c a t. sys_execute_c shell_locals 0x200000 shell_kernel = Some (c, a) \<and> sys_halt_c 7 a = Some (7, t) \<and>
      process_number t = process_number a - 1 \<and> list_all fd_free (file_array (pcb_heap t (cur_pcb a))))"
proof (rule shell_runs)
  fix a t
  assume run: "sys_execute_c shell_locals 0x200000 shell_kernel =
      Some (Inr \<lparr>ctx_eip = 0x08048094, ctx_cs = 0x23, ctx_esp = 0x83FFFFC, ctx_ds = 0x2B\<rparr>, a)"
    and st: "proc_step shell_kernel a" "proc_depth shell_kernel < proc_depth a"
  have "proc_inv a" "process_number a \<noteq> 0" using kernel_calls.inv_step [OF shell_kernel_inv st(1)] st(2) by auto
  with halt_resumes_parent [OF shell_kernel_inv, of 7] halt_resumes_parent [of a 7] run show ?thesis
    by (auto simp: shell_kernel_fields(9))
qed



end
