(* ===== verification/User_Lib.thy ===== *)
theory User_Lib
  imports Syscalls
begin

text \<open>
  The support library that user programs are linked with, \<^verbatim>\<open>syscalls/ece391support.c\<close>: string routines on the
  memory of the program and \<open>ece391_fdputs\<close>, which writes a string to a descriptor. A user program reaches the kernel
  through \<^verbatim>\<open>INT $0x80\<close>; the call is the \<open>sys_\<dots>_c\<close> function that the number selects, and its result is what the
  wrapper returns.
\<close>

section \<open>Definitions\<close>

partial_function (option) ece391_strlen_from :: "memory \<Rightarrow> addr \<Rightarrow> u32 \<Rightarrow> u32 option" where
  "ece391_strlen_from m s len = (if m s \<noteq> 0 then ece391_strlen_from m (s + 1) (len + 1) else Some len)"

definition ece391_strlen :: "memory \<Rightarrow> addr \<Rightarrow> u32 option" where
  "ece391_strlen m s = ece391_strlen_from m s 0"

partial_function (option) ece391_strcpy :: "memory \<Rightarrow> addr \<Rightarrow> addr \<Rightarrow> memory option" where
  "ece391_strcpy m dst src =
     (let m' = m(dst := m src) in if m' dst \<noteq> 0 then ece391_strcpy m' (dst + 1) (src + 1) else Some m')"

definition ece391_fdputs :: "int \<Rightarrow> addr \<Rightarrow> 'a kbd_scheme \<Rightarrow> 'a kbd_scheme option" where
  "ece391_fdputs fd a s = do { n \<leftarrow> ece391_strlen (mem s) a; (_, s') \<leftarrow> sys_write_c fd a (sint n) s; Some s' }"

text \<open>The bytes of a string are unsigned here.\<close>

partial_function (option) ece391_strcmp :: "memory \<Rightarrow> addr \<Rightarrow> addr \<Rightarrow> int option" where
  "ece391_strcmp m s1 s2 =
     (if m s1 = m s2 then if m s1 = 0 then Some 0 else ece391_strcmp m (s1 + 1) (s2 + 1)
      else Some (uint (m s1) - uint (m s2)))"

function ece391_strncmp_from :: "memory \<Rightarrow> addr \<Rightarrow> addr \<Rightarrow> u32 \<Rightarrow> int" where
  "ece391_strncmp_from m s1 s2 n =
     (if m s1 = m s2 then if m s1 = 0 \<or> n - 1 = 0 then 0 else ece391_strncmp_from m (s1 + 1) (s2 + 1) (n - 1)
      else uint (m s1) - uint (m s2))"
  by pat_completeness auto
termination
  by (relation "measure (\<lambda>(m, s1, s2, n). unat (n - 1))", simp, simp only: in_measure split_conv, rule measure_unat, blast)

definition ece391_strncmp :: "memory \<Rightarrow> addr \<Rightarrow> addr \<Rightarrow> u32 \<Rightarrow> int" where
  "ece391_strncmp m s1 s2 n = (if n = 0 then 0 else ece391_strncmp_from m s1 s2 n)"

function ece391_strrev_swap :: "memory \<Rightarrow> addr \<Rightarrow> int \<Rightarrow> int \<Rightarrow> memory" where
  "ece391_strrev_swap m s beg end1 =
     (if beg < end1 then
        let tmp = m (s + of_int end1);
            m1 = m(s + of_int end1 := m (s + of_int beg));
            m2 = m1(s + of_int beg := tmp)
        in ece391_strrev_swap m2 s (beg + 1) (end1 - 1)
      else m)"
  by pat_completeness auto
termination
  by (relation "measure (\<lambda>(m, s, beg, end1). nat (end1 - beg))") auto

definition ece391_strrev :: "memory \<Rightarrow> addr \<Rightarrow> memory option" where
  "ece391_strrev m s =
     do { len \<leftarrow> ece391_strlen m s;
          let end1 = sint (len - 1);
          if end1 \<le> 0 then Some m else Some (ece391_strrev_swap m s 0 end1) }"

definition ece391_itoa_lookup :: "byte list" where
  "ece391_itoa_lookup = map (\<lambda>c. of_char c) ''0123456789ABCDEFGHIJKLMNOPQRSTUVWXYZ'' @ [0]"

partial_function (option) ece391_itoa_digits :: "memory \<Rightarrow> addr \<Rightarrow> u32 \<Rightarrow> u32 \<Rightarrow> (memory \<times> addr) option" where
  "ece391_itoa_digits m newbuf newval radix =
     (if 0 < newval then
        if radix = 0 \<or> 36 < newval mod radix then None
        else ece391_itoa_digits (m(newbuf := ece391_itoa_lookup ! unat (newval mod radix))) (newbuf + 1) (newval div radix) radix
      else Some (m, newbuf))"

definition ece391_itoa :: "memory \<Rightarrow> u32 \<Rightarrow> addr \<Rightarrow> u32 \<Rightarrow> memory option" where
  "ece391_itoa m value buf radix =
     (if value = 0 then Some ((m(buf := 48))(buf + 1 := 0))
      else do { (m', newbuf) \<leftarrow> ece391_itoa_digits m buf value radix; ece391_strrev (m'(newbuf := 0)) buf })"

declare ece391_strncmp_from.simps [simp del] ece391_strrev_swap.simps [simp del]

section \<open>Agreement with the kernel's library\<close>

lemma option_eqI: "(\<And>y. a = Some y \<Longrightarrow> b = Some y) \<Longrightarrow> (\<And>y. b = Some y \<Longrightarrow> a = Some y) \<Longrightarrow> a = b"
  by (cases a; cases b) auto

lemma strlen_from_agree: "ece391_strlen_from m (s + len) len = strlen_from m s len"
proof (rule option_eqI)
  have "\<forall>s. p = s + len \<longrightarrow> strlen_from m s len = Some r" if "ece391_strlen_from m p len = Some r" for m p len r
    using that
    by (rule ece391_strlen_from.raw_induct [where P = "\<lambda>m p len r. \<forall>s. p = s + len \<longrightarrow> strlen_from m s len = Some r", rotated])
      (intro allI impI, subst strlen_from.simps, auto split: if_splits simp: add.assoc)
  then show "ece391_strlen_from m (s + len) len = Some r \<Longrightarrow> strlen_from m s len = Some r" for r by blast
  show "ece391_strlen_from m (s + len) len = Some r" if "strlen_from m s len = Some r" for r
    using that
    by (rule strlen_from.raw_induct [where P = "\<lambda>m s len r. ece391_strlen_from m (s + len) len = Some r", rotated])
      (subst ece391_strlen_from.simps, auto split: if_splits simp: add.assoc)
qed

lemma ece391_strlen_eq: "ece391_strlen m s = strlen m s"
  using strlen_from_agree [of m s 0] by (simp add: ece391_strlen_def strlen_def)

lemma strcpy_from_agree: "ece391_strcpy m (dst + i) (src + i) = strcpy_from m dst src i"
proof (rule option_eqI)
  have "\<forall>d s i. dst = d + i \<longrightarrow> src = s + i \<longrightarrow> strcpy_from m d s i = Some r" if "ece391_strcpy m dst src = Some r" for m dst src r
    using that
    by (rule ece391_strcpy.raw_induct [where P = "\<lambda>m dst src r. \<forall>d s i. dst = d + i \<longrightarrow> src = s + i \<longrightarrow> strcpy_from m d s i = Some r", rotated])
      (intro allI impI, subst strcpy_from.simps, auto split: if_splits simp: Let_def add.assoc)
  then show "ece391_strcpy m (dst + i) (src + i) = Some r \<Longrightarrow> strcpy_from m dst src i = Some r" for r by blast
  show "ece391_strcpy m (dst + i) (src + i) = Some r" if "strcpy_from m dst src i = Some r" for r
    using that
    by (rule strcpy_from.raw_induct [where P = "\<lambda>m dst src i r. ece391_strcpy m (dst + i) (src + i) = Some r", rotated])
      (subst ece391_strcpy.simps, auto split: if_splits simp: Let_def add.assoc)
qed

lemma ece391_strcpy_eq: "ece391_strcpy m dst src = strcpy m dst src"
  using strcpy_from_agree [of m dst 0 src] by (simp add: strcpy_def)

lemma strrev_swap_agree: "ece391_strrev_swap m s b e = strrev_swap m s b e"
  by (induction m s b e rule: strrev_swap.induct) (subst ece391_strrev_swap.simps, subst strrev_swap.simps, simp add: Let_def fun_upd_def)

lemma ece391_strrev_eq: "ece391_strrev m s = strrev m s"
proof -
  have "strrev_swap m s 0 e = m" if "e \<le> 0" for e using that by (subst strrev_swap.simps) simp
  then show ?thesis by (cases "strlen m s") (simp_all add: ece391_strrev_def strrev_def ece391_strlen_eq strrev_swap_agree Let_def)
qed

lemma itoa_digits_agree: "ece391_itoa_digits m b v r = itoa_digits m b v r"
proof (rule option_eqI)
  have l: "ece391_itoa_lookup = itoa_lookup" by (simp add: ece391_itoa_lookup_def itoa_lookup_def)
  show "itoa_digits m b v r = Some y" if "ece391_itoa_digits m b v r = Some y" for y
    using that
    by (rule ece391_itoa_digits.raw_induct [where P = "\<lambda>m b v r y. itoa_digits m b v r = Some y", rotated])
      (subst itoa_digits.simps, auto split: if_splits simp: l)
  show "ece391_itoa_digits m b v r = Some y" if "itoa_digits m b v r = Some y" for y
    using that
    by (rule itoa_digits.raw_induct [where P = "\<lambda>m b v r y. ece391_itoa_digits m b v r = Some y", rotated])
      (subst ece391_itoa_digits.simps, auto split: if_splits simp: l)
qed

lemma ece391_itoa_eq: "ece391_itoa m v b r = itoa m v b r"
  by (simp add: ece391_itoa_def itoa_def itoa_digits_agree ece391_strrev_eq)

section \<open>Comparing strings\<close>

lemma cstr_at_Cons: "cstr_at m a (c # s) \<longleftrightarrow> m a = c \<and> c \<noteq> 0 \<and> cstr_at m (a + 1) s"
  by (auto simp: cstr_at_def bytes_at_Suc' add.assoc)

lemma cstr_at_Nil: "cstr_at m a [] \<longleftrightarrow> m a = 0"
  by (simp add: cstr_at_def bytes_at_def)

lemma strcmp_cstr:
  "cstr_at m a x \<Longrightarrow> cstr_at m b y \<Longrightarrow> \<exists>d. ece391_strcmp m a b = Some d \<and> (d = 0 \<longleftrightarrow> x = y)"
proof (induction x arbitrary: y a b)
  case Nil
  then show ?case by (cases y; subst ece391_strcmp.simps) (auto simp: cstr_at_Cons cstr_at_Nil uint_0_iff)
next
  case (Cons c x)
  show ?case
  proof (cases y)
    case Nil
    then show ?thesis using Cons.prems by (subst ece391_strcmp.simps) (auto simp: cstr_at_Cons cstr_at_Nil uint_0_iff)
  next
    case (Cons d y')
    then show ?thesis using Cons.prems Cons.IH [of "a + 1" "b + 1" y'] by (subst ece391_strcmp.simps) (auto simp: cstr_at_Cons word_uint_eq_iff)
  qed
qed

lemma strncmp_from_prefix:
  "n \<noteq> 0 \<Longrightarrow> ece391_strncmp_from m s1 s2 n = 0 \<longleftrightarrow> cprefix m s1 (unat n) = cprefix m s2 (unat n)"
proof (induction m s1 s2 n rule: ece391_strncmp_from.induct)
  case (1 m s1 s2 n)
  have n: "unat n = Suc (unat (n - 1))" using 1(2) by (simp add: unat_minus_one unat_gt_0)
  have one: "unat (n - 1) = 0 \<longleftrightarrow> n - 1 = 0" by (simp add: unat_eq_zero)
  have d: "uint (m s1) - uint (m s2) = 0 \<longleftrightarrow> m s1 = m s2" by (simp add: word_uint_eq_iff)
  have c0: "cprefix m a 0 = []" for a by (simp add: cprefix_def bytes_at_def)
  have c: "cprefix m a (unat n) = (if m a = 0 then [] else m a # cprefix m (a + 1) (unat (n - 1)))" for a
    unfolding n by (simp add: cprefix_def bytes_at_Suc')
  show ?case
  proof (cases "m s1 = m s2 \<and> m s1 \<noteq> 0 \<and> n - 1 \<noteq> 0")
    case True
    then have "ece391_strncmp_from m s1 s2 n = ece391_strncmp_from m (s1 + 1) (s2 + 1) (n - 1)"
      by (subst ece391_strncmp_from.simps) auto
    then show ?thesis unfolding c using 1(1) True by auto
  next
    case False
    then show ?thesis unfolding c using d one c0 by (subst ece391_strncmp_from.simps) auto
  qed
qed

lemma ece391_strncmp_0_iff: "ece391_strncmp m s1 s2 n = 0 \<longleftrightarrow> strncmp m s1 s2 n = 0"
  using strncmp_from_prefix [of n m s1 s2] strncmp_0_iff [of m s1 s2 n]
  by (cases "n = 0") (simp_all add: ece391_strncmp_def cprefix_def bytes_at_def)

section \<open>Writing to the terminal\<close>

text \<open>What a write to the terminal does to the kernel.\<close>

definition console_put :: "byte list \<Rightarrow> 'a kbd_scheme \<Rightarrow> 'a kbd_scheme" where
  "console_put cs s = sti (fold putc_terminal cs (cli s))"

text \<open>Descriptor 1 is the terminal, and the cursor is on the screen.\<close>

definition stdout_ok :: "'a kbd_scheme \<Rightarrow> bool" where
  "stdout_ok s \<longleftrightarrow> flags (get_fd s 1) mod 2 = 1 \<and> file_op_ptr (get_fd s 1) = Some terminal_table \<and> cursor_ok s"

lemma putc_terminal_fields:
  fixes s :: "'a console_scheme"
  assumes "t = putc_terminal c s"
  shows "t = s\<lparr>mem := mem t, port_log := port_log t, screen_x := screen_x t, screen_y := screen_y t\<rparr>"
  unfolding assms
  by (cases s) (simp add: putc_terminal_def Let_def set_cursor_pos_def outw_def vertical_scroll_def set_screen_def store_cell_def advance_cursor_def)

lemma fold_putc_fields:
  fixes s :: "'a console_scheme"
  shows "u = fold putc_terminal cs s \<Longrightarrow> u = s\<lparr>mem := mem u, port_log := port_log u, screen_x := screen_x u, screen_y := screen_y u\<rparr>"
proof (induction cs arbitrary: s)
  case (Cons c cs)
  define v where "v = putc_terminal c s"
  have u: "u = v\<lparr>mem := mem u, port_log := port_log u, screen_x := screen_x u, screen_y := screen_y u\<rparr>"
    using Cons.IH [of v] Cons.prems by (simp add: v_def)
  show ?case by (subst u, subst putc_terminal_fields [OF v_def]) simp
qed simp

lemma console_put_fields:
  fixes s :: "'a kbd_scheme"
  assumes "t = console_put cs s"
  shows "t = s\<lparr>mem := mem t, port_log := port_log t, if_flag := True, screen_x := screen_x t, screen_y := screen_y t\<rparr>"
proof -
  define u where "u = fold putc_terminal cs (cli s)"
  have t: "t = u\<lparr>if_flag := True\<rparr>" using assms by (simp add: console_put_def u_def sti_def)
  show ?thesis unfolding t by (subst fold_putc_fields [OF u_def]) (simp add: cli_def)
qed

lemma console_put_screen:
  assumes "cursor_ok s" "9 \<notin> set cs"
  shows "abs_screen (console_put cs s) = fold term_put cs (abs_screen s)" "cursor_ok (console_put cs s)"
    "frame_out [(VIDEO, 4000)] (mem s) (mem (console_put cs s))"
proof -
  have ok: "cursor_ok (cli s)" "abs_screen (cli s) = abs_screen s" using assms(1) by (simp_all add: cursor_ok_def abs_screen_def)
  have "abs_screen (sti t) = abs_screen t" "cursor_ok (sti t) = cursor_ok t" for t :: "'a kbd_scheme"
    by (simp_all add: cursor_ok_def abs_screen_def)
  then show "abs_screen (console_put cs s) = fold term_put cs (abs_screen s)" "cursor_ok (console_put cs s)"
    using fold_putc_terminal_refines [OF ok(1) assms(2)] ok(2) by (simp_all add: console_put_def)
  show "frame_out [(VIDEO, 4000)] (mem s) (mem (console_put cs s))"
    using fold_putc_outside [OF ok(1) assms(2)] by (simp add: frame_out_def console_put_def)
qed

lemma console_put_kernel:
  fixes s :: "'a kbd_scheme"
  shows "get_fd (console_put cs s) = get_fd s" "files_ok (console_put cs s) = files_ok s" "cur_files (console_put cs s) = cur_files s"
    "pcb_heap (console_put cs s) = pcb_heap s" "cur_pcb (console_put cs s) = cur_pcb s"
    "filesys_ptr (console_put cs s) = filesys_ptr s" "bblk (console_put cs s) = bblk s" "filename_buf (console_put cs s) = filename_buf s"
    "open_dentry (console_put cs s) = open_dentry s" "read_dentry (console_put cs s) = read_dentry s"
  unfolding get_fd_def files_ok_def cur_files_def fun_eq_iff
  by (subst console_put_fields [OF refl], simp)+

lemma stdout_ok_put: "stdout_ok s \<Longrightarrow> 9 \<notin> set cs \<Longrightarrow> stdout_ok (console_put cs s)"
  by (simp add: stdout_ok_def console_put_kernel console_put_screen)

lemma stdout_ok_cong:
  "stdout_ok s \<Longrightarrow> get_fd t 1 = get_fd s 1 \<Longrightarrow> screen_x t = screen_x s \<Longrightarrow> screen_y t = screen_y s \<Longrightarrow> stdout_ok t"
  by (simp add: stdout_ok_def cursor_ok_def)

lemma sys_write_stdout:
  assumes "stdout_ok s" "buf \<noteq> NULL" "separate buf n VIDEO 4000" "n < 4294967296" "9 \<notin> set (bytes_at (mem s) buf n)"
  shows "sys_write_c 1 buf (int n) s = Some (int n, console_put (bytes_at (mem s) buf n) s)"
proof -
  have v: "valid_fd 1 s" "file_op_ptr (get_fd s (nat 1)) = Some terminal_table" "cursor_ok (cli s)"
    using assms(1) by (simp_all add: stdout_ok_def valid_fd_def fd_free_def cursor_ok_def)
  have "sys_write_c 1 buf (int n) s = terminal_write 1 buf (int n) s"
    using sys_write_dispatch [OF v(1) assms(2) _ v(2), of "int n"] by (simp add: write_ptr_def)
  then show ?thesis
    using write_loop_prints [OF assms(3,4), of 0 "cli s"] v(3) assms(5) by (simp add: terminal_write_def STDOUT_def console_put_def)
qed

text \<open>A string that a program can print: not null, apart from the screen and without tabs.\<close>

definition printable :: "addr \<Rightarrow> byte list \<Rightarrow> memory \<Rightarrow> bool" where
  "printable a t m \<longleftrightarrow> a \<noteq> NULL \<and> cstr_at m a t \<and> separate a (Suc (length t)) VIDEO 4000 \<and> length t < 2147483648 \<and> 9 \<notin> set t"

lemma fdputs_prints:
  assumes "stdout_ok s" "printable a t (mem s)"
  shows "ece391_fdputs 1 a s = Some (console_put t s)"
proof -
  have p: "a \<noteq> NULL" "cstr_at (mem s) a t" "separate a (Suc (length t)) VIDEO 4000" "length t < 2147483648" "9 \<notin> set t"
    using assms(2) by (simp_all add: printable_def)
  have sep: "separate a (length t) VIDEO 4000" using p(3) by (auto simp: separate_def)
  have b: "bytes_at (mem s) a (length t) = t" using p(2) by (simp add: cstr_at_def)
  have "sint (of_nat (length t) :: u32) = int (length t)" using p(4) by (rule sint_of_nat_u32)
  then show ?thesis
    using sys_write_stdout [OF assms(1) p(1) sep, unfolded b] p
    by (simp add: ece391_fdputs_def ece391_strlen_eq strlen_cstr [OF p(2)])
qed

section \<open>Properties\<close>


end
