(* ===== verification/User_Programs.thy ===== *)
theory User_Programs
  imports User_Lib
begin

text \<open>
  The user programs \<^verbatim>\<open>cat\<close>, \<^verbatim>\<open>ls\<close>, \<^verbatim>\<open>hello\<close> and \<^verbatim>\<open>testprint\<close> of \<^verbatim>\<open>syscalls\<close> on top of the system
  calls. They show that the drivers, the file system and the console together deliver what a user sees.
\<close>

section \<open>Definitions\<close>

text \<open>
  What the compiler and the linker fix for a program: the addresses of its string literals and of its local buffer, and
  the address of the local variable \<open>dentry\<close> of \<open>sys_open_c\<close> on the kernel stack. \<open>arrivals k\<close> are the interrupts that
  arrive while the \<open>k\<close>th read of the program waits.
\<close>

record program =
  literal :: "byte list \<Rightarrow> addr"
  buf_at :: addr
  dentry_at :: addr
  arrivals :: "nat \<Rightarrow> irq list list"

definition chars_of :: "string \<Rightarrow> byte list" where
  "chars_of = map of_char"

definition line_of :: "string \<Rightarrow> byte list" where
  "line_of str = chars_of str @ [10]"

subsection \<open>cat\<close>

partial_function (option) cat_loop :: "program \<Rightarrow> int \<Rightarrow> nat \<Rightarrow> 'a kbd_scheme \<Rightarrow> (int \<times> 'a kbd_scheme) option" where
  "cat_loop p fd k s =
     do { (cnt, s1) \<leftarrow> sys_read_c run_irq (arrivals p k) fd (buf_at p) 1024 s;
          if cnt = 0 then Some (0, s1)
          else if cnt = -1 then
            do { s2 \<leftarrow> ece391_fdputs 1 (literal p (line_of ''file read failed'')) s1; Some (3, s2) }
          else do { (r, s2) \<leftarrow> sys_write_c 1 (buf_at p) cnt s1;
                    if r = -1 then Some (3, s2) else cat_loop p fd (k + 1) s2 } }"

definition cat_main :: "program \<Rightarrow> 'a kbd_scheme \<Rightarrow> (int \<times> 'a kbd_scheme) option" where
  "cat_main p s =
     do { (r, s1) \<leftarrow> sys_getargs_c (buf_at p) 1024 s;
          if r \<noteq> 0 then do { s2 \<leftarrow> ece391_fdputs 1 (literal p (line_of ''could not read arguments'')) s1; Some (3, s2) }
          else do { (fd, s2) \<leftarrow> sys_open_c (dentry_at p) (buf_at p) s1;
                    if fd = -1 then do { s3 \<leftarrow> ece391_fdputs 1 (literal p (line_of ''file not found'')) s2; Some (2, s3) }
                    else cat_loop p fd 0 s2 } }"

subsection \<open>ls\<close>

definition SBUFSIZE :: int where "SBUFSIZE = 33"

partial_function (option) ls_loop :: "program \<Rightarrow> int \<Rightarrow> nat \<Rightarrow> 'a kbd_scheme \<Rightarrow> (int \<times> 'a kbd_scheme) option" where
  "ls_loop p fd k s =
     do { (cnt, s1) \<leftarrow> sys_read_c run_irq (arrivals p k) fd (buf_at p) (SBUFSIZE - 1) s;
          if cnt = 0 then Some (0, s1)
          else if cnt = -1 then
            do { s2 \<leftarrow> ece391_fdputs 1 (literal p (line_of ''directory entry read failed'')) s1; Some (3, s2) }
          else do { (r, s2) \<leftarrow> sys_write_c 1 (buf_at p) (cnt + 1) (s1\<lparr>mem := (mem s1)(buf_at p + of_int cnt := 10)\<rparr>);
                    if r = -1 then Some (3, s2) else ls_loop p fd (k + 1) s2 } }"

definition ls_main :: "program \<Rightarrow> 'a kbd_scheme \<Rightarrow> (int \<times> 'a kbd_scheme) option" where
  "ls_main p s =
     do { (fd, s1) \<leftarrow> sys_open_c (dentry_at p) (literal p (chars_of ''.'')) s;
          if fd = -1 then do { s2 \<leftarrow> ece391_fdputs 1 (literal p (line_of ''directory open failed'')) s1; Some (2, s2) }
          else ls_loop p fd 0 s1 }"

subsection \<open>hello and testprint\<close>

definition hello_main :: "program \<Rightarrow> 'a kbd_scheme \<Rightarrow> (int \<times> 'a kbd_scheme) option" where
  "hello_main p s =
     do { s1 \<leftarrow> ece391_fdputs 1 (literal p (chars_of ''Hi, what's your name? '')) s;
          (cnt, s2) \<leftarrow> sys_read_c run_irq (arrivals p 0) 0 (buf_at p) 1023 s1;
          if cnt = -1 then do { s3 \<leftarrow> ece391_fdputs 1 (literal p (line_of ''Can't read name from keyboard.'')) s2; Some (3, s3) }
          else do { s3 \<leftarrow> ece391_fdputs 1 (literal p (chars_of ''Hello, '')) (s2\<lparr>mem := (mem s2)(buf_at p + of_int cnt := 0)\<rparr>);
                    s4 \<leftarrow> ece391_fdputs 1 (buf_at p) s3;
                    Some (0, s4) } }"

definition testprint_main :: "program \<Rightarrow> 'a kbd_scheme \<Rightarrow> (int \<times> 'a kbd_scheme) option" where
  "testprint_main p s =
     do { s1 \<leftarrow> ece391_fdputs 1 (literal p (line_of ''Hello, if this ran, the program was correct. Yay!'')) s; Some (0, s1) }"

section \<open>Copying a file to the terminal\<close>

text \<open>The state of \<^verbatim>\<open>cat\<close> while it copies: its file is open, and the screen lies apart from the image and the buffer.\<close>

definition cat_inv :: "int \<Rightarrow> addr \<Rightarrow> 'a kbd_scheme \<Rightarrow> bool" where
  "cat_inv fd buf s \<longleftrightarrow> sys_client fd buf 1024 s \<and> fd \<noteq> 1 \<and> stdout_ok s \<and> separate buf 1024 VIDEO 4000 \<and>
     separate VIDEO 4000 (filesys_ptr s) (image_size (bblk s)) \<and> 9 \<notin> set (fd_content fd s)"

lemma file_fd_frame:
  assumes ok: "file_fd_ok fd s" and k: "get_fd t = get_fd s" "files_ok t" "filesys_ptr t = filesys_ptr s" "bblk t = bblk s"
    and m: "\<And>x. in_region (filesys_ptr s) (image_size (bblk s)) x \<Longrightarrow> mem t x = mem s x"
  shows "file_fd_ok fd t" "fd_content fd t = fd_content fd s" "fd_pos fd t = fd_pos fd s"
proof -
  have i: "inode_ok (filesys_ptr s) (bblk s) (inode (get_fd s (nat fd))) (mem s)" using ok by (simp add: file_fd_ok_def Let_def)
  note a = image_agree [OF i m]
  show "file_fd_ok fd t" using ok k a by (simp add: file_fd_ok_def Let_def)
  show "fd_content fd t = fd_content fd s" "fd_pos fd t = fd_pos fd s" using k a by (simp_all add: fd_content_def fd_pos_def)
qed

lemma sys_read_file:
  assumes c: "sys_client fd buf len s" and data: "data = drop (fd_pos fd s) (fd_content fd s)"
  defines "s' \<equiv> set_fd (nat fd) (read_desc len data (fd_pos fd s) (get_fd s (nat fd))) (s\<lparr>mem := store_bytes (mem s) buf (read_bytes len data)\<rparr>)"
  shows "sys_read_c irq bursts fd buf (int len) s = Some (int (min len (length data)), s')"
    "sys_chunk fd buf len s = (bytes_at (mem s') buf (min len (length data)), s')"
proof -
  have a: "file_fd_ok fd s" "buf \<noteq> NULL" "len < 2147483648" "separate buf len (filesys_ptr s) (image_size (bblk s))"
    and p: "file_op_ptr (get_fd s (nat fd)) = Some file_table"
    using c by (simp_all add: sys_client_def file_client_def file_access_def)
  then have v: "valid_fd fd s" by (simp add: file_fd_ok_def valid_fd_def Let_def used_not_free)
  have f: "file_read fd buf (int len) s = Some (int (min len (length data)), s')"
    unfolding s'_def by (rule file_read_eq [OF a data])
  then show "sys_read_c irq bursts fd buf (int len) s = Some (int (min len (length data)), s')"
    using sys_read_dispatch [OF v a(2) _ p, of "int len" irq bursts] by (simp add: read_ptr_def)
  show "sys_chunk fd buf len s = (bytes_at (mem s') buf (min len (length data)), s')"
    using f unfolding sys_chunk_eq(1) [OF c] file_chunk_def by simp
qed

lemma abs_screen_frame:
  assumes "screen_x t = screen_x s" "screen_y t = screen_y s" "frame_out rs (mem s) (mem t)"
    "\<And>a n. (a, n) \<in> set rs \<Longrightarrow> separate a n VIDEO 4000"
  shows "abs_screen t = abs_screen s"
proof -
  have "mem t (video_char (int k)) = mem s (video_char (int k))" if "k < 2000" for k
  proof -
    have "video_char (int k) = VIDEO + of_nat (2 * k)" by (simp add: video_char_def)
    then have "in_region VIDEO 4000 (video_char (int k))" using that by (simp add: in_region_offset del: of_nat_mult)
    from frame_outD [OF assms(3,4) this] show ?thesis .
  qed
  then show ?thesis using assms(1,2) by (simp add: abs_screen_def)
qed

lemma cat_read:
  fixes s :: "'a kbd_scheme"
  assumes i: "cat_inv fd buf s" and r: "sys_chunk fd buf 1024 s = (c, t)"
  shows "cat_inv fd buf t" "abs_screen t = abs_screen s" "9 \<notin> set c" "length c \<le> 1024" "c = bytes_at (mem t) buf (length c)"
    "sys_read_c irq bursts fd buf 1024 s = Some (int (length c), t)" "set c \<subseteq> set (fd_content fd s)"
proof -
  define data where "data = drop (fd_pos fd s) (fd_content fd s)"
  have cl: "sys_client fd buf 1024 s" "fd \<noteq> 1" "0 \<le> fd" "fd < 8" "files_ok s" and sep: "separate buf 1024 VIDEO 4000"
    using i by (simp_all add: cat_inv_def sys_client_def file_client_def file_access_def file_fd_ok_def)
  note rd = sys_read_file [OF cl(1) data_def] 
  have t: "t = set_fd (nat fd) (read_desc 1024 data (fd_pos fd s) (get_fd s (nat fd))) (s\<lparr>mem := store_bytes (mem s) buf (read_bytes 1024 data)\<rparr>)"
    and c: "c = bytes_at (mem t) buf (min 1024 (length data))" using rd(2) r by simp_all
  show len: "length c \<le> 1024" "c = bytes_at (mem t) buf (length c)" by (simp_all add: c)
  show "sys_read_c irq bursts fd buf 1024 s = Some (int (length c), t)" using rd(1) [of irq bursts] t by (simp add: c)
  have fr: "frame_out [(buf, 1024)] (mem s) (mem t)"
    unfolding t using length_read_bytes [of 1024 data] by (simp add: frame_out_def store_bytes_def in_region_def)
  have xy: "screen_x t = screen_x s" "screen_y t = screen_y s" by (simp_all add: t set_fd_def Let_def)
  show "abs_screen t = abs_screen s" by (rule abs_screen_frame [OF xy fr]) (use sep in simp)
  have "c @ drop (fd_pos fd t) (fd_content fd s) = drop (fd_pos fd s) (fd_content fd s)"
    using sys_cursor.chunk_read [OF cl(1)] by (simp add: r)
  then show sub: "set c \<subseteq> set (fd_content fd s)" by (metis set_append set_drop_subset Un_subset_iff subset_trans)
  then show "9 \<notin> set c" using i by (auto simp: cat_inv_def)
  have "stdout_ok t"
    by (rule stdout_ok_cong [of s]) (use i xy cl in \<open>simp_all add: cat_inv_def t\<close>)
  then show "cat_inv fd buf t"
    using i sys_cursor.inv_read [OF cl(1)] sys_cursor.items_read [OF cl(1)] unfolding r snd_conv by (simp add: cat_inv_def t)
qed

interpretation cat_copier: stream_copier "sys_chunk fd buf 1024" "cat_inv fd buf" "fd_content fd" "fd_pos fd" console_put abs_screen term_put
  for fd buf
proof
  fix s c t assume i: "cat_inv fd buf s"
  then have cl: "sys_client fd buf 1024 s" by (simp add: cat_inv_def)
  obtain c' t' where r: "sys_chunk fd buf 1024 s = (c', t')" by (cases "sys_chunk fd buf 1024 s")
  note f = cat_read [OF i r]
  show "cat_inv fd buf (snd (sys_chunk fd buf 1024 s))" "abs_screen (snd (sys_chunk fd buf 1024 s)) = abs_screen s"
    unfolding r snd_conv by (rule f)+
  show "fd_content fd (snd (sys_chunk fd buf 1024 s)) = fd_content fd s" by (rule sys_cursor.items_read [OF cl])
  show "fst (sys_chunk fd buf 1024 s) @ drop (fd_pos fd (snd (sys_chunk fd buf 1024 s))) (fd_content fd s) = drop (fd_pos fd s) (fd_content fd s)"
    by (rule sys_cursor.chunk_read [OF cl])
  show "fst (sys_chunk fd buf 1024 s) \<noteq> []" if "fd_pos fd s < length (fd_content fd s)" by (rule sys_cursor.progress [OF cl that])
  assume "sys_chunk fd buf 1024 s = (c, t)"
  then have ct: "c = c'" "t = t'" using r by simp_all
  have t: "cat_inv fd buf t" "9 \<notin> set c" using f by (simp_all add: ct)
  then have st: "stdout_ok t" "cursor_ok t" "file_fd_ok fd t" by (simp_all add: cat_inv_def stdout_ok_def sys_client_def file_client_def file_access_def)
  note scr = console_put_screen [OF st(2) t(2)]
  have m: "mem (console_put c t) x = mem t x" if "in_region (filesys_ptr t) (image_size (bblk t)) x" for x
    by (rule frame_outD [OF scr(3) _ that]) (use t(1) in \<open>simp add: cat_inv_def\<close>)
  note fr = file_fd_frame [OF st(3) console_put_kernel(1) _ console_put_kernel(6,7) m]
  have fk: "files_ok (console_put c t)" using st(3) by (simp add: console_put_kernel file_fd_ok_def)
  show "fd_content fd (console_put c t) = fd_content fd t" "fd_pos fd (console_put c t) = fd_pos fd t" using fr fk by simp_all
  show "abs_screen (console_put c t) = fold term_put c (abs_screen t)" by (rule scr)
  show "cat_inv fd buf (console_put c t)"
    using t fr fk stdout_ok_put [OF st(1) t(2)]
    by (simp add: cat_inv_def sys_client_def file_client_def file_access_def console_put_kernel)
qed

lemma cat_loop_copies:
  "cat_inv fd (buf_at p) s \<Longrightarrow> copy_seq (sys_chunk fd (buf_at p) 1024) console_put n s = Some t \<Longrightarrow> cat_loop p fd k s = Some (0, t)"
proof (induction n arbitrary: s k)
  case (Suc n)
  obtain c u where r: "sys_chunk fd (buf_at p) 1024 s = (c, u)" by (cases "sys_chunk fd (buf_at p) 1024 s")
  note f = cat_read [OF Suc.prems(1) r]
  show ?case
  proof (cases "c = []")
    case True
    then show ?thesis using Suc.prems(2) f(6) [of run_irq "arrivals p k"] r by (subst cat_loop.simps) simp
  next
    case False
    have u: "stdout_ok u" "buf_at p \<noteq> NULL" "separate (buf_at p) (length c) VIDEO 4000" "length c < 4294967296"
      using f(1,4) by (auto simp: cat_inv_def sys_client_def file_client_def file_access_def separate_def)
    have "sys_write_c 1 (buf_at p) (int (length c)) u = Some (int (length c), console_put c u)"
      using sys_write_stdout [OF u] f(3,5) by simp
    moreover have "cat_loop p fd (k + 1) (console_put c u) = Some (0, t)"
      using Suc.IH [OF cat_copier.inv_echo [OF Suc.prems(1) r False]] Suc.prems(2) r False by simp
    ultimately show ?thesis using f(6) [of run_irq "arrivals p k"] False by (subst cat_loop.simps) simp
  qed
qed simp

section \<open>cat\<close>

lemma chars_of_simps: "chars_of str = map of_char str" "line_of str = map of_char str @ [10]"
  by (simp_all add: chars_of_def line_of_def)

text \<open>
  What \<^verbatim>\<open>cat\<close> needs when it starts: a command line with an argument that fits the buffer, a terminal on descriptor 1, and the
  image, the screen, the buffer of the program and the lookup buffers of the kernel apart from each other.
\<close>

definition cat_ready :: "program \<Rightarrow> byte list \<Rightarrow> 'a kbd_scheme \<Rightarrow> bool" where
  "cat_ready p f s \<longleftrightarrow> (\<exists>name rest. input (pcb_heap s (cur_pcb s)) = name @ [32] @ f @ 0 # rest \<and> 32 \<notin> set name \<and> 0 \<notin> set f \<and>
      f \<noteq> [] \<and> length name + 1 + 2 * length f < 1024) \<and> stdout_ok s \<and> fs_layout s \<and> files_ok s \<and> buf_at p \<noteq> NULL \<and> dentry_arg (dentry_at p) s \<and>
     list_all (\<lambda>(a, n). separate a n (buf_at p) 1024 \<and> separate a n VIDEO 4000)
       [(filename_buf s, 34), (open_dentry s, 64), (dentry_at p, 64), (filesys_ptr s, image_size (bblk s))] \<and>
     separate (buf_at p) 1024 VIDEO 4000 \<and> separate (dentry_at p) 64 (filesys_ptr s) (image_size (bblk s))"

lemma cat_args:
  assumes "cat_ready p f s"
  defines "s1 \<equiv> s\<lparr>mem := store_bytes (mem s) (buf_at p) (f @ [0])\<rparr>"
  shows "sys_getargs_c (buf_at p) 1024 s = Some (0, s1)" "length f < 512" "0 \<notin> set f"
proof -
  obtain name rest where i: "input (pcb_heap s (cur_pcb s)) = name @ [32] @ f @ 0 # rest" "32 \<notin> set name" "0 \<notin> set f" "f \<noteq> []"
    "length name + 1 + 2 * length f < 1024" using assms(1) unfolding cat_ready_def by blast
  show "sys_getargs_c (buf_at p) 1024 s = Some (0, s1)"
    unfolding s1_def using getargs_copies [OF i(1-3), of 1024 "buf_at p"] i(4,5) by simp
  show "length f < 512" "0 \<notin> set f" using i by simp_all
qed

text \<open>After the arguments are in the buffer, the open finds the file system as it was.\<close>

lemma cat_open_args:
  assumes r: "cat_ready p f s"
  defines "s1 \<equiv> s\<lparr>mem := store_bytes (mem s) (buf_at p) (f @ [0])\<rparr>"
  shows "open_args (dentry_at p) (buf_at p) f s1" "fs_frame s (mem s1)"
    "\<And>x. in_region (filesys_ptr s) (image_size (bblk s)) x \<Longrightarrow> mem s1 x = mem s x" "abs_screen s1 = abs_screen s" "stdout_ok s1"
proof -
  have len: "length f < 512" "0 \<notin> set f" using cat_args [OF r] by simp_all
  have fr: "frame_out [(buf_at p, 1024)] (mem s) (mem s1)"
    unfolding s1_def using frame_out_store_bytes [of "f @ [0]" 1024 "buf_at p" "mem s"] len by simp
  have q: "stdout_ok s" "fs_layout s" "files_ok s" "buf_at p \<noteq> NULL" "dentry_arg (dentry_at p) s"
    "separate (filename_buf s) 34 (buf_at p) 1024" "separate (open_dentry s) 64 (buf_at p) 1024" "separate (dentry_at p) 64 (buf_at p) 1024"
    "separate (filesys_ptr s) (image_size (bblk s)) (buf_at p) 1024"
    "separate (buf_at p) 1024 VIDEO 4000" "separate (dentry_at p) 64 (filesys_ptr s) (image_size (bblk s))"
    using r by (simp_all add: cat_ready_def)
  show img: "mem s1 x = mem s x" if "in_region (filesys_ptr s) (image_size (bblk s)) x" for x
    by (rule frame_outD [OF fr _ that]) (use q(9) separate_sym in auto)
  show fs: "fs_frame s (mem s1)" unfolding fs_frame_def using in_region_mono [OF _ image_prefix] img by blast
  show "abs_screen s1 = abs_screen s" by (rule abs_screen_frame [OF _ _ fr]) (use q(10) in \<open>simp_all add: s1_def\<close>)
  show "stdout_ok s1" by (rule stdout_ok_cong [OF q(1)]) (simp_all add: s1_def get_fd_def cur_files_def)
  have "dir_ok s" using q(2) by (simp add: fs_layout_def)
  from dir_frame(3) [OF this fs] have lay: "fs_layout s1" using q(2) by (simp add: fs_layout_def s1_def)
  have sm: "separate a n (buf_at p) (Suc (length f))" if "separate a n (buf_at p) 1024" for a n
    using that len by (auto simp: separate_def)
  have "cstr_at (mem s1) (buf_at p) f" unfolding s1_def using cstr_at_store_bytes [of f] len by simp
  then show "open_args (dentry_at p) (buf_at p) f s1"
    using q lay sm by (simp add: open_args_def name_arg_def s1_def dentry_arg_def files_ok_def cur_files_def)
qed

text \<open>A literal that survives what the kernel writes in the regions \<open>rs\<close>.\<close>

definition literal_ok :: "program \<Rightarrow> (addr \<times> nat) list \<Rightarrow> byte list \<Rightarrow> memory \<Rightarrow> bool" where
  "literal_ok p rs t m \<longleftrightarrow> printable (literal p t) t m \<and> list_all (\<lambda>(a, n). separate a n (literal p t) (Suc (length t))) rs"

lemma literal_ok_frame: "literal_ok p rs t m \<Longrightarrow> frame_out qs m m' \<Longrightarrow> set qs \<subseteq> set rs \<Longrightarrow> literal_ok p rs t m'"
  unfolding literal_ok_def printable_def by (auto simp: list_all_iff intro!: cstr_at_frame [of qs m m'])

definition cat_regions :: "program \<Rightarrow> 'a kbd_scheme \<Rightarrow> (addr \<times> nat) list" where
  "cat_regions p s = (buf_at p, 1024) # open_regions (dentry_at p) s"

lemma cat_missing:
  fixes s :: "'a kbd_scheme"
  assumes r: "cat_ready p f s" and no: "dir_lookup f s = None" and lit: "literal_ok p (cat_regions p s) (line_of ''file not found'') (mem s)"
  obtains s' where "cat_main p s = Some (2, s')" "abs_screen s' = fold term_put (line_of ''file not found'') (abs_screen s)"
proof -
  define s1 where "s1 = s\<lparr>mem := store_bytes (mem s) (buf_at p) (f @ [0])\<rparr>"
  note a = cat_args [OF r, folded s1_def] and o = cat_open_args [OF r, folded s1_def]
  have ok: "dir_ok s" using r by (simp add: cat_ready_def fs_layout_def)
  have l1: "dir_lookup f s1 = None" using dir_frame(4) [OF ok o(2), of f] no by (simp add: s1_def)
  have rs: "open_regions (dentry_at p) s1 = open_regions (dentry_at p) s" by (simp add: open_regions_def s1_def)
  obtain m where m: "sys_open_c (dentry_at p) (buf_at p) s1 = Some (-1, s1\<lparr>mem := m\<rparr>)" "frame_out (open_regions (dentry_at p) s) (mem s1) m"
    using sys_open_missing [OF o(1) l1] unfolding rs by blast
  have v: "stdout_ok (s1\<lparr>mem := m\<rparr>)" by (rule stdout_ok_cong [OF o(5)]) (simp_all add: get_fd_def cur_files_def)
  have scr: "abs_screen (s1\<lparr>mem := m\<rparr>) = abs_screen s"
    unfolding o(4) [symmetric] by (rule abs_screen_frame [of _ _ "open_regions (dentry_at p) s"]) (use m(2) r in \<open>auto simp: open_regions_def cat_ready_def\<close>)
  have "frame_out [(buf_at p, 1024)] (mem s) (mem s1)"
    unfolding s1_def using frame_out_store_bytes [of "f @ [0]" 1024 "buf_at p" "mem s"] a(2) by simp
  from literal_ok_frame [OF lit this] have "literal_ok p (cat_regions p s) (line_of ''file not found'') (mem s1)" by (simp add: cat_regions_def)
  from literal_ok_frame [OF this m(2)] have pr: "printable (literal p (line_of ''file not found'')) (line_of ''file not found'') m"
    by (auto simp: cat_regions_def literal_ok_def)
  then have "ece391_fdputs 1 (literal p (line_of ''file not found'')) (s1\<lparr>mem := m\<rparr>) = Some (console_put (line_of ''file not found'') (s1\<lparr>mem := m\<rparr>))"
    using fdputs_prints [OF v] by simp
  then have "cat_main p s = Some (2, console_put (line_of ''file not found'') (s1\<lparr>mem := m\<rparr>))"
    by (simp add: cat_main_def a(1) m(1))
  moreover have "abs_screen (console_put (line_of ''file not found'') (s1\<lparr>mem := m\<rparr>)) = fold term_put (line_of ''file not found'') (abs_screen s)"
    using console_put_screen(1) [of "s1\<lparr>mem := m\<rparr>" "line_of ''file not found''"] v pr scr by (simp add: stdout_ok_def printable_def)
  ultimately show thesis by (rule that)
qed

lemma cat_copies:
  fixes s :: "'a kbd_scheme"
  assumes r: "cat_ready p f s" and j: "dir_lookup f s = Some j" and i: "first_free s = Some i"
    and ty: "entry_type (filesys_ptr s) j (mem s) = REG_FILE"
    and ok: "inode_ok (filesys_ptr s) (bblk s) (entry_inode (filesys_ptr s) j (mem s)) (mem s)"
    and content: "content = file_content (filesys_ptr s) (bblk s) (entry_inode (filesys_ptr s) j (mem s)) (mem s)" and tab: "9 \<notin> set content"
  obtains s' where "cat_main p s = Some (0, s')" "abs_screen s' = fold term_put content (abs_screen s)"
proof -
  define s1 where "s1 = s\<lparr>mem := store_bytes (mem s) (buf_at p) (f @ [0])\<rparr>"
  note a = cat_args [OF r, folded s1_def] and o = cat_open_args [OF r, folded s1_def]
  have dok: "dir_ok s" using r by (simp add: cat_ready_def fs_layout_def)
  have l1: "dir_lookup f s1 = Some j" using dir_frame(4) [OF dok o(2), of f] j by (simp add: s1_def)
  have j63: "j < 63" using dir_lookup_less [OF j] dok by (simp add: dir_ok_def)
  note ent = entry_frame [OF o(2) j63] and agree = image_agree [OF ok o(3)]
  have same: "filesys_ptr s1 = filesys_ptr s" "bblk s1 = bblk s" "first_free s1 = Some i"
    "open_regions (dentry_at p) s1 = open_regions (dentry_at p) s"
    using i by (simp_all add: s1_def first_free_def cur_files_def open_regions_def)
  have i8: "2 \<le> i" "i < 8" using i by (simp_all add: first_free_Some_iff)
  obtain s2 d where s2: "sys_open_c (dentry_at p) (buf_at p) s1 = Some (int i, s2)" "file_fd_ok (int i) s2" "fd_pos (int i) s2 = 0"
    "fd_content (int i) s2 = content" "file_op_ptr (get_fd s2 i) = Some file_table" "filesys_ptr s2 = filesys_ptr s" "bblk s2 = bblk s"
    "s2 = set_fd i d (s1\<lparr>mem := mem s2\<rparr>)" "frame_out (open_regions (dentry_at p) s) (mem s1) (mem s2)"
    using sys_open_regular [OF o(1) l1 same(3)] ent agree ty content same by metis
  have f1: "files_ok s1" using r by (simp add: cat_ready_def files_ok_def s1_def cur_files_def)
  have xy: "screen_x s2 = screen_x s1" "screen_y s2 = screen_y s1" "get_fd s2 1 = get_fd s1 1"
    by (subst s2(8), use i8 f1 in \<open>simp add: set_fd_def get_fd_def cur_files_def Let_def files_ok_def\<close>)+
  have st: "stdout_ok s2" by (rule stdout_ok_cong [OF o(5)]) (use xy in simp_all)
  have scr: "abs_screen s2 = abs_screen s"
    unfolding o(4) [symmetric] by (rule abs_screen_frame [OF xy(1,2) s2(9)]) (use r in \<open>auto simp: open_regions_def cat_ready_def\<close>)
  have inv: "cat_inv (int i) (buf_at p) s2"
    using r st s2 i8 tab separate_sym
    by (auto simp: cat_inv_def sys_client_def file_client_def file_access_def cat_ready_def)
  obtain t where t: "copy_seq (sys_chunk (int i) (buf_at p) 1024) console_put (Suc (length content)) s2 = Some t"
    "abs_screen t = fold term_put content (abs_screen s)"
    using cat_copier.copy_all [OF inv, of "Suc (length content)"] s2(3,4) scr by auto
  have "cat_main p s = Some (0, t)"
    using cat_loop_copies [OF inv t(1), of 0] by (simp add: cat_main_def a(1) s2(1))
  then show thesis using t(2) by (rule that)
qed

section \<open>ls\<close>

definition ls_inv :: "int \<Rightarrow> addr \<Rightarrow> 'a kbd_scheme \<Rightarrow> bool" where
  "ls_inv fd buf s \<longleftrightarrow> sys_dir_client fd buf 32 s \<and> stdout_ok s \<and> separate buf 33 VIDEO 4000 \<and> separate VIDEO 4000 (filesys_ptr s) 4096 \<and>
     separate (read_dentry s) 64 VIDEO 4000 \<and> list_all (\<lambda>nm. 9 \<notin> set nm) (dir_names s)"

definition ls_echo :: "addr \<Rightarrow> byte list list \<Rightarrow> 'a kbd_scheme \<Rightarrow> 'a kbd_scheme" where
  "ls_echo buf c t = console_put (hd c @ [10]) (t\<lparr>mem := (mem t)(buf + of_nat (length (hd c)) := 10)\<rparr>)"

definition put_line :: "byte list \<Rightarrow> screen \<Rightarrow> screen" where
  "put_line nm = fold term_put (nm @ [10])"

lemma dir_client_frame:
  assumes c: "dir_client fd buf n s"
    and k: "get_fd t = get_fd s" "files_ok t" "filesys_ptr t = filesys_ptr s" "bblk t = bblk s" "filename_buf t = filename_buf s"
      "open_dentry t = open_dentry s" "read_dentry t = read_dentry s"
    and m: "fs_frame s (mem t)"
  shows "dir_client fd buf n t" "dir_names t = dir_names s" "fd_pos fd t = fd_pos fd s"
proof -
  have ok: "dir_ok s" using c by (simp add: dir_client_def dir_fd_ok_def)
  note e = dir_frame(3) [OF ok m]
  have n: "n_entries t = n_entries (s\<lparr>mem := mem t\<rparr>)" using k by (simp add: n_entries_def)
  have "dir_ok t = dir_ok (s\<lparr>mem := mem t\<rparr>)" "dir_names t = dir_names (s\<lparr>mem := mem t\<rparr>)"
    using k n by (simp_all add: dir_ok_def dir_names_def)
  moreover have "dir_names (s\<lparr>mem := mem t\<rparr>) = dir_names s"
    using entry_frame(1) [OF m] ok by (simp add: dir_names_def n_entries_def entry_name_def dir_ok_def)
  ultimately show "dir_client fd buf n t" "dir_names t = dir_names s" "fd_pos fd t = fd_pos fd s"
    using c e k by (simp_all add: dir_client_def dir_fd_ok_def dir_buf_ok_def fd_pos_def)
qed

lemma dir_read_entry:
  assumes c: "dir_client fd buf n s" and p: "fd_pos fd s < n_entries s" and nm: "nm = dir_names s ! fd_pos fd s"
  obtains m d where "dir_read fd buf (int n) s = Some (int (length nm), set_fd (nat fd) d (s\<lparr>mem := m\<rparr>))" "bytes_at m buf (length nm) = nm"
    "frame_out [(read_dentry s, 64), (buf, 33)] (mem s) m" "length nm \<le> 32" "nm \<noteq> []" "nm \<in> set (dir_names s)"
proof -
  have ok: "dir_fd_ok fd s" "dir_buf_ok buf s" "32 \<le> n" using c by (simp_all add: dir_client_def)
  have mem: "nm \<in> set (dir_names s)" using p by (simp add: nm dir_names_def)
  then have ne: "nm \<noteq> []" using c by (auto simp: dir_client_def)
  obtain m1 where rd: "dir_read fd buf (int n) s = Some (int (min n (length nm)),
      set_fd (nat fd) ((get_fd s (nat fd))\<lparr>file_pos := file_pos (get_fd s (nat fd)) + 1\<rparr>)
        (s\<lparr>mem := store_bytes m1 buf (take (min n (length nm)) nm @ (if min n (length nm) = length nm then [0] else []))\<rparr>))"
    and fr: "frame_out [(read_dentry s, 64)] (mem s) m1" and nl: "length nm \<le> 32"
    using dir_read_name [OF ok(1,2) p nm refl] by blast
  have k: "min n (length nm) = length nm" using nl ok(3) by simp
  show thesis
  proof (rule that)
    show "dir_read fd buf (int n) s = Some (int (length nm), set_fd (nat fd) ((get_fd s (nat fd))\<lparr>file_pos := file_pos (get_fd s (nat fd)) + 1\<rparr>)
        (s\<lparr>mem := store_bytes m1 buf (nm @ [0])\<rparr>))" using rd unfolding k by simp
    show "bytes_at (store_bytes m1 buf (nm @ [0])) buf (length nm) = nm" using nl by (intro bytes_at_store_prefix) simp
    show "frame_out [(read_dentry s, 64), (buf, 33)] (mem s) (store_bytes m1 buf (nm @ [0]))"
      using frame_out_trans [OF fr frame_out_store_bytes [of "nm @ [0]" 33 buf m1]] nl by simp
  qed (rule nl ne mem)+
qed

lemma ls_chunk:
  fixes s :: "'a kbd_scheme"
  assumes i: "ls_inv fd buf s" and r: "sys_dir_chunk fd buf 32 s = (c, t)"
  obtains "c = []" "t = s" "sys_read_c irq bursts fd buf 32 s = Some (0, t)"
  | nm m d where "c = [nm]" "t = set_fd (nat fd) d (s\<lparr>mem := m\<rparr>)" "sys_read_c irq bursts fd buf 32 s = Some (int (length nm), t)"
    "bytes_at (mem t) buf (length nm) = nm" "frame_out [(read_dentry s, 64), (buf, 33)] (mem s) (mem t)"
    "length nm \<le> 32" "nm \<noteq> []" "9 \<notin> set nm" "files_ok s" "nat fd \<noteq> 1"
proof -
  have cl: "sys_dir_client fd buf 32 s" "dir_client fd buf 32 s" and d: "dir_fd_ok fd s" "dir_buf_ok buf s"
    and p: "file_op_ptr (get_fd s (nat fd)) = Some dir_table"
    using i by (simp_all add: ls_inv_def sys_dir_client_def dir_client_def)
  have v: "valid_fd fd s" "buf \<noteq> NULL" "files_ok s" "nat fd \<noteq> 1"
    using d used_not_free [of "get_fd s (nat fd)"] by (auto simp: valid_fd_def dir_fd_ok_def dir_buf_ok_def desc_used_def)
  have e: "sys_read_c irq bursts fd buf 32 s = dir_read fd buf (int 32) s" "dir_chunk fd buf 32 s = (c, t)"
    using sys_read_dispatch [OF v(1,2) _ p, of 32 irq bursts] sys_dir_chunk_eq(1) [OF cl(1)] r by (simp_all add: read_ptr_def)
  show thesis
  proof (cases "fd_pos fd s < n_entries s")
    case False
    then show ?thesis using that(1) e dir_read_end [OF d(1) v(2), of "int 32"] dir_chunk_end [OF cl(2)] by simp
  next
    case True
    obtain nm m d where q: "nm = dir_names s ! fd_pos fd s" "dir_read fd buf (int 32) s = Some (int (length nm), set_fd (nat fd) d (s\<lparr>mem := m\<rparr>))"
      "bytes_at m buf (length nm) = nm" "frame_out [(read_dentry s, 64), (buf, 33)] (mem s) m" "length nm \<le> 32" "nm \<noteq> []" "nm \<in> set (dir_names s)"
      using dir_read_entry [OF cl(2) True refl] by metis
    have "c = [nm]" "t = set_fd (nat fd) d (s\<lparr>mem := m\<rparr>)" using e(2) q(2,3,6) by (simp_all add: dir_chunk_def)
    then show ?thesis using that(2) [of nm d m] q e(1) v i by (simp add: ls_inv_def list_all_iff)
  qed
qed

lemma ls_read:
  fixes s :: "'a kbd_scheme"
  assumes i: "ls_inv fd buf s" and r: "sys_dir_chunk fd buf 32 s = (c, t)"
  shows "ls_inv fd buf t" "abs_screen t = abs_screen s"
proof -
  have cl: "sys_dir_client fd buf 32 s" using i by (simp add: ls_inv_def)
  have t: "screen_x t = screen_x s" "screen_y t = screen_y s" "get_fd t 1 = get_fd s 1" "filesys_ptr t = filesys_ptr s" "read_dentry t = read_dentry s"
    "frame_out [(read_dentry s, 64), (buf, 33)] (mem s) (mem t)"
    using ls_chunk [OF i r] by (cases; simp add: files_ok_def set_fd_def get_fd_def cur_files_def Let_def)+
  show "abs_screen t = abs_screen s" by (rule abs_screen_frame [OF t(1,2,6)]) (use i in \<open>auto simp: ls_inv_def\<close>)
  have "stdout_ok t" by (rule stdout_ok_cong [of s]) (use t i in \<open>simp_all add: ls_inv_def\<close>)
  then show "ls_inv fd buf t"
    using i t sys_dir_cursor.inv_read [OF cl] sys_dir_cursor.items_read [OF cl] unfolding r snd_conv by (simp add: ls_inv_def)
qed

lemma of_nat_eq_u32:
  assumes "i < 4294967296" "j < 4294967296"
  shows "((of_nat i :: u32) = of_nat j) = (i = j)"
  using unat_of_nat_addr [OF assms(1)] unat_of_nat_addr [OF assms(2)] by (metis)

lemma ls_newline:
  assumes i: "ls_inv fd buf t" and n: "length nm \<le> 32" "bytes_at (mem t) buf (length nm) = nm" "9 \<notin> set nm"
  defines "u \<equiv> t\<lparr>mem := (mem t)(buf + of_nat (length nm) := 10)\<rparr>"
  shows "ls_inv fd buf u" "dir_names u = dir_names t" "fd_pos fd u = fd_pos fd t" "abs_screen u = abs_screen t"
    "bytes_at (mem u) buf (Suc (length nm)) = nm @ [10]"
proof -
  have b: "mem u = store_bytes (mem t) (buf + of_nat (length nm)) [10]" by (auto simp: u_def store_bytes_def in_region_def unat_eq_zero)
  have fr: "frame_out [(buf, 33)] (mem t) (mem u)" unfolding b by (rule frame_out_store_at) (use n(1) in simp)
  show scr: "abs_screen u = abs_screen t" by (rule abs_screen_frame [OF _ _ fr]) (use i in \<open>simp_all add: u_def ls_inv_def\<close>)
  have cl: "dir_client fd buf 32 t" using i by (simp add: ls_inv_def sys_dir_client_def)
  then have "fs_frame t (mem u)"
    unfolding fs_frame_def using frame_outD [OF fr] by (auto simp: dir_client_def dir_buf_ok_def)
  from dir_client_frame [OF cl _ _ _ _ _ _ _ this]
  have d: "dir_client fd buf 32 u" "dir_names u = dir_names t" "fd_pos fd u = fd_pos fd t"
    using cl by (simp_all add: u_def get_fd_def cur_files_def files_ok_def dir_client_def dir_fd_ok_def fun_eq_iff)
  then show "dir_names u = dir_names t" "fd_pos fd u = fd_pos fd t" by simp_all
  have "stdout_ok u" by (rule stdout_ok_cong [of t]) (use i in \<open>simp_all add: ls_inv_def u_def get_fd_def cur_files_def\<close>)
  then show "ls_inv fd buf u" using i d by (simp add: ls_inv_def sys_dir_client_def u_def get_fd_def cur_files_def)
  have "((of_nat j :: addr) = of_nat (length nm)) = (j = length nm)" if "j \<le> length nm" for j
    by (rule of_nat_eq_u32) (use that n(1) in simp_all)
  then have "bytes_at (mem u) buf (length nm) = bytes_at (mem t) buf (length nm)" by (simp add: bytes_at_def u_def)
  then show "bytes_at (mem u) buf (Suc (length nm)) = nm @ [10]"
    unfolding bytes_at_def [of _ _ "Suc _"] upt_Suc_append [OF le0] map_append by (simp add: bytes_at_def [symmetric] n(2)) (simp add: u_def)
qed

lemma ls_inv_put:
  assumes i: "ls_inv fd buf u" and cs: "9 \<notin> set cs"
  shows "ls_inv fd buf (console_put cs u)" "dir_names (console_put cs u) = dir_names u" "fd_pos fd (console_put cs u) = fd_pos fd u"
    "abs_screen (console_put cs u) = fold term_put cs (abs_screen u)"
proof -
  have st: "stdout_ok u" "cursor_ok u" and cl: "dir_client fd buf 32 u" using i by (simp_all add: ls_inv_def stdout_ok_def sys_dir_client_def)
  note scr = console_put_screen [OF st(2) cs]
  show "abs_screen (console_put cs u) = fold term_put cs (abs_screen u)" by (rule scr)
  have "fs_frame u (mem (console_put cs u))"
    unfolding fs_frame_def using frame_outD [OF scr(3)] i by (auto simp: ls_inv_def)
  from dir_client_frame [OF cl _ _ _ _ _ _ _ this]
  have d: "dir_client fd buf 32 (console_put cs u)" "dir_names (console_put cs u) = dir_names u" "fd_pos fd (console_put cs u) = fd_pos fd u"
    using cl by (simp_all add: console_put_kernel dir_client_def dir_fd_ok_def)
  then show "dir_names (console_put cs u) = dir_names u" "fd_pos fd (console_put cs u) = fd_pos fd u" by simp_all
  show "ls_inv fd buf (console_put cs u)" using i d stdout_ok_put [OF st(1) cs] by (simp add: ls_inv_def sys_dir_client_def console_put_kernel)
qed

lemma ls_echo_line:
  fixes s :: "'a kbd_scheme"
  assumes i: "ls_inv fd buf s" and r: "sys_dir_chunk fd buf 32 s = (c, t)" and c: "c \<noteq> []"
  shows "ls_inv fd buf (ls_echo buf c t)" "dir_names (ls_echo buf c t) = dir_names t" "fd_pos fd (ls_echo buf c t) = fd_pos fd t"
    "abs_screen (ls_echo buf c t) = fold put_line c (abs_screen t)"
proof -
  obtain nm where nm: "c = [nm]" "bytes_at (mem t) buf (length nm) = nm" "length nm \<le> 32" "9 \<notin> set nm"
    using ls_chunk [OF i r] c by metis
  note u = ls_newline [OF ls_read(1) [OF i r] nm(3,2,4)]
  note p = ls_inv_put [OF u(1), of "nm @ [10]"]
  show "ls_inv fd buf (ls_echo buf c t)" "dir_names (ls_echo buf c t) = dir_names t" "fd_pos fd (ls_echo buf c t) = fd_pos fd t"
    "abs_screen (ls_echo buf c t) = fold put_line c (abs_screen t)"
    using p u nm by (simp_all add: ls_echo_def put_line_def)
qed

interpretation ls_copier: stream_copier "sys_dir_chunk fd buf 32" "ls_inv fd buf" dir_names "fd_pos fd" "ls_echo buf" abs_screen put_line
  for fd buf
proof
  fix s c t assume i: "ls_inv fd buf s"
  then have cl: "sys_dir_client fd buf 32 s" by (simp add: ls_inv_def)
  obtain c' t' where r: "sys_dir_chunk fd buf 32 s = (c', t')" by (cases "sys_dir_chunk fd buf 32 s")
  show "ls_inv fd buf (snd (sys_dir_chunk fd buf 32 s))" "abs_screen (snd (sys_dir_chunk fd buf 32 s)) = abs_screen s"
    unfolding r snd_conv by (rule ls_read [OF i r])+
  show "dir_names (snd (sys_dir_chunk fd buf 32 s)) = dir_names s" by (rule sys_dir_cursor.items_read [OF cl])
  show "fst (sys_dir_chunk fd buf 32 s) @ drop (fd_pos fd (snd (sys_dir_chunk fd buf 32 s))) (dir_names s) = drop (fd_pos fd s) (dir_names s)"
    by (rule sys_dir_cursor.chunk_read [OF cl])
  show "fst (sys_dir_chunk fd buf 32 s) \<noteq> []" if "fd_pos fd s < length (dir_names s)" by (rule sys_dir_cursor.progress [OF cl that])
  assume "sys_dir_chunk fd buf 32 s = (c, t)" "c \<noteq> []"
  from ls_echo_line [OF i this]
  show "ls_inv fd buf (ls_echo buf c t)" "dir_names (ls_echo buf c t) = dir_names t" "fd_pos fd (ls_echo buf c t) = fd_pos fd t"
    "abs_screen (ls_echo buf c t) = fold put_line c (abs_screen t)" .
qed

lemma ls_loop_lists:
  "ls_inv fd (buf_at p) s \<Longrightarrow> copy_seq (sys_dir_chunk fd (buf_at p) 32) (ls_echo (buf_at p)) n s = Some t \<Longrightarrow> ls_loop p fd k s = Some (0, t)"
proof (induction n arbitrary: s k)
  case (Suc n)
  obtain c u where r: "sys_dir_chunk fd (buf_at p) 32 s = (c, u)" by (cases "sys_dir_chunk fd (buf_at p) 32 s")
  have sz: "SBUFSIZE - 1 = 32" by (simp add: SBUFSIZE_def)
  from ls_chunk [OF Suc.prems(1) r, of run_irq "arrivals p k"] show ?case
  proof cases
    case 1
    then show ?thesis using Suc.prems(2) r by (subst ls_loop.simps) (simp add: sz)
  next
    case (2 nm m d)
    note u = ls_read(1) [OF Suc.prems(1) r]
    define v where "v = u\<lparr>mem := (mem u)(buf_at p + of_nat (length nm) := 10)\<rparr>"
    note v = ls_newline [OF u 2(6,4,8), folded v_def]
    have w: "stdout_ok v" "buf_at p \<noteq> NULL" "separate (buf_at p) (Suc (length nm)) VIDEO 4000" "Suc (length nm) < 4294967296"
      using v(1) 2(6) by (auto simp: ls_inv_def sys_dir_client_def dir_client_def dir_buf_ok_def separate_def)
    have "sys_write_c 1 (buf_at p) (int (Suc (length nm))) v = Some (int (Suc (length nm)), ls_echo (buf_at p) c u)"
      using sys_write_stdout [OF w] v(5) 2(1,8) by (simp add: ls_echo_def v_def)
    then have "sys_write_c 1 (buf_at p) (int (length nm) + 1) v = Some (int (Suc (length nm)), ls_echo (buf_at p) c u)" by (simp add: add.commute)
    moreover have "ls_loop p fd (k + 1) (ls_echo (buf_at p) c u) = Some (0, t)"
      using Suc.IH [OF ls_copier.inv_echo [OF Suc.prems(1) r]] Suc.prems(2) r 2(1) by simp
    ultimately show ?thesis using 2(1,3,7) by (subst ls_loop.simps) (simp add: sz v_def)
  qed
qed simp

definition ls_ready :: "program \<Rightarrow> 'a kbd_scheme \<Rightarrow> bool" where
  "ls_ready p s \<longleftrightarrow> stdout_ok s \<and> open_args (dentry_at p) (literal p (chars_of ''.'')) (chars_of ''.'') s \<and>
     dir_buf_ok (buf_at p) s \<and> [] \<notin> set (dir_names s) \<and> list_all (\<lambda>nm. 9 \<notin> set nm) (dir_names s) \<and>
     list_all (\<lambda>(a, n). separate a n VIDEO 4000)
       [(buf_at p, 33), (read_dentry s, 64), (filename_buf s, 34), (open_dentry s, 64), (dentry_at p, 64), (filesys_ptr s, 4096)]"

lemma ls_lists:
  fixes s :: "'a kbd_scheme"
  assumes r: "ls_ready p s" and j: "dir_lookup (chars_of ''.'') s = Some j" and i: "first_free s = Some i"
    and ty: "entry_type (filesys_ptr s) j (mem s) = DIR_FILE"
  obtains s' where "ls_main p s = Some (0, s')" "abs_screen s' = fold put_line (dir_names s) (abs_screen s)"
proof -
  have o: "open_args (dentry_at p) (literal p (chars_of ''.'')) (chars_of ''.'') s" and st: "stdout_ok s" and f: "files_ok s"
    using r by (simp_all add: ls_ready_def open_args_def)
  have i8: "2 \<le> i" "i < 8" using i by (simp_all add: first_free_Some_iff)
  obtain s2 d where s2: "sys_open_c (dentry_at p) (literal p (chars_of ''.'')) s = Some (int i, s2)" "dir_fd_ok (int i) s2" "fd_pos (int i) s2 = 0"
    "dir_names s2 = dir_names s" "file_op_ptr (get_fd s2 i) = Some dir_table" "filesys_ptr s2 = filesys_ptr s" "read_dentry s2 = read_dentry s"
    "s2 = set_fd i d (s\<lparr>mem := mem s2\<rparr>)" "frame_out (open_regions (dentry_at p) s) (mem s) (mem s2)"
    using sys_open_directory [OF o j i ty] by metis
  have xy: "screen_x s2 = screen_x s" "screen_y s2 = screen_y s" "get_fd s2 1 = get_fd s 1"
    by (subst s2(8), use i8 f in \<open>simp add: set_fd_def get_fd_def cur_files_def Let_def files_ok_def\<close>)+
  have "stdout_ok s2" by (rule stdout_ok_cong [OF st]) (use xy in simp_all)
  then have inv: "ls_inv (int i) (buf_at p) s2"
    using r s2 separate_sym by (auto simp: ls_inv_def ls_ready_def sys_dir_client_def dir_client_def dir_buf_ok_def)
  have scr: "abs_screen s2 = abs_screen s"
    by (rule abs_screen_frame [OF xy(1,2) s2(9)]) (use r in \<open>auto simp: open_regions_def ls_ready_def\<close>)
  obtain t where t: "copy_seq (sys_dir_chunk (int i) (buf_at p) 32) (ls_echo (buf_at p)) (Suc (length (dir_names s))) s2 = Some t"
    "abs_screen t = fold put_line (dir_names s) (abs_screen s)"
    using ls_copier.copy_all [OF inv, of "Suc (length (dir_names s))"] s2(3,4) scr by auto
  have "ls_main p s = Some (0, t)" using ls_loop_lists [OF inv t(1), of 0] by (simp add: ls_main_def s2(1))
  then show thesis using t(2) by (rule that)
qed

section \<open>Properties\<close>

text \<open>The sample kernel with a process whose command line is \<^verbatim>\<open>cat a.txt\<close>, and addresses for its program.\<close>

definition typed_cat :: paging where
  "typed_cat = sample_kernel\<lparr>pcb_heap := (\<lambda>_. sample_pcb\<lparr>input := [99, 97, 116, 32, 97, 46, 116, 120, 116, 0] @ replicate 1014 0\<rparr>)\<rparr>"

definition sample_program :: program where
  "sample_program = \<lparr>literal = \<lambda>_. 0x200100, buf_at = 0x230000, dentry_at = 0x220000, arrivals = \<lambda>_. []\<rparr>"

lemma typed_cat_fields:
  "mem typed_cat = sample_mem" "filesys_ptr typed_cat = 0x100000" "bblk typed_cat = bblk sample_fsys"
  "open_dentry typed_cat = 0x210000" "read_dentry typed_cat = 0x211000" "filename_buf typed_cat = 0x212000"
  "cur_files typed_cat = cur_files sample_fsys"
  using sample_kernel_fields by (simp_all add: typed_cat_def) (simp add: cur_files_def sample_fsys_def)

lemma typed_cat_view:
  "fs_layout typed_cat = fs_layout sample_fsys" "dir_lookup f typed_cat = dir_lookup f sample_fsys" "files_ok typed_cat = files_ok sample_fsys"
  "first_free typed_cat = first_free sample_fsys" "get_fd typed_cat i = get_fd sample_fsys i"
  by (rule same_fsys; simp add: typed_cat_fields; simp add: sample_fsys_def)+

lemma sample_screen: "screen_x sample_kernel = 0" "screen_y sample_kernel = 0"
  by (simp_all add: sample_kernel_def kbd.defs rtc.defs fsys.defs paging.defs) (simp_all add: sample_fsys_def)

lemma sample_stdout: "stdout_ok sample_kernel" "stdout_ok typed_cat"
proof -
  have "flags (get_fd sample_fsys 1) mod 2 = 1" "file_op_ptr (get_fd sample_fsys 1) = Some terminal_table"
    by (simp_all add: get_fd_def cur_files_def sample_fsys_def sample_pcb_def sample_files_def)
  then show "stdout_ok sample_kernel" "stdout_ok typed_cat"
    using sample_screen by (simp_all add: stdout_ok_def typed_cat_view sample_kernel_view cursor_ok_def) (simp_all add: typed_cat_def)
qed

lemma typed_cat_ready: "cat_ready sample_program [97, 46, 116, 120, 116] typed_cat"
proof -
  have "\<exists>name rest. input (pcb_heap typed_cat (cur_pcb typed_cat)) = name @ [32] @ [97, 46, 116, 120, 116] @ 0 # rest \<and>
      32 \<notin> set name \<and> 0 \<notin> set [97, 46, 116, 120, 116 :: byte] \<and> [97, 46, 116, 120, 116] \<noteq> ([] :: byte list) \<and>
      length name + 1 + 2 * length [97, 46, 116, 120, 116 :: byte] < 1024"
    by (rule exI [of _ "[99, 97, 116]"], rule exI [of _ "replicate 1014 0"]) (simp add: typed_cat_def)
  then show ?thesis
    unfolding cat_ready_def using sample_fs_layout sample_fds(1) sample_stdout(2)
    by (simp add: typed_cat_view typed_cat_fields sample_program_def dentry_arg_def sample_frame image_size_def)
      (simp add: separate_def VIDEO_def)
qed

text \<open>
  C13. \<^verbatim>\<open>cat\<close> with the name of a regular file as its argument shows the file: it fetches the argument, opens the file,
  copies it in pieces of 1024 bytes and returns 0, and the terminal shows all bytes of the file in order behind what it
  showed before. Without such a file it shows \<^verbatim>\<open>file not found\<close> and returns 2. It ends in either case.
\<close>

theorem cat_prints_file:
  fixes s :: "'a kbd_scheme"
  assumes "cat_ready p f s" "first_free s = Some i"
    and "case dir_lookup f s of
        None \<Rightarrow> literal_ok p (cat_regions p s) (line_of ''file not found'') (mem s)
      | Some j \<Rightarrow> entry_type (filesys_ptr s) j (mem s) = REG_FILE \<and>
          inode_ok (filesys_ptr s) (bblk s) (entry_inode (filesys_ptr s) j (mem s)) (mem s) \<and>
          9 \<notin> set (file_content (filesys_ptr s) (bblk s) (entry_inode (filesys_ptr s) j (mem s)) (mem s))"
  shows "\<exists>s'. cat_main p s = Some (case dir_lookup f s of None \<Rightarrow> 2 | Some j \<Rightarrow> 0, s') \<and>
     abs_screen s' = fold term_put
       (case dir_lookup f s of
          None \<Rightarrow> line_of ''file not found''
        | Some j \<Rightarrow> file_content (filesys_ptr s) (bblk s) (entry_inode (filesys_ptr s) j (mem s)) (mem s)) (abs_screen s)"
proof (cases "dir_lookup f s")
  case None
  have "literal_ok p (cat_regions p s) (line_of ''file not found'') (mem s)" using assms(3) None by simp
  from cat_missing [OF assms(1) None this] obtain s' where "cat_main p s = Some (2, s')"
    "abs_screen s' = fold term_put (line_of ''file not found'') (abs_screen s)" .
  then show ?thesis using None by simp
next
  case (Some j)
  let ?c = "file_content (filesys_ptr s) (bblk s) (entry_inode (filesys_ptr s) j (mem s)) (mem s)"
  have q: "entry_type (filesys_ptr s) j (mem s) = REG_FILE" "inode_ok (filesys_ptr s) (bblk s) (entry_inode (filesys_ptr s) j (mem s)) (mem s)"
    "9 \<notin> set ?c" using assms(3) Some by simp_all
  from cat_copies [OF assms(1) Some assms(2) q(1,2) refl q(3)] obtain s' where "cat_main p s = Some (0, s')"
    "abs_screen s' = fold term_put ?c (abs_screen s)" .
  then show ?thesis using Some by simp
qed

theorem cat_prints_file_witness:
  "\<exists>s'. cat_main sample_program typed_cat = Some (0, s') \<and>
     abs_screen s' = fold term_put [104, 101, 108, 108, 111] (abs_screen typed_cat)"
  using cat_prints_file [OF typed_cat_ready, of 4] sample_lookup(1) sample_entry_info(1,2) sample_inode_ok sample_file_content
  by (simp add: typed_cat_view typed_cat_fields sample_first_free)

text \<open>
  C14. \<^verbatim>\<open>ls\<close> shows the directory: it opens the entry \<^verbatim>\<open>.\<close>, reads and writes until the directory ends and returns 0, and the
  terminal shows the name of every entry in order, each on a line of its own, names of the full 32 characters included.
\<close>

theorem ls_shows_directory:
  fixes s :: "'a kbd_scheme"
  assumes "ls_ready p s" "dir_lookup (chars_of ''.'') s = Some j" "first_free s = Some i"
    and "entry_type (filesys_ptr s) j (mem s) = DIR_FILE"
  shows "\<exists>s'. ls_main p s = Some (0, s') \<and>
     abs_screen s' = fold (\<lambda>name. fold term_put (name @ [10])) (dir_names s) (abs_screen s)"
  using ls_lists [OF assms] unfolding put_line_def by metis

theorem ls_shows_directory_witness:
  "\<exists>s'. ls_main sample_program sample_kernel = Some (0, s') \<and>
     abs_screen s' = fold term_put [46, 10, 114, 116, 99, 10, 97, 46, 116, 120, 116, 10] (abs_screen sample_kernel)"
proof -
  have "ls_ready sample_program sample_kernel"
    unfolding ls_ready_def using sample_open_args(2) sample_stdout(1) sample_entry_info
    by (simp add: sample_program_def chars_of_def dir_buf_ok_def sample_kernel_fields sample_kernel_view)
      (simp add: separate_def VIDEO_def)
  from ls_shows_directory [OF this, of 0 4] sample_entry_info show ?thesis
    by (simp add: chars_of_def sample_kernel_view sample_kernel_fields sample_first_free)
qed

end
