(* ===== verification/Syserr.thy ===== *)
theory Syserr
  imports User_Programs
begin

text \<open>
  The test program \<^verbatim>\<open>syscalls/ece391syserr.c\<close>: eight groups of system calls that the kernel must refuse. The
  theory shows that the modelled kernel passes all of them.
\<close>

section \<open>Definitions\<close>

definition NEG_FD :: int where "NEG_FD = -1073741823"
definition BIG_FD :: int where "BIG_FD = 1073741823"
definition BIG_NUM :: int where "BIG_NUM = 1073741823"
definition NEG_NUM :: int where "NEG_NUM = -1073741823"

text \<open>
  The dispatcher behind \<^verbatim>\<open>INT $0x80\<close>: a number outside 1 to 10 gives -1, another one selects an entry of the
  jump table. The entries stand for the calls with the registers as they are.
\<close>

definition syscall_dispatch :: "('s \<Rightarrow> (int \<times> 's) option) list \<Rightarrow> int \<Rightarrow> 's \<Rightarrow> (int \<times> 's) option" where
  "syscall_dispatch jump_table num s = (if 10 < num then Some (-1, s) else if num < 1 then Some (-1, s) else (jump_table ! nat (num - 1)) s)"

definition call_sys :: "('s \<Rightarrow> (int \<times> 's) option) list \<Rightarrow> int \<Rightarrow> 's \<Rightarrow> (int \<times> 's) option" where
  "call_sys jump_table num s = syscall_dispatch jump_table num s"

text \<open>The two patterns of the tests: a call that must return -1, and the report at the end.\<close>

definition expect_error :: "program \<Rightarrow> byte list \<Rightarrow> int \<Rightarrow> int \<Rightarrow> 'a kbd_scheme \<Rightarrow> (int \<times> 'a kbd_scheme) option" where
  "expect_error p msg r fail s = (if r \<noteq> -1 then do { s' \<leftarrow> ece391_fdputs 1 (literal p msg) s; Some (2, s') } else Some (fail, s))"

definition report :: "program \<Rightarrow> string \<Rightarrow> int \<Rightarrow> 'a kbd_scheme \<Rightarrow> (int \<times> 'a kbd_scheme) option" where
  "report p name fail s =
     (if fail \<noteq> 0 then do { s' \<leftarrow> ece391_fdputs 1 (literal p (line_of (name @ '': FAIL''))) s; Some (fail, s') }
      else do { s' \<leftarrow> ece391_fdputs 1 (literal p (line_of (name @ '': PASS''))) s; Some (fail, s') })"

definition err_bad_fd :: "program \<Rightarrow> int \<Rightarrow> string \<Rightarrow> 'a kbd_scheme \<Rightarrow> (int \<times> 'a kbd_scheme) option" where
  "err_bad_fd p fd name s =
     do { (r, s1) \<leftarrow> sys_read_c run_irq (arrivals p 0) fd (buf_at p) 31 s;
          (fail, s2) \<leftarrow> expect_error p (line_of ''read fail'') r 0 s1;
          (r, s3) \<leftarrow> sys_write_c fd (buf_at p) 31 s2;
          (fail, s4) \<leftarrow> expect_error p (line_of ''write fail'') r fail s3;
          (r, s5) \<leftarrow> sys_close_c fd s4;
          (fail, s6) \<leftarrow> expect_error p (line_of ''close fail'') r fail s5;
          report p name fail s6 }"

definition err_neg_fd :: "program \<Rightarrow> 'a kbd_scheme \<Rightarrow> (int \<times> 'a kbd_scheme) option" where
  "err_neg_fd p s = err_bad_fd p NEG_FD ''err_neg_fd'' s"

definition err_big_fd :: "program \<Rightarrow> 'a kbd_scheme \<Rightarrow> (int \<times> 'a kbd_scheme) option" where
  "err_big_fd p s = err_bad_fd p BIG_FD ''err_big_fd'' s"

primrec open_lots :: "program \<Rightarrow> nat \<Rightarrow> int \<Rightarrow> 'a kbd_scheme \<Rightarrow> (int \<times> 'a kbd_scheme) option" where
  "open_lots p 0 cnt s = Some (cnt, s)"
| "open_lots p (Suc n) cnt s =
     do { (r, s1) \<leftarrow> sys_open_c (dentry_at p) (literal p (chars_of ''.'')) s;
          open_lots p n (if r = -1 then cnt + 1 else cnt) s1 }"

primrec close_lots :: "nat list \<Rightarrow> 'a kbd_scheme \<Rightarrow> 'a kbd_scheme option" where
  "close_lots [] s = Some s"
| "close_lots (i # is) s = do { (_, s1) \<leftarrow> sys_close_c (int i) s; close_lots is s1 }"

definition err_open_lots :: "program \<Rightarrow> 'a kbd_scheme \<Rightarrow> (int \<times> 'a kbd_scheme) option" where
  "err_open_lots p s =
     do { (cnt, s1) \<leftarrow> open_lots p 7 0 s;
          s2 \<leftarrow> close_lots [2..<8] s1;
          if cnt = 1 then do { s3 \<leftarrow> ece391_fdputs 1 (literal p (line_of ''err_open_lots: PASS'')) s2; Some (0, s3) }
          else do { s3 \<leftarrow> ece391_fdputs 1 (literal p (line_of ''err_open_lots: FAIL'')) s2; Some (2, s3) } }"

definition err_open :: "program \<Rightarrow> 'a kbd_scheme \<Rightarrow> (int \<times> 'a kbd_scheme) option" where
  "err_open p s =
     do { (r, s1) \<leftarrow> sys_open_c (dentry_at p) (literal p (chars_of ''helloo'')) s;
          (fail, s2) \<leftarrow> expect_error p (line_of (CHR 0x27 # ''helloo'' @ CHR 0x27 # '' fail'')) r 0 s1;
          (r, s3) \<leftarrow> sys_open_c (dentry_at p) (literal p (chars_of ''shel'')) s2;
          (fail, s4) \<leftarrow> expect_error p (line_of (CHR 0x27 # ''shel'' @ CHR 0x27 # '' fail'')) r fail s3;
          (r, s5) \<leftarrow> sys_open_c (dentry_at p) (literal p []) s4;
          (fail, s6) \<leftarrow> expect_error p (line_of ''empty string fail'') r fail s5;
          report p ''err_open'' fail s6 }"

primrec refuse_each ::
  "program \<Rightarrow> string \<Rightarrow> (nat \<Rightarrow> 'a kbd_scheme \<Rightarrow> (int \<times> 'a kbd_scheme) option) \<Rightarrow> nat list \<Rightarrow> int \<Rightarrow> 'a kbd_scheme \<Rightarrow> (int \<times> 'a kbd_scheme) option" where
  "refuse_each p msg call [] fail s = Some (fail, s)"
| "refuse_each p msg call (i # is) fail s =
     do { (r, s1) \<leftarrow> call i s; (fail, s2) \<leftarrow> expect_error p (line_of msg) r fail s1; refuse_each p msg call is fail s2 }"

definition err_unopened :: "program \<Rightarrow> 'a kbd_scheme \<Rightarrow> (int \<times> 'a kbd_scheme) option" where
  "err_unopened p s =
     do { (fail, s1) \<leftarrow> refuse_each p ''close unopened or invalid fd fail'' (\<lambda>i. sys_close_c (int i)) [0..<8] 0 s;
          (fail, s2) \<leftarrow> refuse_each p ''read from unopened fd fail'' (\<lambda>i. sys_read_c run_irq (arrivals p i) (int i) (buf_at p) 31) [2..<8] fail s1;
          (fail, s3) \<leftarrow> refuse_each p ''write to unopened fd fail'' (\<lambda>i. sys_write_c (int i) (buf_at p) 31) [2..<8] fail s2;
          report p ''err_unopened'' fail s3 }"

definition err_vidmap :: "program \<Rightarrow> 'a paging_scheme \<Rightarrow> (int \<times> 'a paging_scheme) option" where
  "err_vidmap p s =
     (let (r, s1) = sys_vidmap_c NULL s
      in do { (fail, s2) \<leftarrow> expect_error p (line_of ''Null pointer fail'') r 0 s1;
              let (r, s3) = sys_vidmap_c 0x400000 s2;
              (fail, s4) \<leftarrow> expect_error p (line_of ''Kernel pointer fail fail'') r fail s3;
              report p ''err_vidmap'' fail s4 })"

definition err_stdin_out :: "program \<Rightarrow> 'a kbd_scheme \<Rightarrow> (int \<times> 'a kbd_scheme) option" where
  "err_stdin_out p s =
     do { (r, s1) \<leftarrow> sys_write_c 0 (buf_at p) 31 s;
          (fail, s2) \<leftarrow> expect_error p (line_of ''write to stdin fail'') r 0 s1;
          (r, s3) \<leftarrow> sys_read_c run_irq (arrivals p 0) 1 (buf_at p) 31 s2;
          (fail, s4) \<leftarrow> expect_error p (line_of ''read from stdout fail'') r fail s3;
          report p ''err_stdin_out'' fail s4 }"

definition err_syscall_num ::
  "program \<Rightarrow> ('a kbd_scheme \<Rightarrow> (int \<times> 'a kbd_scheme) option) list \<Rightarrow> 'a kbd_scheme \<Rightarrow> (int \<times> 'a kbd_scheme) option" where
  "err_syscall_num p jump_table s =
     do { (r, s1) \<leftarrow> call_sys jump_table BIG_NUM s;
          (fail, s2) \<leftarrow> expect_error p (line_of ''syscall 0 fail'') r 0 s1;
          (r, s3) \<leftarrow> call_sys jump_table NEG_NUM s2;
          (fail, s4) \<leftarrow> expect_error p (line_of ''big num syscall fail'') r fail s3;
          (r, s5) \<leftarrow> call_sys jump_table 0 s4;
          (fail, s6) \<leftarrow> expect_error p (line_of ''neg num syscall fail'') r fail s5;
          report p ''err_syscall_num'' fail s6 }"

text \<open>Case 0 of the switch in \<open>main\<close>, and the whole of it. \<open>select\<close> is computed from an unsigned byte.\<close>

definition syserr_all :: "program \<Rightarrow> ('a paging_scheme \<Rightarrow> (int \<times> 'a paging_scheme) option) list \<Rightarrow> 'a paging_scheme \<Rightarrow> (int \<times> 'a paging_scheme) option" where
  "syserr_all p jump_table s =
     do { (f1, s1) \<leftarrow> err_neg_fd p s; (f2, s2) \<leftarrow> err_big_fd p s1; (f3, s3) \<leftarrow> err_open_lots p s2; (f4, s4) \<leftarrow> err_open p s3;
          (f5, s5) \<leftarrow> err_unopened p s4; (f6, s6) \<leftarrow> err_vidmap p s5; (f7, s7) \<leftarrow> err_stdin_out p s6; (f8, s8) \<leftarrow> err_syscall_num p jump_table s7;
          let fail = f1 + f2 + f3 + f4 + f5 + f6 + f7 + f8;
          if fail \<noteq> 0 then do { s9 \<leftarrow> ece391_fdputs 1 (literal p (10 # line_of ''Overall Tests: FAIL'')) s8; Some (fail, s9) }
          else do { s9 \<leftarrow> ece391_fdputs 1 (literal p (10 # line_of ''Overall Tests: PASS'')) s8; Some (fail, s9) } }"

definition syserr_main :: "program \<Rightarrow> ('a paging_scheme \<Rightarrow> (int \<times> 'a paging_scheme) option) list \<Rightarrow> 'a paging_scheme \<Rightarrow> (int \<times> 'a paging_scheme) option" where
  "syserr_main p jump_table s =
     do { s1 \<leftarrow> ece391_fdputs 1 (literal p (chars_of ''Choose from tests 1-8. 0 to run all: '')) s;
          (cnt, s2) \<leftarrow> sys_read_c run_irq (arrivals p 0) 0 (buf_at p) 127 s1;
          if cnt = -1 then do { s3 \<leftarrow> ece391_fdputs 1 (literal p (line_of ''Can't read test #'')) s2; Some (2, s3) }
          else let select = uint (mem s2 (buf_at p)) - 48
               in if select = 0 then syserr_all p jump_table s2
                  else if select = 1 then err_neg_fd p s2
                  else if select = 2 then err_big_fd p s2
                  else if select = 3 then err_open_lots p s2
                  else if select = 4 then err_open p s2
                  else if select = 5 then err_unopened p s2
                  else if select = 6 then err_vidmap p s2
                  else if select = 7 then err_stdin_out p s2
                  else if select = 8 then err_syscall_num p jump_table s2
                  else do { s3 \<leftarrow> ece391_fdputs 1 (literal p (chars_of ''Invalid test number. Choose from tests 1-8 or 0'')) s2; Some (0, s3) } }"

section \<open>The state of the tests\<close>

text \<open>The literals that a passing run uses: the names it opens and the lines it prints.\<close>

definition bad_names :: "byte list list" where
  "bad_names = [chars_of ''helloo'', chars_of ''shel'', []]"

definition pass_lines :: "byte list list" where
  "pass_lines = map line_of [''err_neg_fd: PASS'', ''err_big_fd: PASS'', ''err_open_lots: PASS'', ''err_open: PASS'', ''err_unopened: PASS'',
     ''err_vidmap: PASS'', ''err_stdin_out: PASS'', ''err_syscall_num: PASS''] @ [10 # line_of ''Overall Tests: PASS'']"

definition suite_mem :: "program \<Rightarrow> 'a kbd_scheme \<Rightarrow> bool" where
  "suite_mem p s \<longleftrightarrow> fs_layout s \<and> dentry_arg (dentry_at p) s \<and> separate (dentry_at p) 64 (filesys_ptr s) (image_size (bblk s)) \<and>
     list_all (\<lambda>(a, n). separate a n VIDEO 4000) ((filesys_ptr s, image_size (bblk s)) # open_regions (dentry_at p) s) \<and>
     list_all (\<lambda>t. literal_ok p (open_regions (dentry_at p) s) t (mem s)) (chars_of ''.'' # bad_names @ pass_lines) \<and>
     (case dir_lookup (chars_of ''.'') s of None \<Rightarrow> False | Some j \<Rightarrow> entry_type (filesys_ptr s) j (mem s) = DIR_FILE) \<and>
     list_all (\<lambda>f. dir_lookup f s = None) bad_names"

definition suite_fds :: "'a kbd_scheme \<Rightarrow> bool" where
  "suite_fds s \<longleftrightarrow> files_ok s \<and> stdout_ok s \<and> flags (get_fd s 0) mod 2 = 1 \<and> file_op_ptr (get_fd s 0) = Some terminal_table"

definition all_free :: "'a kbd_scheme \<Rightarrow> bool" where
  "all_free s \<longleftrightarrow> list_all (\<lambda>i. fd_free (get_fd s i)) [2..<8]"

lemma suite_mem_frame:
  fixes s t :: "'a kbd_scheme"
  assumes ok: "suite_mem p s" and k: "filesys_ptr t = filesys_ptr s" "bblk t = bblk s" "filename_buf t = filename_buf s"
      "open_dentry t = open_dentry s" "read_dentry t = read_dentry s"
    and fr: "frame_out ((VIDEO, 4000) # open_regions (dentry_at p) s) (mem s) (mem t)"
  shows "suite_mem p t"
proof -
  have rs: "open_regions (dentry_at p) t = open_regions (dentry_at p) s" using k by (simp add: open_regions_def)
  have lay: "fs_layout s" "dir_ok s" using ok by (simp_all add: suite_mem_def fs_layout_def)
  have sep: "separate a n (filesys_ptr s) (image_size (bblk s))" if "(a, n) \<in> set ((VIDEO, 4000) # open_regions (dentry_at p) s)" for a n
    using that ok separate_sym by (auto simp: suite_mem_def open_regions_def fs_layout_def)
  have fs: "fs_frame s (mem t)"
    unfolding fs_frame_def using frame_outD [OF fr sep] in_region_mono [OF _ image_prefix] by blast
  have n: "n_entries t = n_entries (s\<lparr>mem := mem t\<rparr>)" using k by (simp add: n_entries_def)
  have "dir_ok t = dir_ok (s\<lparr>mem := mem t\<rparr>)" using k n by (simp add: dir_ok_def)
  then have "fs_layout t" using dir_frame(3) [OF lay(2) fs] lay(1) k by (simp add: fs_layout_def)
  moreover have look: "dir_lookup f t = dir_lookup f s" for f
    using dir_frame(4) [OF lay(2) fs, of f] k n by (simp add: dir_lookup_def)
  moreover have "literal_ok p (open_regions (dentry_at p) s) x (mem t)" if "literal_ok p (open_regions (dentry_at p) s) x (mem s)" for x
  proof -
    have "literal_ok p ((VIDEO, 4000) # open_regions (dentry_at p) s) x (mem s)"
      using that separate_sym by (auto simp: literal_ok_def printable_def)
    from literal_ok_frame [OF this fr] show ?thesis by (simp add: literal_ok_def)
  qed
  moreover have "entry_type (filesys_ptr s) j (mem t) = entry_type (filesys_ptr s) j (mem s)" if "dir_lookup (chars_of ''.'') s = Some j" for j
    using entry_frame(2) [OF fs] dir_lookup_less [OF that] lay(2) by (simp add: dir_ok_def)
  ultimately show ?thesis
    using ok k rs by (auto simp: suite_mem_def list_all_iff dentry_arg_def split: option.splits)
qed

lemma suite_print:
  fixes s :: "'a kbd_scheme"
  assumes "suite_mem p s" "suite_fds s" "t \<in> set pass_lines"
  shows "ece391_fdputs 1 (literal p t) s = Some (console_put t s)" "suite_mem p (console_put t s)" "suite_fds (console_put t s)"
    "abs_screen (console_put t s) = fold term_put t (abs_screen s)" "all_free (console_put t s) = all_free s"
proof -
  have pr: "printable (literal p t) t (mem s)" using assms(1,3) by (simp add: suite_mem_def list_all_iff literal_ok_def)
  then have t9: "9 \<notin> set t" by (simp add: printable_def)
  have st: "stdout_ok s" "cursor_ok s" using assms(2) by (simp_all add: suite_fds_def stdout_ok_def)
  show "ece391_fdputs 1 (literal p t) s = Some (console_put t s)" by (rule fdputs_prints [OF st(1) pr])
  note scr = console_put_screen [OF st(2) t9]
  show "abs_screen (console_put t s) = fold term_put t (abs_screen s)" by (rule scr)
  have "frame_out ((VIDEO, 4000) # open_regions (dentry_at p) s) (mem s) (mem (console_put t s))"
    by (rule frame_out_weaken [OF scr(3)]) simp
  then show "suite_mem p (console_put t s)" by (intro suite_mem_frame [OF assms(1)]) (simp_all add: console_put_kernel)
  show "suite_fds (console_put t s)" using assms(2) stdout_ok_put [OF st(1) t9] by (simp add: suite_fds_def console_put_kernel)
  show "all_free (console_put t s) = all_free s" by (simp add: all_free_def console_put_kernel)
qed

text \<open>What a passing test does: it prints its line, returns 0 and keeps the state of the tests.\<close>

definition passes :: "program \<Rightarrow> byte list \<Rightarrow> ('a kbd_scheme \<Rightarrow> (int \<times> 'a kbd_scheme) option) \<Rightarrow> bool" where
  "passes p t test \<longleftrightarrow> (\<forall>s. suite_mem p s \<longrightarrow> suite_fds s \<longrightarrow> all_free s \<longrightarrow>
     (\<exists>s'. test s = Some (0, s') \<and> suite_mem p s' \<and> suite_fds s' \<and> all_free s' \<and> abs_screen s' = fold term_put t (abs_screen s)))"

lemma passesI:
  assumes "\<And>s. suite_mem p s \<Longrightarrow> suite_fds s \<Longrightarrow> all_free s \<Longrightarrow> test s = report p name 0 s" "line_of (name @ '': PASS'') \<in> set pass_lines"
  shows "passes p (line_of (name @ '': PASS'')) test"
  unfolding passes_def
proof (intro allI impI exI conjI)
  fix s :: "'a kbd_scheme"
  assume s: "suite_mem p s" "suite_fds s" "all_free s"
  note q = suite_print [OF s(1,2) assms(2)]
  show "test s = Some (0, console_put (line_of (name @ '': PASS'')) s)" using assms(1) [OF s] q(1) by (simp add: report_def)
  show "all_free (console_put (line_of (name @ '': PASS'')) s)" using q(5) s(3) by simp
qed (rule suite_print [OF _ _ assms(2)]; assumption)+

lemma pass_lines_cases:
  "line_of ''err_neg_fd: PASS'' \<in> set pass_lines" "line_of ''err_big_fd: PASS'' \<in> set pass_lines" "line_of ''err_open_lots: PASS'' \<in> set pass_lines"
  "line_of ''err_open: PASS'' \<in> set pass_lines" "line_of ''err_unopened: PASS'' \<in> set pass_lines" "line_of ''err_vidmap: PASS'' \<in> set pass_lines"
  "line_of ''err_stdin_out: PASS'' \<in> set pass_lines" "line_of ''err_syscall_num: PASS'' \<in> set pass_lines"
  "10 # line_of ''Overall Tests: PASS'' \<in> set pass_lines"
  unfolding pass_lines_def by simp_all

lemma expect_error_ok [simp]: "expect_error p msg (-1) fail s = Some (fail, s)"
  by (simp add: expect_error_def)

lemma passes_neg_fd: "passes p (line_of ''err_neg_fd: PASS'') (err_neg_fd p)"
  using passesI [of p "err_neg_fd p" "''err_neg_fd''"] pass_lines_cases(1)
  by (simp add: err_neg_fd_def err_bad_fd_def sys_read_c_def sys_write_c_def sys_close_c_def NEG_FD_def)

lemma passes_big_fd: "passes p (line_of ''err_big_fd: PASS'') (err_big_fd p)"
  using passesI [of p "err_big_fd p" "''err_big_fd''"] pass_lines_cases(2)
  by (simp add: err_big_fd_def err_bad_fd_def sys_read_c_def sys_write_c_def sys_close_c_def BIG_FD_def FD_SIZE_def)

lemma passes_vidmap: "passes p (line_of ''err_vidmap: PASS'') (err_vidmap p)"
  using passesI [of p "err_vidmap p" "''err_vidmap''"] pass_lines_cases(6)
  by (simp add: err_vidmap_def sys_vidmap_c_def FOUR_MB_def)

lemma passes_stdin_out: "buf_at p \<noteq> NULL \<Longrightarrow> passes p (line_of ''err_stdin_out: PASS'') (err_stdin_out p :: 'a kbd_scheme \<Rightarrow> _)"
proof -
  assume b: "buf_at p \<noteq> NULL"
  have "err_stdin_out p s = report p ''err_stdin_out'' 0 s" if s: "suite_fds s" for s :: "'a kbd_scheme"
  proof -
    have v: "valid_fd 0 s" "valid_fd 1 s" "file_op_ptr (get_fd s (nat 0)) = Some terminal_table" "file_op_ptr (get_fd s (nat 1)) = Some terminal_table"
      using s by (simp_all add: suite_fds_def stdout_ok_def valid_fd_def fd_free_def)
    have "sys_write_c 0 (buf_at p) 31 s = Some (-1, s)" "sys_read_c run_irq (arrivals p 0) 1 (buf_at p) 31 s = Some (-1, s)"
      using sys_write_dispatch [OF v(1) b _ v(3), of 31] sys_read_dispatch [OF v(2) b _ v(4), of 31 run_irq "arrivals p 0"]
      by (simp_all add: write_ptr_def read_ptr_def terminal_write_def terminal_read_def STDIN_def STDOUT_def)
    then show ?thesis by (simp add: err_stdin_out_def)
  qed
  then show ?thesis using passesI [of p "err_stdin_out p :: 'a kbd_scheme \<Rightarrow> _" "''err_stdin_out''"] pass_lines_cases(7) by simp
qed

lemma all_free_iff: "all_free s \<longleftrightarrow> (\<forall>k. 2 \<le> k \<and> k < 8 \<longrightarrow> fd_free (get_fd s k))"
  unfolding all_free_def list_all_iff set_upt by auto

lemma passes_syscall_num: "passes p (line_of ''err_syscall_num: PASS'') (err_syscall_num p jump_table)"
  using passesI [of p "err_syscall_num p jump_table" "''err_syscall_num''"] pass_lines_cases(8)
  by (simp add: err_syscall_num_def call_sys_def syscall_dispatch_def BIG_NUM_def NEG_NUM_def)

lemma refuse_each_ok:
  "(\<And>i. i \<in> set is \<Longrightarrow> call i s = Some (-1, s)) \<Longrightarrow> refuse_each p msg call is fail s = Some (fail, s)"
  by (induction "is") simp_all

lemma passes_unopened: "buf_at p \<noteq> NULL \<Longrightarrow> passes p (line_of ''err_unopened: PASS'') (err_unopened p :: 'a kbd_scheme \<Rightarrow> _)"
proof -
  assume b: "buf_at p \<noteq> NULL"
  have "err_unopened p s = report p ''err_unopened'' 0 s" if f: "all_free s" for s :: "'a kbd_scheme"
  proof -
    have fr: "flags (get_fd s i) mod 2 = 0" if "2 \<le> i" "i < 8" for i using f that by (simp add: all_free_iff fd_free_def)
    have "refuse_each p ''close unopened or invalid fd fail'' (\<lambda>i. sys_close_c (int i)) [0..<8] 0 s = Some (0, s)"
      by (rule refuse_each_ok) (use fr in \<open>auto simp: sys_close_c_def\<close>)
    moreover have "refuse_each p ''read from unopened fd fail'' (\<lambda>i. sys_read_c run_irq (arrivals p i) (int i) (buf_at p) 31) [2..<8] 0 s = Some (0, s)"
      by (rule refuse_each_ok) (use fr in \<open>auto simp: sys_read_c_def\<close>)
    moreover have "refuse_each p ''write to unopened fd fail'' (\<lambda>i. sys_write_c (int i) (buf_at p) 31) [2..<8] 0 s = Some (0, s)"
      by (rule refuse_each_ok) (use fr in \<open>auto simp: sys_write_c_def\<close>)
    ultimately show ?thesis by (simp only: err_unopened_def Option.bind.simps prod.case)
  qed
  then show ?thesis using passesI [of p "err_unopened p :: 'a kbd_scheme \<Rightarrow> _" "''err_unopened''"] pass_lines_cases(5) by simp
qed

section \<open>Opening and closing many descriptors\<close>

text \<open>The descriptors from 2 up to \<open>c\<close> are free, from \<open>c\<close> up to \<open>n\<close> they hold the directory, and the rest is free.\<close>

definition holds_dir :: "file_desc \<Rightarrow> bool" where
  "holds_dir d \<longleftrightarrow> flags d = 3 \<and> file_op_ptr d = Some dir_table"

definition opened :: "nat \<Rightarrow> nat \<Rightarrow> 'a kbd_scheme \<Rightarrow> bool" where
  "opened c n s \<longleftrightarrow> (\<forall>k \<in> {2..<8}. if c \<le> k \<and> k < n then holds_dir (get_fd s k) else fd_free (get_fd s k))"

lemma holds_dir_used: "holds_dir d \<Longrightarrow> \<not> fd_free d"
  by (simp add: holds_dir_def fd_free_def)

lemma suite_name:
  assumes "suite_mem p s" "files_ok s" "f \<in> set (chars_of ''.'' # bad_names)"
  shows "open_args (dentry_at p) (literal p f) f s"
proof -
  have "literal_ok p (open_regions (dentry_at p) s) f (mem s)" using assms(1,3) by (auto simp: suite_mem_def list_all_iff)
  then show ?thesis using assms(1,2) by (simp add: open_args_def suite_mem_def literal_ok_def printable_def name_arg_def open_regions_def)
qed

lemma suite_after_open:
  fixes s s' :: "'a kbd_scheme"
  assumes s: "suite_mem p s" "suite_fds s" and s': "s' = set_fd i d (s\<lparr>mem := mem s'\<rparr>)" "2 \<le> i"
    and fr: "frame_out (open_regions (dentry_at p) s) (mem s) (mem s')"
  shows "suite_mem p s'" "suite_fds s'" "abs_screen s' = abs_screen s" "\<And>k. k < 8 \<Longrightarrow> k \<noteq> i \<Longrightarrow> get_fd s' k = get_fd s k"
proof -
  have f: "files_ok s" "stdout_ok s" using s(2) by (simp_all add: suite_fds_def)
  have xy: "screen_x s' = screen_x s" "screen_y s' = screen_y s" "filesys_ptr s' = filesys_ptr s" "bblk s' = bblk s"
    "filename_buf s' = filename_buf s" "open_dentry s' = open_dentry s" "read_dentry s' = read_dentry s" "files_ok s'"
    by (subst s'(1), use f(1) in \<open>simp add: set_fd_def Let_def files_ok_def cur_files_def\<close>)+
  show get: "get_fd s' k = get_fd s k" if "k < 8" "k \<noteq> i" for k
    by (subst s'(1)) (use f(1) that in \<open>simp add: set_fd_def get_fd_def cur_files_def Let_def files_ok_def\<close>)
  show "suite_mem p s'"
    by (rule suite_mem_frame [OF s(1) xy(3-7)]) (rule frame_out_weaken [OF fr], auto)
  show "abs_screen s' = abs_screen s"
    by (rule abs_screen_frame [OF xy(1,2) fr]) (use s(1) in \<open>auto simp: suite_mem_def list_all_iff\<close>)
  have "stdout_ok s'" by (rule stdout_ok_cong [OF f(2)]) (use xy get s'(2) in simp_all)
  then show "suite_fds s'" using s(2) xy get s'(2) by (simp add: suite_fds_def)
qed

lemma suite_after_failure:
  fixes s :: "'a kbd_scheme"
  assumes s: "suite_mem p s" "suite_fds s" and fr: "frame_out (open_regions (dentry_at p) s) (mem s) m"
  shows "suite_mem p (s\<lparr>mem := m\<rparr>)" "suite_fds (s\<lparr>mem := m\<rparr>)" "abs_screen (s\<lparr>mem := m\<rparr>) = abs_screen s"
    "get_fd (s\<lparr>mem := m\<rparr>) = get_fd s"
proof -
  show g: "get_fd (s\<lparr>mem := m\<rparr>) = get_fd s" by (simp add: fun_eq_iff get_fd_def cur_files_def)
  show "suite_mem p (s\<lparr>mem := m\<rparr>)"
    by (rule suite_mem_frame [OF s(1)]) (use frame_out_weaken [OF fr, of "(VIDEO, 4000) # open_regions (dentry_at p) s"] in auto)
  show "abs_screen (s\<lparr>mem := m\<rparr>) = abs_screen s"
    by (rule abs_screen_frame [of _ _ "open_regions (dentry_at p) s"]) (use fr s(1) in \<open>auto simp: suite_mem_def list_all_iff\<close>)
  show "suite_fds (s\<lparr>mem := m\<rparr>)" using s(2) g by (simp add: suite_fds_def stdout_ok_def cursor_ok_def files_ok_def cur_files_def)
qed

lemma suite_open_dir:
  fixes s :: "'a kbd_scheme"
  assumes s: "suite_mem p s" "suite_fds s" "opened 2 n s" "2 \<le> n" "n < 8"
  obtains s' where "sys_open_c (dentry_at p) (literal p (chars_of ''.'')) s = Some (int n, s')" "suite_mem p s'" "suite_fds s'"
    "opened 2 (Suc n) s'" "abs_screen s' = abs_screen s"
proof -
  have f: "files_ok s" using s(2) by (simp add: suite_fds_def)
  obtain j where j: "dir_lookup (chars_of ''.'') s = Some j" "entry_type (filesys_ptr s) j (mem s) = DIR_FILE"
    using s(1) by (auto simp: suite_mem_def split: option.splits)
  have i: "first_free s = Some n"
    unfolding first_free_Some_iff using s(3-5) by (auto simp: opened_def dest: holds_dir_used split: if_splits)
  have oa: "open_args (dentry_at p) (literal p (chars_of ''.'')) (chars_of ''.'') s" by (rule suite_name [OF s(1) f]) simp
  obtain s' d where s': "sys_open_c (dentry_at p) (literal p (chars_of ''.'')) s = Some (int n, s')" "file_op_ptr (get_fd s' n) = Some dir_table"
    "s' = set_fd n d (s\<lparr>mem := mem s'\<rparr>)" "frame_out (open_regions (dentry_at p) s) (mem s) (mem s')" "flags (get_fd s' n) = 3"
    using sys_open_directory [OF oa j(1) i j(2)] by metis
  note a = suite_after_open [OF s(1,2) s'(3) s(4) s'(4)]
  have "opened 2 (Suc n) s'" using s(3,5) a(4) s'(2,5) by (auto simp: opened_def holds_dir_def less_Suc_eq split: if_splits)
  with s'(1) a(1-3) show thesis using that by blast
qed

lemma open_lots_dirs:
  fixes s :: "'a kbd_scheme"
  shows "suite_mem p s \<Longrightarrow> suite_fds s \<Longrightarrow> opened 2 (8 - k) s \<Longrightarrow> k \<le> 6 \<Longrightarrow>
    \<exists>s'. open_lots p (Suc k) cnt s = Some (cnt + 1, s') \<and> suite_mem p s' \<and> suite_fds s' \<and> opened 2 8 s' \<and> abs_screen s' = abs_screen s"
proof (induction k arbitrary: s)
  case 0
  have f: "files_ok s" using 0(2) by (simp add: suite_fds_def)
  obtain j where j: "dir_lookup (chars_of ''.'') s = Some j" using 0(1) by (auto simp: suite_mem_def split: option.splits)
  have "first_free s = None" unfolding first_free_None_iff using 0(3) by (auto simp: opened_def dest: holds_dir_used)
  moreover have "open_args (dentry_at p) (literal p (chars_of ''.'')) (chars_of ''.'') s" by (rule suite_name [OF 0(1) f]) simp
  ultimately obtain m where m: "sys_open_c (dentry_at p) (literal p (chars_of ''.'')) s = Some (-1, s\<lparr>mem := m\<rparr>)"
    "frame_out (open_regions (dentry_at p) s) (mem s) m" using sys_open_full j by metis
  then show ?case using suite_after_failure [OF 0(1,2) m(2)] 0(3) by (simp add: opened_def)
next
  case (Suc k)
  have n: "2 \<le> 8 - Suc k" "8 - Suc k < 8" "Suc (8 - Suc k) = 8 - k" using Suc.prems(4) by simp_all
  obtain s' where s': "sys_open_c (dentry_at p) (literal p (chars_of ''.'')) s = Some (int (8 - Suc k), s')" "suite_mem p s'" "suite_fds s'"
    "opened 2 (8 - k) s'" "abs_screen s' = abs_screen s" using suite_open_dir [OF Suc.prems(1-3) n(1,2)] unfolding n(3) by metis
  then show ?case using Suc.IH [OF s'(2-4)] Suc.prems(4) by (simp del: of_nat_diff)
qed

lemma close_dirs:
  fixes s :: "'a kbd_scheme"
  shows "suite_mem p s \<Longrightarrow> suite_fds s \<Longrightarrow> opened (8 - k) 8 s \<Longrightarrow> k \<le> 6 \<Longrightarrow>
    \<exists>s'. close_lots [8 - k..<8] s = Some s' \<and> suite_mem p s' \<and> suite_fds s' \<and> all_free s' \<and> abs_screen s' = abs_screen s"
proof (induction k arbitrary: s)
  case 0
  then have "all_free s" by (auto simp: opened_def all_free_iff)
  then show ?case using 0 by simp
next
  case (Suc k)
  define c where "c = 8 - Suc k"
  have c: "2 \<le> c" "c < 8" "Suc c = 8 - k" using Suc.prems(4) by (simp_all add: c_def)
  have op0: "opened c 8 s" unfolding c_def by (rule Suc.prems(3))
  have f: "files_ok s" using Suc.prems(2) by (simp add: suite_fds_def)
  have "holds_dir (get_fd s c)" using op0 c bspec [of "{2..<8}" _ c] by (auto simp: opened_def)
  then have d: "flags (get_fd s c) = 3" "file_op_ptr (get_fd s c) = Some dir_table" by (simp_all add: holds_dir_def)
  define s1 where "s1 = set_fd c ((get_fd s c)\<lparr>flags := 0\<rparr>) s"
  have cl: "sys_close_c (int c) s = Some (0, s1)"
    using c d by (simp add: sys_close_c_def FD_SIZE_def close_ptr_def dir_close_def s1_def TYPE_MASK_def TYPE_SHIFT_def DIR_FILE_def)
  have "s1 = set_fd c ((get_fd s c)\<lparr>flags := 0\<rparr>) (s\<lparr>mem := mem s1\<rparr>)" by (simp add: s1_def)
  note a = suite_after_open [OF Suc.prems(1,2) this c(1)]
  have fr: "frame_out (open_regions (dentry_at p) s) (mem s) (mem s1)" by (simp add: s1_def)
  have fc: "fd_free (get_fd s1 c)" using f c by (simp add: s1_def fd_free_def)
  have op: "opened (8 - k) 8 s1"
    unfolding opened_def c(3) [symmetric]
  proof
    fix k :: nat assume k: "k \<in> {2..<8}"
    then show "if Suc c \<le> k \<and> k < 8 then holds_dir (get_fd s1 k) else fd_free (get_fd s1 k)"
      using bspec [OF op0 [unfolded opened_def] k] a(4) [OF fr, of k] fc by (cases "k = c") (auto split: if_splits)
  qed
  have "[8 - Suc k..<8] = c # [8 - k..<8]" unfolding c_def [symmetric] c(3) [symmetric] using c(2) by (rule upt_conv_Cons)
  then show ?case using Suc.IH [OF a(1,2) [OF fr] op] Suc.prems(4) cl a(3) [OF fr] by simp
qed

lemma passes_open_lots: "passes p (line_of ''err_open_lots: PASS'') (err_open_lots p)"
  unfolding passes_def
proof (intro allI impI)
  fix s :: "'a kbd_scheme"
  assume s: "suite_mem p s" "suite_fds s" "all_free s"
  have "opened 2 (8 - 6) s" using s(3) by (auto simp: opened_def all_free_iff)
  then obtain s1 where s1: "open_lots p 7 0 s = Some (1, s1)" "suite_mem p s1" "suite_fds s1" "opened 2 8 s1" "abs_screen s1 = abs_screen s"
    using open_lots_dirs [OF s(1,2), of 6 0] by (auto simp del: open_lots.simps simp: numeral_eq_Suc)
  then have "opened (8 - 6) 8 s1" by simp
  then obtain s2 where s2: "close_lots [2..<8] s1 = Some s2" "suite_mem p s2" "suite_fds s2" "all_free s2" "abs_screen s2 = abs_screen s"
    using close_dirs [OF s1(2,3), of 6] s1(5) by (auto simp del: close_lots.simps upt_rec_numeral)
  note q = suite_print [OF s2(2,3) pass_lines_cases(3)]
  have "err_open_lots p s = Some (0, console_put (line_of ''err_open_lots: PASS'') s2)"
    unfolding err_open_lots_def s1(1) Option.bind.simps prod.case s2(1) using q(1) by simp
  then show "\<exists>s'. err_open_lots p s = Some (0, s') \<and> suite_mem p s' \<and> suite_fds s' \<and> all_free s' \<and>
      abs_screen s' = fold term_put (line_of ''err_open_lots: PASS'') (abs_screen s)"
    using q s2 by (intro exI [of _ "console_put (line_of ''err_open_lots: PASS'') s2"]) simp
qed

lemma suite_open_bad:
  fixes s :: "'a kbd_scheme"
  assumes s: "suite_mem p s" "suite_fds s" "all_free s" and f: "f \<in> set bad_names"
  obtains s' where "sys_open_c (dentry_at p) (literal p f) s = Some (-1, s')" "suite_mem p s'" "suite_fds s'" "all_free s'" "abs_screen s' = abs_screen s"
proof -
  have "files_ok s" using s(2) by (simp add: suite_fds_def)
  then have oa: "open_args (dentry_at p) (literal p f) f s" by (intro suite_name [OF s(1)]) (use f in simp_all)
  have "dir_lookup f s = None" using s(1) f by (simp add: suite_mem_def list_all_iff)
  then obtain m where m: "sys_open_c (dentry_at p) (literal p f) s = Some (-1, s\<lparr>mem := m\<rparr>)" "frame_out (open_regions (dentry_at p) s) (mem s) m"
    using sys_open_missing [OF oa] by blast
  note a = suite_after_failure [OF s(1,2) m(2)]
  have "all_free (s\<lparr>mem := m\<rparr>)" using s(3) a(4) by (simp add: all_free_iff)
  then show thesis using that m(1) a(1-3) by blast
qed

lemma passes_err_open: "passes p (line_of ''err_open: PASS'') (err_open p)"
  unfolding passes_def
proof (intro allI impI)
  fix s :: "'a kbd_scheme"
  assume s: "suite_mem p s" "suite_fds s" "all_free s"
  have n: "chars_of ''helloo'' \<in> set bad_names" "chars_of ''shel'' \<in> set bad_names" "[] \<in> set bad_names" by (simp_all add: bad_names_def)
  obtain s1 where s1: "sys_open_c (dentry_at p) (literal p (chars_of ''helloo'')) s = Some (-1, s1)"
    and i1: "suite_mem p s1" "suite_fds s1" "all_free s1" "abs_screen s1 = abs_screen s" by (rule suite_open_bad [OF s n(1)])
  obtain s2 where s2: "sys_open_c (dentry_at p) (literal p (chars_of ''shel'')) s1 = Some (-1, s2)"
    and i2: "suite_mem p s2" "suite_fds s2" "all_free s2" "abs_screen s2 = abs_screen s1" by (rule suite_open_bad [OF i1(1-3) n(2)])
  obtain s3 where s3: "sys_open_c (dentry_at p) (literal p []) s2 = Some (-1, s3)"
    and i3: "suite_mem p s3" "suite_fds s3" "all_free s3" "abs_screen s3 = abs_screen s2" by (rule suite_open_bad [OF i2(1-3) n(3)])
  note q = suite_print [OF i3(1,2) pass_lines_cases(4)]
  have "err_open p s = report p ''err_open'' 0 s3"
    unfolding err_open_def s1 s2 s3 Option.bind.simps prod.case expect_error_ok ..
  then have "err_open p s = Some (0, console_put (line_of ''err_open: PASS'') s3)" using q(1) by (simp add: report_def)
  then show "\<exists>s'. err_open p s = Some (0, s') \<and> suite_mem p s' \<and> suite_fds s' \<and> all_free s' \<and>
      abs_screen s' = fold term_put (line_of ''err_open: PASS'') (abs_screen s)"
    using q i1 i2 i3 by (intro exI [of _ "console_put (line_of ''err_open: PASS'') s3"]) simp
qed

section \<open>Properties\<close>

lemma passesD:
  assumes "passes p t test" "suite_mem p s \<and> suite_fds s \<and> all_free s"
  obtains s' where "test s = Some (0, s')" "suite_mem p s' \<and> suite_fds s' \<and> all_free s'" "abs_screen s' = fold term_put t (abs_screen s)"
  using assms unfolding passes_def by blast

text \<open>
  C12. The kernel passes its own error tests. When descriptors 0 and 1 are the terminal and the others are free, and
  the directory has an entry \<^verbatim>\<open>.\<close> for itself and none of the wrong names, the run of all tests of \<^verbatim>\<open>syserr\<close>
  returns 0 and prints a pass line for every test and for the whole: negative and big descriptors, the seventh open of a
  process, names that are too long, too short or empty, descriptors that are not open, null and kernel pointers for
  \<^verbatim>\<open>vidmap\<close>, writing to the keyboard and reading from the screen, and bad call numbers all give -1. Afterwards every
  descriptor from 2 to 7 is free again.
\<close>

theorem kernel_passes_error_tests:
  fixes s :: "'a paging_scheme"
  assumes "suite_mem p s" "suite_fds s" "all_free s" "buf_at p \<noteq> NULL"
  shows "\<exists>s'. syserr_all p jump_table s = Some (0, s') \<and> all_free s' \<and> abs_screen s' = fold term_put (concat pass_lines) (abs_screen s)"
proof -
  have "suite_mem p s \<and> suite_fds s \<and> all_free s" using assms by blast
  from passesD [OF passes_neg_fd this] obtain s1 where
    1: "err_neg_fd p s = Some (0, s1)" "suite_mem p s1 \<and> suite_fds s1 \<and> all_free s1" "abs_screen s1 = fold term_put (line_of ''err_neg_fd: PASS'') (abs_screen s)" .
  from passesD [OF passes_big_fd 1(2)] obtain s2 where
    2: "err_big_fd p s1 = Some (0, s2)" "suite_mem p s2 \<and> suite_fds s2 \<and> all_free s2" "abs_screen s2 = fold term_put (line_of ''err_big_fd: PASS'') (abs_screen s1)" .
  from passesD [OF passes_open_lots 2(2)] obtain s3 where
    3: "err_open_lots p s2 = Some (0, s3)" "suite_mem p s3 \<and> suite_fds s3 \<and> all_free s3" "abs_screen s3 = fold term_put (line_of ''err_open_lots: PASS'') (abs_screen s2)" .
  from passesD [OF passes_err_open 3(2)] obtain s4 where
    4: "err_open p s3 = Some (0, s4)" "suite_mem p s4 \<and> suite_fds s4 \<and> all_free s4" "abs_screen s4 = fold term_put (line_of ''err_open: PASS'') (abs_screen s3)" .
  from passesD [OF passes_unopened [OF assms(4)] 4(2)] obtain s5 where
    5: "err_unopened p s4 = Some (0, s5)" "suite_mem p s5 \<and> suite_fds s5 \<and> all_free s5" "abs_screen s5 = fold term_put (line_of ''err_unopened: PASS'') (abs_screen s4)" .
  from passesD [OF passes_vidmap 5(2)] obtain s6 where
    6: "err_vidmap p s5 = Some (0, s6)" "suite_mem p s6 \<and> suite_fds s6 \<and> all_free s6" "abs_screen s6 = fold term_put (line_of ''err_vidmap: PASS'') (abs_screen s5)" .
  from passesD [OF passes_stdin_out [OF assms(4)] 6(2)] obtain s7 where
    7: "err_stdin_out p s6 = Some (0, s7)" "suite_mem p s7 \<and> suite_fds s7 \<and> all_free s7" "abs_screen s7 = fold term_put (line_of ''err_stdin_out: PASS'') (abs_screen s6)" .
  from passesD [OF passes_syscall_num 7(2)] obtain s8 where
    8: "err_syscall_num p jump_table s7 = Some (0, s8)" "suite_mem p s8 \<and> suite_fds s8 \<and> all_free s8"
      "abs_screen s8 = fold term_put (line_of ''err_syscall_num: PASS'') (abs_screen s7)" .
  note q = suite_print [OF _ _ pass_lines_cases(9), of p s8]
  have "syserr_all p jump_table s = Some (0, console_put (10 # line_of ''Overall Tests: PASS'') s8)"
    unfolding syserr_all_def 1(1) 2(1) 3(1) 4(1) 5(1) 6(1) 7(1) 8(1) Option.bind.simps prod.case Let_def using q(1) 8(2) by simp
  moreover have "abs_screen (console_put (10 # line_of ''Overall Tests: PASS'') s8) = fold term_put (concat pass_lines) (abs_screen s)"
    unfolding pass_lines_def using q(4) 8(2) unfolding 8(3) 7(3) 6(3) 5(3) 4(3) 3(3) 2(3) 1(3) by (simp del: fold_simps)
  ultimately show ?thesis using q(5) 8(2) by blast
qed

text \<open>The sample kernel with the literals of the tests in blocks of 64 bytes and with only the terminal open.\<close>

definition suite_texts :: "byte list list" where
  "suite_texts = chars_of ''.'' # bad_names @ pass_lines"

definition pad64 :: "byte list \<Rightarrow> byte list" where
  "pad64 t = t @ replicate (64 - length t) 0"

definition suite_kernel :: paging where
  "suite_kernel = sample_kernel\<lparr>mem := store_bytes sample_mem 0x240000 (concat (map pad64 suite_texts)),
     pcb_heap := (\<lambda>_. sample_pcb\<lparr>file_array := take 2 sample_files @ replicate 6 free_desc\<rparr>)\<rparr>"

definition suite_program :: program where
  "suite_program = \<lparr>literal = \<lambda>t. 0x240000 + of_nat (64 * length (takeWhile ((\<noteq>) t) suite_texts)), buf_at = 0x230000, dentry_at = 0x220000,
     arrivals = \<lambda>_. []\<rparr>"

lemma suite_texts_ok: "length suite_texts = 13" "list_all (\<lambda>t. length t < 64 \<and> 0 \<notin> set t \<and> 9 \<notin> set t) suite_texts"
  by code_simp+

lemma length_blocks: "list_all (\<lambda>b. length b = n) bs \<Longrightarrow> length (concat bs) = length bs * n"
  by (induction bs) auto

lemma concat_blocks:
  "list_all (\<lambda>b. length b = n) bs \<Longrightarrow> i < length bs \<Longrightarrow> k < n \<Longrightarrow> concat bs ! (i * n + k) = bs ! i ! k"
proof (induction bs arbitrary: i)
  case (Cons b bs)
  then show ?case by (cases i) (auto simp: nth_append)
qed simp

lemma suite_blocks: "list_all (\<lambda>b. length b = 64) (map pad64 suite_texts)" "length (concat (map pad64 suite_texts)) = 832"
proof -
  show b: "list_all (\<lambda>b. length b = 64) (map pad64 suite_texts)"
    using suite_texts_ok(2) by (auto simp: list_all_iff pad64_def)
  show "length (concat (map pad64 suite_texts)) = 832" using length_blocks [OF b] suite_texts_ok(1) by simp
qed

lemma first_index: "x \<in> set xs \<Longrightarrow> length (takeWhile ((\<noteq>) x) xs) < length xs"
  by (induction xs) auto

lemma suite_literal:
  assumes t: "t \<in> set suite_texts"
  obtains i where "i < 13" "literal suite_program t = 0x240000 + of_nat (64 * i)" "cstr_at (mem suite_kernel) (literal suite_program t) t"
    "length t < 64" "9 \<notin> set t"
proof -
  define i where "i = length (takeWhile ((\<noteq>) t) suite_texts)"
  have lt: "i < length suite_texts" unfolding i_def by (rule first_index [OF t])
  then have i: "i < 13" "suite_texts ! i = t"
    using nth_length_takeWhile [of "(\<noteq>) t" suite_texts] suite_texts_ok(1) by (simp_all add: i_def)
  have l: "literal suite_program t = 0x240000 + of_nat (64 * i)" by (simp add: suite_program_def i_def)
  have t3: "length t < 64" "0 \<notin> set t" "9 \<notin> set t" using suite_texts_ok(2) t by (auto simp: list_all_iff)
  have m: "mem suite_kernel (literal suite_program t + of_nat k) = (t @ [0]) ! k" if k: "k \<le> length t" for k
  proof -
    have e: "literal suite_program t + of_nat k = 0x240000 + of_nat (64 * i + k)" by (simp add: l)
    have lt: "64 * i + k < 832" using i(1) k t3(1) by linarith
    have "mem suite_kernel (literal suite_program t + of_nat k) = concat (map pad64 suite_texts) ! (64 * i + k)"
      unfolding e using lt suite_blocks(2) by (simp add: suite_kernel_def store_bytes_def in_region_def unat_of_nat_addr del: of_nat_add of_nat_mult)
    also have "\<dots> = pad64 t ! k"
      using concat_blocks [OF suite_blocks(1), of i k] i suite_texts_ok(1) k t3(1) by (simp add: mult.commute)
    also have "\<dots> = (t @ [0]) ! k" using k t3(1) by (auto simp: pad64_def nth_append)
    finally show ?thesis .
  qed
  have "bytes_at (mem suite_kernel) (literal suite_program t) (length t) = t"
    using m by (intro nth_equalityI) (simp_all add: nth_append)
  then have "cstr_at (mem suite_kernel) (literal suite_program t) t" using m [of "length t"] t3(2) by (simp add: cstr_at_def)
  then show thesis using that [OF i(1) l] t3 by blast
qed

lemma suite_literal_ok: "t \<in> set suite_texts \<Longrightarrow> literal_ok suite_program (open_regions (dentry_at suite_program) suite_kernel) t (mem suite_kernel)"
proof (erule suite_literal)
  fix i assume i: "i < 13" and l: "literal suite_program t = 0x240000 + of_nat (64 * i)" and c: "cstr_at (mem suite_kernel) (literal suite_program t) t"
    and t: "length t < 64" "9 \<notin> set t"
  have sep: "separate a n (literal suite_program t) (Suc (length t))" if "separate a n 0x240000 832" for a n
  proof -
    have "64 * i + Suc (length t) \<le> 832" using i t(1) by linarith
    from separate_sub [OF that, of 0 n "64 * i" "Suc (length t)"] this show ?thesis by (simp add: l)
  qed
  have "open_regions (dentry_at suite_program) suite_kernel = [(0x212000, 34), (0x210000, 64), (0x220000, 64)]"
    by (simp add: open_regions_def suite_program_def suite_kernel_def sample_kernel_fields)
  moreover have "literal suite_program t \<noteq> 0"
    using sep [of 0 1] by (auto simp: separate_def)
  moreover have "separate VIDEO 4000 (literal suite_program t) (Suc (length t))" "separate 0x212000 34 (literal suite_program t) (Suc (length t))"
    "separate 0x210000 64 (literal suite_program t) (Suc (length t))" "separate 0x220000 64 (literal suite_program t) (Suc (length t))"
    by (rule sep, simp add: separate_def VIDEO_def)+
  ultimately show ?thesis
    using c t separate_sym [of VIDEO 4000] by (simp add: literal_ok_def printable_def)
qed

lemma suite_kernel_fields:
  "filesys_ptr suite_kernel = 0x100000" "bblk suite_kernel = bblk sample_fsys" "open_dentry suite_kernel = 0x210000"
  "read_dentry suite_kernel = 0x211000" "filename_buf suite_kernel = 0x212000"
  "cur_files suite_kernel = take 2 sample_files @ replicate 6 free_desc"
  using sample_kernel_fields by (simp_all add: suite_kernel_def cur_files_def)

lemma suite_kernel_fs: "suite_mem suite_program suite_kernel"
proof -
  have fr: "frame_out [(0x240000, 832)] (mem sample_fsys) (mem suite_kernel)"
    using frame_out_store_bytes [of "concat (map pad64 suite_texts)" 832 "0x240000" sample_mem] suite_blocks(2)
    by (simp add: suite_kernel_def sample_frame)
  have fs: "fs_frame sample_fsys (mem suite_kernel)"
    unfolding fs_frame_def
  proof (intro allI impI)
    fix x assume "in_region (filesys_ptr sample_fsys) 4096 x"
    then have "in_region 0x100000 4096 x" by (simp add: sample_frame)
    from frame_outD [OF fr _ this] show "mem suite_kernel x = mem sample_fsys x" by (simp add: separate_def)
  qed
  define u where "u = sample_fsys\<lparr>mem := mem suite_kernel\<rparr>"
  have u: "fs_layout suite_kernel = fs_layout u" "dir_lookup f suite_kernel = dir_lookup f u" for f
    unfolding fs_layout_def dir_lookup_def dir_ok_def n_entries_def
    by (simp_all add: u_def suite_kernel_fields) (simp_all add: sample_fsys_def)
  have lay: "fs_layout u" using dir_frame(3) [OF sample_dir_ok fs] sample_fs_layout by (simp add: fs_layout_def u_def)
  have look: "dir_lookup f suite_kernel = dir_lookup f sample_fsys" for f
    using dir_frame(4) [OF sample_dir_ok fs, of f] by (simp add: u(2)) (simp add: u_def)
  have "entry_type 0x100000 0 (mem suite_kernel) = DIR_FILE"
    using entry_frame(2) [OF fs, of 0] sample_entry_info(3) by (simp add: sample_frame)
  moreover have "list_all (\<lambda>f. dir_lookup f suite_kernel = None) bad_names"
    unfolding look by (simp add: bad_names_def chars_of_def dir_lookup_def sample_frame entry_name_def upt_3 sample_entries)
  moreover have "dir_lookup (chars_of ''.'') suite_kernel = Some 0" unfolding look using sample_entry_info(4) by (simp add: chars_of_def)
  moreover have "list_all (\<lambda>t. literal_ok suite_program (open_regions (dentry_at suite_program) suite_kernel) t (mem suite_kernel)) (chars_of ''.'' # bad_names @ pass_lines)"
    unfolding suite_texts_def [symmetric] list_all_iff using suite_literal_ok by blast
  ultimately show ?thesis
    unfolding suite_mem_def u(1) using lay
    by (simp add: suite_kernel_fields sample_frame(5) dentry_arg_def open_regions_def)
      (simp add: suite_program_def separate_def VIDEO_def)
qed

lemma suite_kernel_fds: "suite_fds suite_kernel" "all_free suite_kernel"
proof -
  have "screen_x suite_kernel = 0" "screen_y suite_kernel = 0" using sample_screen by (simp_all add: suite_kernel_def)
  moreover have "replicate 6 free_desc = [free_desc, free_desc, free_desc, free_desc, free_desc, free_desc]" by (simp add: numeral_eq_Suc)
  ultimately show "suite_fds suite_kernel" "all_free suite_kernel"
    by (simp_all add: suite_fds_def stdout_ok_def cursor_ok_def files_ok_def all_free_def get_fd_def suite_kernel_fields sample_files_def
        free_desc_def fd_free_def)
qed

theorem kernel_passes_error_tests_witness:
  "\<exists>s'. syserr_all suite_program [] suite_kernel = Some (0, s') \<and> all_free s' \<and>
     abs_screen s' = fold term_put (concat pass_lines) (abs_screen suite_kernel)"
  using kernel_passes_error_tests [OF suite_kernel_fs suite_kernel_fds, of "[]"] by (simp add: suite_program_def)

end
