(* ===== verification/Spec2Isabelle.thy ===== *)
theory Spec2Isabelle
  imports Lib_String Lib_Mem I8259 Printf Descriptors Processes Syserr
begin

text \<open>
  Verification of the kernel in \<^verbatim>\<open>student-distrib\<close>: the system library, the interrupt controller, the
  text screen, the process control block and the read-only file system.
\<close>

end
